(* ===== verification/Prelude.thy ===== *)
theory Prelude
  imports Main "HOL-Library.Word" "HOL-Library.Finite_Map" "HOL-Library.List_Lexorder"
begin

text \<open>
  Shared vocabulary of the development: Go's byte slices and strings, error values, the
  state-and-error programs every service method is written in, and the refinement relation
  between two such programs.

  A Go function that returns \<open>(x, err)\<close> and touches the storage, the key store, the random
  source or its \<open>*User\<close> argument is a \<open>prog\<close>: it takes the state and returns either the error
  or the value, and the new state in both cases, because the writes a failing call has already
  made stay made.
\<close>

section \<open>Bytes, strings and words\<close>

type_synonym byte = "8 word"
type_synonym bytes = "byte list"

text \<open>A Go \<open>string\<close> is a sequence of bytes, not necessarily valid UTF-8.\<close>

type_synonym gostr = "byte list"

text \<open>\<open>google/uuid\<close>'s \<open>type UUID [16]byte\<close>.\<close>

type_synonym uuid = "byte list"

definition lit :: "string \<Rightarrow> gostr" where
  "lit s = map of_char s"

text \<open>A name as it appears in the prefix of a wrapped error.\<close>

definition name_text :: "gostr \<Rightarrow> string" where
  "name_text n = map (\<lambda>b. char_of (unat b)) n"

lemma lit_Nil [simp]: "lit [] = []"
  by (simp add: lit_def)

lemma lit_Nil_iff [simp]: "lit s = [] \<longleftrightarrow> s = []" "[] = lit s \<longleftrightarrow> s = []"
  by (auto simp: lit_def)

lemma length_lit [simp]: "length (lit s) = length s"
  by (simp add: lit_def)

lemma unat_of_char_byte [simp]: "unat (of_char c :: byte) = of_char c"
proof -
  have "unat (of_nat (of_char c :: nat) :: byte) = of_char c mod 2 ^ LENGTH(8)"
    by (simp only: unat_of_nat)
  also have "\<dots> = of_char c"
    using nat_of_char_less_256 [of c] by simp
  finally show ?thesis
    by (simp only: of_nat_of_char)
qed

lemma unat_byte_less [simp]: "unat (b :: byte) < 256"
  using unsigned_less [of b, where ?'a = nat] by simp

lemma unat_byte_le: "unat (b :: byte) \<le> 255"
  using unat_byte_less [of b] by linarith

lemma unat_byte_of_nat: "n < 256 \<Longrightarrow> unat (of_nat n :: byte) = n"
  by (simp add: unat_of_nat)

lemma byte_of_nat_unat [simp]: "of_nat (unat (b :: byte)) = b"
  by simp

lemma byte_eq_iff_unat: "(a :: byte) = b \<longleftrightarrow> unat a = unat b"
  by (rule word_unat_eq_iff)

lemma byte_less_iff_unat: "(a :: byte) < b \<longleftrightarrow> unat a < unat b"
  by (rule word_less_nat_alt)

lemma byte_le_iff_unat: "(a :: byte) \<le> b \<longleftrightarrow> unat a \<le> unat b"
  by (rule word_le_nat_alt)

lemma div_split: "(v :: nat) div (m * n) * n + v div m mod n = v div m"
  by (simp add: div_mult2_eq)

lemma of_char_byte_inj: "(of_char c :: byte) = of_char d \<longleftrightarrow> c = d"
proof
  assume "(of_char c :: byte) = of_char d"
  then have "unat (of_char c :: byte) = unat (of_char d :: byte)"
    by (rule arg_cong)
  then have "(of_char c :: nat) = of_char d"
    by (simp only: unat_of_char_byte)
  then show "c = d"
    by (rule injD [OF inj_of_char])
qed simp

lemma lit_inj [simp]: "lit s = lit t \<longleftrightarrow> s = t"
proof -
  have "inj (of_char :: char \<Rightarrow> byte)"
    by (rule injI) (simp add: of_char_byte_inj)
  then show ?thesis
    by (simp add: lit_def inj_map_eq_map)
qed

lemma takeWhile_before [simp]: "x \<notin> set m \<Longrightarrow> takeWhile (\<lambda>c. c \<noteq> x) (m @ x # g) = m"
  by (induction m) auto

lemma add_small:
  "(x :: nat) + 1 = Suc x" "(x :: nat) + 2 = Suc (Suc x)" "(x :: nat) + 3 = Suc (Suc (Suc x))"
  "(x :: nat) + 4 = Suc (Suc (Suc (Suc x)))" "(x :: nat) + 5 = Suc (Suc (Suc (Suc (Suc x))))"
  "(x :: nat) + 6 = Suc (Suc (Suc (Suc (Suc (Suc x)))))"
  "(x :: nat) + 7 = Suc (Suc (Suc (Suc (Suc (Suc (Suc x))))))"
  "(x :: nat) + 8 = Suc (Suc (Suc (Suc (Suc (Suc (Suc (Suc x)))))))"
  by simp_all

section \<open>Errors\<close>

text \<open>
  \<open>Msg f args\<close> is \<open>errors.New(f)\<close> or \<open>fmt.Errorf(f, args...)\<close>; \<open>Wrap c e\<close> is
  \<open>fmt.Errorf("c: %w", e)\<close>; \<open>Panic r\<close> is a run-time panic, which ends the call it happens in.
  \<open>EOF\<close> and \<open>UnexpectedEOF\<close> are the two sentinel errors of \<open>io.ReadFull\<close>. \<open>Exit n\<close> is
  \<open>os.Exit(n)\<close>, which like a panic ends the program wherever it is.
\<close>

datatype err =
    Msg string "gostr list"
  | Wrap string err
  | Panic string
  | Exit nat
  | EOF
  | UnexpectedEOF

section \<open>Programs\<close>

type_synonym ('s, 'a) prog = "'s \<Rightarrow> (err + 'a) \<times> 's"

definition ret :: "'a \<Rightarrow> ('s, 'a) prog" where
  "ret x s = (Inr x, s)"

definition throw :: "err \<Rightarrow> ('s, 'a) prog" where
  "throw e s = (Inl e, s)"

definition bindE :: "('s, 'a) prog \<Rightarrow> ('a \<Rightarrow> ('s, 'b) prog) \<Rightarrow> ('s, 'b) prog" where
  "bindE m f s = (case m s of (Inl e, s') \<Rightarrow> (Inl e, s') | (Inr x, s') \<Rightarrow> f x s')"

definition wrapE :: "string \<Rightarrow> ('s, 'a) prog \<Rightarrow> ('s, 'a) prog" where
  "wrapE c m s = (case m s of (Inl e, s') \<Rightarrow> (Inl (Wrap c e), s') | (Inr x, s') \<Rightarrow> (Inr x, s'))"

definition liftE :: "err + 'a \<Rightarrow> ('s, 'a) prog" where
  "liftE r s = (r, s)"

definition gets :: "('s \<Rightarrow> 'a) \<Rightarrow> ('s, 'a) prog" where
  "gets f s = (Inr (f s), s)"

definition modify :: "('s \<Rightarrow> 's) \<Rightarrow> ('s, unit) prog" where
  "modify f s = (Inr (), f s)"

text \<open>\<open>v, ok := m[k]; if !ok \<dots>\<close> after a call whose error has been dealt with.\<close>

definition someE :: "err \<Rightarrow> 'a option \<Rightarrow> ('s, 'a) prog" where
  "someE e r = (case r of None \<Rightarrow> throw e | Some x \<Rightarrow> ret x)"

definition guardE :: "bool \<Rightarrow> err \<Rightarrow> ('s, unit) prog" where
  "guardE b e = (if b then ret () else throw e)"

text \<open>Wrapping a pure result.\<close>

definition wrapR :: "string \<Rightarrow> err + 'a \<Rightarrow> err + 'a" where
  "wrapR c r = (case r of Inl e \<Rightarrow> Inl (Wrap c e) | Inr x \<Rightarrow> Inr x)"

named_theorems run_simps \<open>evaluation of a program in a known state\<close>

lemma run_basic [run_simps, simp]:
  "ret x s = (Inr x, s)"
  "throw e s = (Inl e, s)"
  "liftE r s = (r, s)"
  "gets g s = (Inr (g s), s)"
  "modify h s = (Inr (), h s)"
  by (simp_all add: ret_def throw_def liftE_def gets_def modify_def)

lemma run_bind [run_simps]:
  "bindE m f s = (case m s of (Inl e, s') \<Rightarrow> (Inl e, s') | (Inr x, s') \<Rightarrow> f x s')"
  by (simp add: bindE_def)

lemma run_wrap [run_simps]:
  "wrapE c m s = (case m s of (Inl e, s') \<Rightarrow> (Inl (Wrap c e), s') | (Inr x, s') \<Rightarrow> (Inr x, s'))"
  by (simp add: wrapE_def)

lemma run_some [run_simps, simp]:
  "someE e None s = (Inl e, s)"
  "someE e (Some x) s = (Inr x, s)"
  by (simp_all add: someE_def)

lemma run_guard [run_simps]:
  "guardE b e s = (if b then (Inr (), s) else (Inl e, s))"
  by (simp add: guardE_def)

lemma wrapR_simps [run_simps, simp]:
  "wrapR c (Inr x) = Inr x"
  "wrapR c (Inl e) = Inl (Wrap c e)"
  by (simp_all add: wrapR_def)

lemma bindE_InrE:
  assumes "bindE m f s = (Inr y, t)"
  obtains x s' where "m s = (Inr x, s')" and "f x s' = (Inr y, t)"
  using assms by (auto simp: bindE_def split: prod.splits sum.splits)

lemma bindE_Inr_iff:
  "bindE m f s = (Inr y, t) \<longleftrightarrow> (\<exists>x s'. m s = (Inr x, s') \<and> f x s' = (Inr y, t))"
  by (auto simp: bindE_def split: sum.splits prod.splits)

lemma bindE_assoc: "bindE (bindE m f) g = bindE m (\<lambda>x. bindE (f x) g)"
  by (rule ext) (simp add: bindE_def split: prod.split sum.split)

section \<open>Refinement between programs\<close>

text \<open>
  \<open>refines R m m'\<close>: from related states, whenever \<open>m\<close> returns a value, \<open>m'\<close> returns the same
  value and the states stay related. \<open>m\<close> may fail where \<open>m'\<close> does not (a network error), so
  this is the relation between a service over a storage that can be unreachable and the same
  service over a map.
\<close>

definition refines :: "('s \<Rightarrow> 't \<Rightarrow> bool) \<Rightarrow> ('s, 'a) prog \<Rightarrow> ('t, 'a) prog \<Rightarrow> bool" where
  "refines R m m' \<longleftrightarrow>
     (\<forall>s t x s'. R s t \<longrightarrow> m s = (Inr x, s') \<longrightarrow> (\<exists>t'. m' t = (Inr x, t') \<and> R s' t'))"

named_theorems refine_intros \<open>compositional refinement rules\<close>

lemma refinesD:
  "refines R m m' \<Longrightarrow> R s t \<Longrightarrow> m s = (Inr x, s') \<Longrightarrow> \<exists>t'. m' t = (Inr x, t') \<and> R s' t'"
  by (auto simp: refines_def)

lemma refinesI:
  "(\<And>s t x s'. R s t \<Longrightarrow> m s = (Inr x, s') \<Longrightarrow> \<exists>t'. m' t = (Inr x, t') \<and> R s' t')
   \<Longrightarrow> refines R m m'"
  by (auto simp: refines_def)

lemma refines_bind [refine_intros]:
  assumes "refines R m m'" and "\<And>x. refines R (f x) (f' x)"
  shows "refines R (bindE m f) (bindE m' f')"
proof (rule refinesI)
  fix s t y s''
  assume R: "R s t" and run: "bindE m f s = (Inr y, s'')"
  from run obtain x s' where m: "m s = (Inr x, s')" and f: "f x s' = (Inr y, s'')"
    by (rule bindE_InrE)
  from refinesD [OF assms(1) R m] obtain t' where m': "m' t = (Inr x, t')" and R': "R s' t'"
    by blast
  from refinesD [OF assms(2) R' f] m' show "\<exists>t'. bindE m' f' t = (Inr y, t') \<and> R s'' t'"
    by (auto simp: bindE_def)
qed

lemma refines_ret [refine_intros]: "refines R (ret x) (ret x)"
  by (auto simp: refines_def)

lemma refines_throw [refine_intros]: "refines R (throw e) (throw e')"
  by (auto simp: refines_def)

lemma refines_lift [refine_intros]: "refines R (liftE r) (liftE r)"
  by (auto simp: refines_def)

lemma refines_some [refine_intros]: "refines R (someE e r) (someE e r)"
  by (cases r) (auto simp: refines_def)

lemma refines_guard [refine_intros]: "refines R (guardE b e) (guardE b e)"
  by (auto simp: refines_def guardE_def)

lemma refines_wrap [refine_intros]: "refines R m m' \<Longrightarrow> refines R (wrapE c m) (wrapE c m')"
  by (fastforce simp: refines_def wrapE_def split: prod.splits sum.splits)

lemma refines_gets [refine_intros]:
  "(\<And>s t. R s t \<Longrightarrow> g s = h t) \<Longrightarrow> refines R (gets g) (gets h)"
  by (auto simp: refines_def)

lemma refines_modify [refine_intros]:
  "(\<And>s t. R s t \<Longrightarrow> R (g s) (h t)) \<Longrightarrow> refines R (modify g) (modify h)"
  by (auto simp: refines_def)

lemma refines_if [refine_intros]:
  "(b \<Longrightarrow> refines R m m') \<Longrightarrow> (\<not> b \<Longrightarrow> refines R n n')
   \<Longrightarrow> refines R (if b then m else n) (if b then m' else n')"
  by auto

lemma refines_option [refine_intros]:
  "refines R n n' \<Longrightarrow> (\<And>x. refines R (f x) (f' x))
   \<Longrightarrow> refines R (case r of None \<Rightarrow> n | Some x \<Rightarrow> f x) (case r of None \<Rightarrow> n' | Some x \<Rightarrow> f' x)"
  by (cases r) auto

lemma refines_prod [refine_intros]:
  "(\<And>x y. refines R (f x y) (f' x y))
   \<Longrightarrow> refines R (case p of (x, y) \<Rightarrow> f x y) (case p of (x, y) \<Rightarrow> f' x y)"
  by (cases p) auto

section \<open>Invariants of programs\<close>

text \<open>
  \<open>keeps I m T\<close>: started in a state with \<open>I\<close>, \<open>m\<close> leaves one, also when it fails, and a value it
  returns has \<open>T\<close>. The rules follow the constructs, so that a method is checked by going through
  its text with \<open>rule keeps_intros\<close>, which finds the \<open>T\<close> of every call on its way.
\<close>

definition keeps :: "('s \<Rightarrow> bool) \<Rightarrow> ('s, 'a) prog \<Rightarrow> ('a \<Rightarrow> bool) \<Rightarrow> bool" where
  "keeps I m T \<longleftrightarrow> (\<forall>s r s'. I s \<longrightarrow> m s = (r, s') \<longrightarrow> I s' \<and> (\<forall>x. r = Inr x \<longrightarrow> T x))"

named_theorems keeps_intros \<open>going through a program that keeps an invariant\<close>

lemma keepsI:
  "(\<And>s r s'. I s \<Longrightarrow> m s = (r, s') \<Longrightarrow> I s' \<and> (\<forall>x. r = Inr x \<longrightarrow> T x)) \<Longrightarrow> keeps I m T"
  by (simp add: keeps_def)

lemma keepsD: "keeps I m T \<Longrightarrow> I s \<Longrightarrow> m s = (r, s') \<Longrightarrow> I s' \<and> (\<forall>x. r = Inr x \<longrightarrow> T x)"
  by (simp add: keeps_def)

lemma keeps_state: "keeps I m T \<Longrightarrow> I s \<Longrightarrow> I (snd (m s))"
  by (metis keepsD prod.collapse)

lemma keeps_weaken: "keeps I m T \<Longrightarrow> (\<And>x. T x \<Longrightarrow> U x) \<Longrightarrow> keeps I m U"
  unfolding keeps_def by blast

lemma keeps_any: "keeps I m T \<Longrightarrow> keeps I m (\<lambda>_. True)"
  by (erule keeps_weaken) simp

lemma keeps_bind [keeps_intros]:
  assumes "keeps I m T" and "\<And>x. T x \<Longrightarrow> keeps I (f x) U"
  shows "keeps I (bindE m f) U"
proof (rule keepsI)
  fix s r s'
  assume I: "I s" and run: "bindE m f s = (r, s')"
  obtain q t where m: "m s = (q, t)" by fastforce
  note mid = keepsD [OF assms(1) I m]
  show "I s' \<and> (\<forall>x. r = Inr x \<longrightarrow> U x)"
  proof (cases q)
    case (Inl e)
    with m mid run show ?thesis by (auto simp: bindE_def)
  next
    case (Inr x)
    with m run have "f x t = (r, s')" by (simp add: bindE_def)
    with keepsD [OF assms(2) _ this] mid Inr show ?thesis by simp
  qed
qed

lemma keeps_ret [keeps_intros]: "T x \<Longrightarrow> keeps I (ret x) T"
  by (auto simp: keeps_def)

lemma keeps_throw [keeps_intros]: "keeps I (throw e) T"
  by (auto simp: keeps_def)

lemma keeps_lift [keeps_intros]: "keeps I (liftE r) (\<lambda>x. r = Inr x)"
  by (auto simp: keeps_def)

lemma keeps_some [keeps_intros]: "keeps I (someE e r) (\<lambda>x. r = Some x)"
  by (cases r) (auto simp: keeps_def)

lemma keeps_guard [keeps_intros]: "keeps I (guardE b e) (\<lambda>_. b)"
  by (auto simp: keeps_def guardE_def)

lemma keeps_wrap [keeps_intros]: "keeps I m T \<Longrightarrow> keeps I (wrapE c m) T"
  by (fastforce simp: keeps_def wrapE_def split: prod.splits sum.splits)

lemma keeps_gets: "(\<And>s. I s \<Longrightarrow> T (f s)) \<Longrightarrow> keeps I (gets f) T"
  by (auto simp: keeps_def)

lemma keeps_read: "keeps I (gets f) (\<lambda>_. True)"
  by (rule keeps_gets) simp

lemma keeps_modify [keeps_intros]: "(\<And>s. I s \<Longrightarrow> I (f s)) \<Longrightarrow> keeps I (modify f) (\<lambda>_. True)"
  by (auto simp: keeps_def)

lemma keeps_if [keeps_intros]:
  "(b \<Longrightarrow> keeps I m T) \<Longrightarrow> (\<not> b \<Longrightarrow> keeps I n T) \<Longrightarrow> keeps I (if b then m else n) T"
  by simp

lemma keeps_option [keeps_intros]:
  "(r = None \<Longrightarrow> keeps I n T) \<Longrightarrow> (\<And>x. r = Some x \<Longrightarrow> keeps I (f x) T) \<Longrightarrow>
   keeps I (case r of None \<Rightarrow> n | Some x \<Rightarrow> f x) T"
  by (cases r) simp_all

lemma keeps_prod [keeps_intros]:
  "(\<And>x y. p = (x, y) \<Longrightarrow> keeps I (f x y) T) \<Longrightarrow> keeps I (case p of (x, y) \<Rightarrow> f x y) T"
  by (cases p) simp

lemma keeps_list [keeps_intros]:
  "(xs = [] \<Longrightarrow> keeps I m T) \<Longrightarrow> (\<And>y ys. xs = y # ys \<Longrightarrow> keeps I (f y ys) T) \<Longrightarrow>
   keeps I (case xs of [] \<Rightarrow> m | y # ys \<Rightarrow> f y ys) T"
  by (cases xs) simp_all

section \<open>Equivalence\<close>

text \<open>Two programs that do the same in related states, in both directions.\<close>

definition equivalent :: "('s \<Rightarrow> 't \<Rightarrow> bool) \<Rightarrow> ('s, 'a) prog \<Rightarrow> ('t, 'a) prog \<Rightarrow> bool" where
  "equivalent R m m' \<longleftrightarrow> refines R m m' \<and> refines (\<lambda>t s. R s t) m' m"

end
