(* ===== verification/Wire.thy ===== *)
theory Wire
  imports Prelude
begin

text \<open>
  What both ends of the storage protocol use of \<open>io\<close>, \<open>net\<close> and \<open>encoding/binary\<close>: a
  connection, \<open>io.ReadFull\<close>, \<open>Write\<close>, and big-endian 32-bit lengths.
\<close>

section \<open>Connections\<close>

text \<open>
  \<open>incoming\<close> are the bytes that will still arrive before the peer closes, \<open>room\<close> is the number of
  bytes the peer still takes before the connection breaks, \<open>outgoing\<close> what it has taken.
\<close>

record conn =
  incoming :: bytes
  room :: nat
  outgoing :: bytes

definition write_broken :: err where
  "write_broken = Msg ''write: broken pipe'' []"

text \<open>
  \<open>net.Conn.Write\<close>: the number of bytes written and the error, which is not nil when the number is
  smaller than the length (the contract of \<open>io.Writer\<close>).
\<close>

definition conn_Write :: "bytes \<Rightarrow> 'a conn_scheme \<Rightarrow> (nat \<times> err option) \<times> 'a conn_scheme" where
  "conn_Write p c =
     (if length p \<le> room c
      then ((length p, None), c\<lparr>room := room c - length p, outgoing := outgoing c @ p\<rparr>)
      else ((room c, Some write_broken), c\<lparr>room := 0, outgoing := outgoing c @ take (room c) p\<rparr>))"

text \<open>\<open>io.ReadFull\<close> into a buffer of \<open>n\<close> bytes.\<close>

definition ReadFull :: "nat \<Rightarrow> ('a conn_scheme, bytes) prog" where
  "ReadFull n c =
     (if n \<le> length (incoming c) then (Inr (take n (incoming c)), c\<lparr>incoming := drop n (incoming c)\<rparr>)
      else if incoming c = [] then (Inl EOF, c)
      else (Inl UnexpectedEOF, c\<lparr>incoming := []\<rparr>))"

lemma run_ReadFull [run_simps]:
  "incoming c = b @ rest \<Longrightarrow> length b = n \<Longrightarrow> ReadFull n c = (Inr b, c\<lparr>incoming := rest\<rparr>)"
  by (auto simp: ReadFull_def)

lemma ReadFull_short:
  assumes "length (incoming c) < n"
  obtains e where "ReadFull n c = (Inl e, c\<lparr>incoming := []\<rparr>)" and "e = EOF \<or> e = UnexpectedEOF"
proof (cases "incoming c = []")
  case True
  then have "c\<lparr>incoming := []\<rparr> = c"
    by (metis conn.surjective conn.update_convs(1))
  with True assms show thesis
    by (intro that [of EOF]) (simp_all add: ReadFull_def)
next
  case False
  with assms show thesis
    by (intro that [of UnexpectedEOF]) (simp_all add: ReadFull_def)
qed

lemma ReadFull_Inr:
  assumes "ReadFull n c = (Inr b, c')"
  shows "incoming c = b @ incoming c'" and "length b = n" and "c' = c\<lparr>incoming := incoming c'\<rparr>"
  using assms by (auto simp: ReadFull_def split: if_splits)

lemma ReadFull_Inl:
  assumes "ReadFull n c = (Inl e, c')"
  shows "c' = c\<lparr>incoming := []\<rparr>" and "length (incoming c) < n"
  using assms by (auto simp: ReadFull_def split: if_splits)

text \<open>Programs that take nothing back onto the connection.\<close>

definition only_reads :: "('a conn_scheme, 'b) prog \<Rightarrow> bool" where
  "only_reads m \<longleftrightarrow> (\<forall>c. length (incoming (snd (m c))) \<le> length (incoming c))"

lemma only_readsD: "only_reads m \<Longrightarrow> m c = (r, c') \<Longrightarrow> length (incoming c') \<le> length (incoming c)"
  unfolding only_reads_def by (metis snd_conv)

lemma only_reads_ReadFull: "only_reads (ReadFull n)"
  by (simp add: only_reads_def ReadFull_def)

lemma only_reads_bind:
  assumes "only_reads m" and "\<And>x. only_reads (f x)"
  shows "only_reads (bindE m f)"
  unfolding only_reads_def
proof
  fix c
  obtain r c' where m: "m c = (r, c')"
    by fastforce
  show "length (incoming (snd (bindE m f c))) \<le> length (incoming c)"
  proof (cases r)
    case (Inl e)
    with m only_readsD [OF assms(1) m] show ?thesis by (simp add: bindE_def)
  next
    case (Inr x)
    have "length (incoming (snd (f x c'))) \<le> length (incoming c')"
      using assms(2) unfolding only_reads_def by blast
    with m Inr only_readsD [OF assms(1) m] show ?thesis by (simp add: bindE_def)
  qed
qed

section \<open>Lengths\<close>

text \<open>\<open>binary.BigEndian.PutUint32\<close> and \<open>binary.BigEndian.Uint32\<close>.\<close>

definition put_uint32 :: "32 word \<Rightarrow> bytes" where
  "put_uint32 v = [ucast (drop_bit 24 v), ucast (drop_bit 16 v), ucast (drop_bit 8 v), ucast v]"

definition get_uint32 :: "bytes \<Rightarrow> 32 word" where
  "get_uint32 b = or (or (or (push_bit 24 (ucast (b ! 0))) (push_bit 16 (ucast (b ! 1))))
     (push_bit 8 (ucast (b ! 2)))) (ucast (b ! 3))"

lemma length_put_uint32 [simp]: "length (put_uint32 v) = 4"
  by (simp add: put_uint32_def)

lemma get_put_uint32 [simp]: "get_uint32 (put_uint32 v) = v"
proof (rule bit_word_eqI)
  fix n
  assume "n < LENGTH(32)"
  then consider "n < 8" | "8 \<le> n" "n < 16" | "16 \<le> n" "n < 24" | "24 \<le> n" "n < 32"
    by fastforce
  then show "bit (get_uint32 (put_uint32 v)) n = bit v n"
    by cases (auto simp: get_uint32_def put_uint32_def bit_or_iff bit_push_bit_iff bit_ucast_iff bit_drop_bit_eq)
qed

lemma put_get_uint32:
  assumes "length b = 4"
  shows "put_uint32 (get_uint32 b) = b"
proof -
  obtain b0 b1 b2 b3 where b: "b = [b0, b1, b2, b3]"
    using assms by (auto simp: length_Suc_conv numeral_eq_Suc)
  have "ucast (drop_bit 24 (get_uint32 b)) = b0" "ucast (drop_bit 16 (get_uint32 b)) = b1"
    "ucast (drop_bit 8 (get_uint32 b)) = b2" "ucast (get_uint32 b) = b3"
    by (rule bit_word_eqI; auto simp: b get_uint32_def bit_or_iff bit_push_bit_iff bit_ucast_iff bit_drop_bit_eq
        dest: bit_imp_le_length)+
  then show ?thesis
    by (simp add: put_uint32_def b)
qed

lemma unat_of_nat_32: "n < 2 ^ 32 \<Longrightarrow> unat (of_nat n :: 32 word) = n"
  by (simp add: unat_of_nat)

text \<open>A field on the wire: its length and its bytes.\<close>

definition lv :: "bytes \<Rightarrow> bytes" where
  "lv b = put_uint32 (of_nat (length b)) @ b"

lemma length_lv [simp]: "length (lv b) = 4 + length b"
  by (simp add: lv_def)

text \<open>The bytes at the front are a field, or the two reads for a field fail.\<close>

definition has_field :: "bytes \<Rightarrow> bool" where
  "has_field p \<longleftrightarrow> 4 \<le> length p \<and> 4 + unat (get_uint32 (take 4 p)) \<le> length p"

definition after_field :: "bytes \<Rightarrow> bytes" where
  "after_field p = drop (4 + unat (get_uint32 (take 4 p))) p"

lemma has_field_lv:
  assumes "has_field p"
  obtains b where "p = lv b @ after_field p" and "length b < 2 ^ 32"
proof -
  let ?n = "unat (get_uint32 (take 4 p))" and ?b = "take (unat (get_uint32 (take 4 p))) (drop 4 p)"
  have len: "length ?b = ?n" and h: "put_uint32 (get_uint32 (take 4 p)) = take 4 p"
    using assms by (auto simp: has_field_def intro: put_get_uint32)
  then have lv: "lv ?b = take 4 p @ ?b"
    by (simp add: lv_def)
  have "after_field p = drop ?n (drop 4 p)"
    by (simp only: after_field_def drop_drop add.commute)
  then have "lv ?b @ after_field p = take 4 p @ drop 4 p"
    by (simp only: lv append_assoc append_take_drop_id)
  also have "\<dots> = p"
    by (rule append_take_drop_id)
  finally have "p = lv ?b @ after_field p" by (rule sym)
  moreover have "length ?b < 2 ^ 32"
    using unsigned_less [of "get_uint32 (take 4 p)", where ?'a = nat] by (simp only: len) simp
  ultimately show thesis by (rule that)
qed

lemma lv_has_field:
  assumes "length b < 2 ^ 32"
  shows "has_field (lv b @ r)" and "after_field (lv b @ r) = r"
  using assms by (simp_all add: has_field_def after_field_def lv_def unat_of_nat_32)

lemma no_field_fails:
  assumes "\<not> has_field (incoming c)"
  shows "\<exists>e. bindE (ReadFull 4) (\<lambda>n. bindE (ReadFull (unat (get_uint32 n))) f) c = (Inl e, c\<lparr>incoming := []\<rparr>)"
proof (cases "4 \<le> length (incoming c)")
  case False
  then have "length (incoming c) < 4" by simp
  then obtain e where "ReadFull 4 c = (Inl e, c\<lparr>incoming := []\<rparr>)"
    by (rule ReadFull_short)
  then show ?thesis by (simp add: run_bind)
next
  case True
  let ?c = "c\<lparr>incoming := drop 4 (incoming c)\<rparr>"
  have "ReadFull 4 c = (Inr (take 4 (incoming c)), ?c)"
    using True by (simp add: ReadFull_def)
  moreover have "length (incoming ?c) < unat (get_uint32 (take 4 (incoming c)))"
    using assms True by (simp add: has_field_def)
  then obtain e where "ReadFull (unat (get_uint32 (take 4 (incoming c)))) ?c = (Inl e, ?c\<lparr>incoming := []\<rparr>)"
    by (rule ReadFull_short)
  ultimately show ?thesis by (simp add: run_bind)
qed

end
