(* ===== verification/Server.thy ===== *)
theory Server
  imports Wire
begin

text \<open>
  The storage server: \<open>internal/server/store/store.go\<close>, \<open>internal/server/handler/handler.go\<close> and
  the connection loop of \<open>internal/server/server.go\<close>. The badger database is not in this
  repository: it is the parameter \<open>badger\<close> with the contract \<open>badger_ok\<close>.
\<close>

section \<open>The database\<close>

text \<open>
  One transaction each: \<open>txn.Get\<close> with \<open>ValueCopy\<close> and \<open>txn.Get\<close> alone in \<open>db.View\<close>; \<open>txn.Set\<close>,
  \<open>txn.SetEntry\<close> with a TTL, and \<open>txn.Delete\<close> in \<open>db.Update\<close>.
\<close>

record 'd badger =
  txn_Get :: "bytes \<Rightarrow> 'd \<Rightarrow> err + bytes"
  txn_Has :: "bytes \<Rightarrow> 'd \<Rightarrow> err + unit"
  txn_Set :: "bytes \<Rightarrow> bytes \<Rightarrow> ('d, unit) prog"
  txn_SetEntry :: "bytes \<Rightarrow> bytes \<Rightarrow> nat \<Rightarrow> ('d, unit) prog"
  txn_Delete :: "bytes \<Rightarrow> ('d, unit) prog"

definition ErrKeyNotFound :: err where
  "ErrKeyNotFound = Msg ''Key not found'' []"

text \<open>
  Documented behaviour of a badger database without expiring entries: a read sees the last
  committed write or reports \<open>ErrKeyNotFound\<close>; a failed transaction leaves everything as it was.
\<close>

definition badger_ok :: "'d badger \<Rightarrow> ('d \<Rightarrow> bytes \<rightharpoonup> bytes) \<Rightarrow> bool" where
  "badger_ok B contents \<longleftrightarrow>
     (\<forall>k d. (\<forall>v. txn_Get B k d = Inr v \<longrightarrow> contents d k = Some v) \<and>
            (txn_Get B k d = Inl ErrKeyNotFound \<longrightarrow> contents d k = None)) \<and>
     (\<forall>k d. (txn_Has B k d = Inr () \<longrightarrow> contents d k \<noteq> None) \<and>
            (txn_Has B k d = Inl ErrKeyNotFound \<longrightarrow> contents d k = None)) \<and>
     (\<forall>k v d r d'. txn_Set B k v d = (r, d') \<longrightarrow>
        contents d' = (case r of Inr _ \<Rightarrow> (contents d)(k \<mapsto> v) | Inl _ \<Rightarrow> contents d)) \<and>
     (\<forall>k d r d'. txn_Delete B k d = (r, d') \<longrightarrow>
        contents d' = (case r of Inr _ \<Rightarrow> (contents d)(k := None) | Inl _ \<Rightarrow> contents d))"

section \<open>\<open>Store\<close>\<close>

definition Store_Get :: "'d badger \<Rightarrow> bytes \<Rightarrow> ('d, bytes) prog" where
  "Store_Get B key d = (txn_Get B key d, d)"

definition Store_Set :: "'d badger \<Rightarrow> bytes \<Rightarrow> bytes \<Rightarrow> ('d, unit) prog" where
  "Store_Set B key val = txn_Set B key val"

definition Store_SetWithTTL :: "'d badger \<Rightarrow> bytes \<Rightarrow> bytes \<Rightarrow> nat \<Rightarrow> ('d, unit) prog" where
  "Store_SetWithTTL B key val ttl = txn_SetEntry B key val ttl"

definition Store_Delete :: "'d badger \<Rightarrow> bytes \<Rightarrow> ('d, unit) prog" where
  "Store_Delete B key = txn_Delete B key"

definition Store_Exists :: "'d badger \<Rightarrow> bytes \<Rightarrow> ('d, bool) prog" where
  "Store_Exists B key d =
     (case txn_Has B key d of
        Inl e \<Rightarrow> if e = ErrKeyNotFound then (Inr False, d) else (Inl e, d)
      | Inr _ \<Rightarrow> (Inr True, d))"

lemma Store_Exists_correct:
  assumes "badger_ok B contents" and "Store_Exists B k d = (Inr b, d')"
  shows "b \<longleftrightarrow> contents d k \<noteq> None" and "d' = d"
  using assms by (auto simp: badger_ok_def Store_Exists_def split: sum.splits if_splits)

section \<open>\<open>Handler\<close>\<close>

definition OpGet :: byte where "OpGet = 1"
definition OpSet :: byte where "OpSet = 2"
definition OpDelete :: byte where "OpDelete = 3"
definition StatusOK :: byte where "StatusOK = 0"
definition StatusNotFound :: byte where "StatusNotFound = 1"
definition StatusError :: byte where "StatusError = 2"

lemma op_neq [simp]:
  "OpGet \<noteq> OpSet" "OpGet \<noteq> OpDelete" "OpSet \<noteq> OpDelete"
  "OpSet \<noteq> OpGet" "OpDelete \<noteq> OpGet" "OpDelete \<noteq> OpSet"
  "StatusOK \<noteq> StatusNotFound" "StatusOK \<noteq> StatusError" "StatusNotFound \<noteq> StatusError"
  "StatusNotFound \<noteq> StatusOK" "StatusError \<noteq> StatusOK" "StatusError \<noteq> StatusNotFound"
  by (simp_all add: OpGet_def OpSet_def OpDelete_def StatusOK_def StatusNotFound_def StatusError_def)

text \<open>A connection the server handles, and the database behind it.\<close>

record 'd sconn = conn +
  db :: 'd

definition on_db :: "('d, 'a) prog \<Rightarrow> ('d sconn, 'a) prog" where
  "on_db m s = (case m (db s) of (r, d) \<Rightarrow> (r, s\<lparr>db := d\<rparr>))"

text \<open>\<open>_, err := rw.Write(buf); return err\<close>.\<close>

definition send :: "bytes \<Rightarrow> ('a conn_scheme, unit) prog" where
  "send buf c = (case conn_Write buf c of ((n, e), c') \<Rightarrow>
     (case e of None \<Rightarrow> (Inr (), c') | Some e \<Rightarrow> (Inl e, c')))"

definition writeStatus :: "byte \<Rightarrow> ('a conn_scheme, unit) prog" where
  "writeStatus status = send [status]"

definition server_writeValue :: "bytes \<Rightarrow> ('a conn_scheme, unit) prog" where
  "server_writeValue val = send ([StatusOK] @ put_uint32 (of_nat (length val)) @ val)"

definition writeError :: "gostr \<Rightarrow> ('a conn_scheme, unit) prog" where
  "writeError msg = send ([StatusError] @ put_uint32 (of_nat (length msg)) @ msg)"

text \<open>\<open>err.Error()\<close>; arguments are appended to the format.\<close>

fun err_text :: "err \<Rightarrow> gostr" where
  "err_text (Msg f args) = lit f @ concat args"
| "err_text (Wrap c e) = lit c @ lit '': '' @ err_text e"
| "err_text (Panic r) = lit r"
| "err_text (Exit n) = []"
| "err_text EOF = lit ''EOF''"
| "err_text UnexpectedEOF = lit ''unexpected EOF''"

text \<open>The result of a call with its error handled by the caller.\<close>

definition tryE :: "('s, 'a) prog \<Rightarrow> ('s, err + 'a) prog" where
  "tryE m s = (case m s of (r, s') \<Rightarrow> (Inr r, s'))"

definition handleGet :: "'d badger \<Rightarrow> bytes \<Rightarrow> ('d sconn, unit) prog" where
  "handleGet B key =
     bindE (tryE (on_db (Store_Get B key))) (\<lambda>r.
     case r of
       Inl e \<Rightarrow> if e = ErrKeyNotFound then writeStatus StatusNotFound else writeError (err_text e)
     | Inr val \<Rightarrow> server_writeValue val)"

definition handleSet :: "'d badger \<Rightarrow> bytes \<Rightarrow> ('d sconn, unit) prog" where
  "handleSet B key =
     bindE (ReadFull 4) (\<lambda>valLen.
     let vl = get_uint32 valLen in
     bindE (ReadFull (unat vl)) (\<lambda>val.
     bindE (tryE (on_db (Store_Set B key val))) (\<lambda>r.
     case r of Inl e \<Rightarrow> writeError (err_text e) | Inr _ \<Rightarrow> writeStatus StatusOK)))"

definition handleDelete :: "'d badger \<Rightarrow> bytes \<Rightarrow> ('d sconn, unit) prog" where
  "handleDelete B key =
     bindE (tryE (on_db (Store_Delete B key))) (\<lambda>r.
     case r of Inl e \<Rightarrow> writeError (err_text e) | Inr _ \<Rightarrow> writeStatus StatusOK)"

text \<open>Decimal digits of a byte, for \<open>fmt.Sprintf("unknown op: %d", op)\<close>.\<close>

definition byte_text :: "byte \<Rightarrow> gostr" where
  "byte_text b = (let n = unat b; digit = (\<lambda>d. of_nat (48 + d) :: byte) in
     (if n < 10 then [digit n]
      else if n < 100 then [digit (n div 10), digit (n mod 10)]
      else [digit (n div 100), digit (n div 10 mod 10), digit (n mod 10)]))"

definition Handle :: "'d badger \<Rightarrow> ('d sconn, unit) prog" where
  "Handle B =
     bindE (ReadFull 1) (\<lambda>op.
     bindE (ReadFull 4) (\<lambda>keyLen.
     let kl = get_uint32 keyLen in
     bindE (ReadFull (unat kl)) (\<lambda>key.
     let op = op ! 0 in
     if op = OpGet then handleGet B key
     else if op = OpSet then handleSet B key
     else if op = OpDelete then handleDelete B key
     else writeError (lit ''unknown op: '' @ byte_text op))))"

section \<open>The connection loop\<close>

lemma only_reads_send: "only_reads (send b)"
  by (simp add: only_reads_def send_def conn_Write_def)

lemma only_reads_on_db: "only_reads (tryE (on_db m))"
  by (simp add: only_reads_def tryE_def on_db_def split: prod.split)

lemma only_reads_sum:
  "(\<And>e. only_reads (f e)) \<Longrightarrow> (\<And>x. only_reads (g x)) \<Longrightarrow> only_reads (case r of Inl e \<Rightarrow> f e | Inr x \<Rightarrow> g x)"
  by (cases r) simp_all

lemma only_reads_if: "only_reads m \<Longrightarrow> only_reads n \<Longrightarrow> only_reads (if b then m else n)"
  by simp

lemmas only_reads_intros =
  only_reads_bind only_reads_ReadFull only_reads_send only_reads_on_db only_reads_sum only_reads_if

lemma only_reads_handlers:
  "only_reads (handleGet B key)" "only_reads (handleSet B key)" "only_reads (handleDelete B key)"
  unfolding handleGet_def handleSet_def handleDelete_def writeStatus_def server_writeValue_def
    writeError_def Let_def
  by (intro only_reads_intros)+

text \<open>Every call of \<open>Handle\<close> that goes well has consumed at least the five header bytes.\<close>

lemma Handle_consumes:
  assumes "Handle B s = (Inr u, s')"
  shows "length (incoming s') + 5 \<le> length (incoming s)"
proof -
  from assms obtain op s1 kl s2 key s3 where
    1: "ReadFull 1 s = (Inr op, s1)" and 2: "ReadFull 4 s1 = (Inr kl, s2)"
    and 3: "ReadFull (unat (get_uint32 kl)) s2 = (Inr key, s3)"
    and rest: "(if op ! 0 = OpGet then handleGet B key
     else if op ! 0 = OpSet then handleSet B key
     else if op ! 0 = OpDelete then handleDelete B key
     else writeError (lit ''unknown op: '' @ byte_text (op ! 0))) s3 = (Inr u, s')"
    by (auto simp: Handle_def Let_def bindE_Inr_iff)
  have "only_reads (if op ! 0 = OpGet then handleGet B key
     else if op ! 0 = OpSet then handleSet B key
     else if op ! 0 = OpDelete then handleDelete B key
     else writeError (lit ''unknown op: '' @ byte_text (op ! 0)))"
    unfolding writeError_def by (intro only_reads_intros only_reads_handlers)
  from only_readsD [OF this rest] show ?thesis
    using ReadFull_Inr(1,2) [OF 1] ReadFull_Inr(1,2) [OF 2] ReadFull_Inr(1) [OF 3] by simp
qed

text \<open>
  The loop of \<open>handleConn\<close>: \<open>Handle\<close> until it returns an error. The result is that error and
  the state the connection is closed in.
\<close>

function handleConn :: "'d badger \<Rightarrow> 'd sconn \<Rightarrow> err \<times> 'd sconn" where
  "handleConn B s = (case Handle B s of (Inl e, s') \<Rightarrow> (e, s') | (Inr _, s') \<Rightarrow> handleConn B s')"
  by pat_completeness auto
termination
  by (relation "measure (\<lambda>(B, s). length (incoming s))") (auto dest!: Handle_consumes [OF sym])

declare handleConn.simps [simp del]

section \<open>Requests\<close>

text \<open>The protocol as the documentation describes it: one request, one response.\<close>

datatype request = RGet bytes | RSet bytes bytes | RDelete bytes

fun request_bytes :: "request \<Rightarrow> bytes" where
  "request_bytes (RGet k) = OpGet # lv k"
| "request_bytes (RSet k v) = OpSet # lv k @ lv v"
| "request_bytes (RDelete k) = OpDelete # lv k"

fun request_fits :: "request \<Rightarrow> bool" where
  "request_fits (RGet k) = (length k < 2 ^ 32)"
| "request_fits (RSet k v) = (length k < 2 ^ 32 \<and> length v < 2 ^ 32)"
| "request_fits (RDelete k) = (length k < 2 ^ 32)"

datatype response = Done | Value bytes | Missing | Failed gostr

fun response_bytes :: "response \<Rightarrow> bytes" where
  "response_bytes Done = [StatusOK]"
| "response_bytes (Value v) = StatusOK # lv v"
| "response_bytes Missing = [StatusNotFound]"
| "response_bytes (Failed m) = StatusError # lv m"

fun execute :: "'d badger \<Rightarrow> request \<Rightarrow> 'd \<Rightarrow> response \<times> 'd" where
  "execute B (RGet k) d = (case txn_Get B k d of
      Inr v \<Rightarrow> (Value v, d)
    | Inl e \<Rightarrow> (if e = ErrKeyNotFound then Missing else Failed (err_text e), d))"
| "execute B (RSet k v) d = (case txn_Set B k v d of
      (Inr _, d') \<Rightarrow> (Done, d') | (Inl e, d') \<Rightarrow> (Failed (err_text e), d'))"
| "execute B (RDelete k) d = (case txn_Delete B k d of
      (Inr _, d') \<Rightarrow> (Done, d') | (Inl e, d') \<Rightarrow> (Failed (err_text e), d'))"

lemma ReadFull_lv:
  assumes "incoming c = lv b @ rest" and "length b < 2 ^ 32"
  shows "ReadFull 4 c = (Inr (put_uint32 (of_nat (length b))), c\<lparr>incoming := b @ rest\<rparr>)"
    and "ReadFull (unat (get_uint32 (put_uint32 (of_nat (length b))))) (c\<lparr>incoming := b @ rest\<rparr>) =
      (Inr b, c\<lparr>incoming := rest\<rparr>)"
proof -
  show "ReadFull 4 c = (Inr (put_uint32 (of_nat (length b))), c\<lparr>incoming := b @ rest\<rparr>)"
    by (rule run_ReadFull) (simp_all add: assms(1) lv_def)
  show "ReadFull (unat (get_uint32 (put_uint32 (of_nat (length b))))) (c\<lparr>incoming := b @ rest\<rparr>) =
      (Inr b, c\<lparr>incoming := rest\<rparr>)"
    using run_ReadFull [of "c\<lparr>incoming := b @ rest\<rparr>" b rest] assms(2) by (simp add: unat_of_nat_32)
qed

definition dispatch :: "'d badger \<Rightarrow> byte \<Rightarrow> bytes \<Rightarrow> ('d sconn, unit) prog" where
  "dispatch B op key =
     (if op = OpGet then handleGet B key else if op = OpSet then handleSet B key
      else if op = OpDelete then handleDelete B key
      else writeError (lit ''unknown op: '' @ byte_text op))"

lemma Handle_header:
  assumes "incoming s = op # lv key @ rest" and "length key < 2 ^ 32"
  shows "Handle B s = dispatch B op key (s\<lparr>incoming := rest\<rparr>)"
proof -
  let ?s = "s\<lparr>incoming := lv key @ rest\<rparr>"
  have "ReadFull 1 s = (Inr [op], ?s)"
    using assms(1) by (intro run_ReadFull) simp_all
  with ReadFull_lv [of ?s key rest] assms(2) show ?thesis
    by (simp add: Handle_def Let_def run_bind dispatch_def)
qed

lemma handleSet_value:
  assumes "incoming s = lv v @ rest" and "length v < 2 ^ 32"
  shows "handleSet B key s = (case txn_Set B key v (db s) of
    (Inr _, d) \<Rightarrow> send [StatusOK] (s\<lparr>incoming := rest, db := d\<rparr>)
  | (Inl e, d) \<Rightarrow> send (StatusError # lv (err_text e)) (s\<lparr>incoming := rest, db := d\<rparr>))"
  using ReadFull_lv [OF assms]
  by (simp add: handleSet_def Let_def run_bind tryE_def on_db_def Store_Set_def writeStatus_def
      writeError_def lv_def split: prod.split sum.split)

text \<open>A complete request: the database is used once and the response is sent.\<close>

lemma Handle_request:
  assumes "incoming s = request_bytes q @ rest" and "request_fits q"
  shows "Handle B s = (case execute B q (db s) of (r, d) \<Rightarrow>
    send (response_bytes r) (s\<lparr>incoming := rest, db := d\<rparr>))"
proof (cases q)
  case (RGet k)
  with assms show ?thesis
    by (simp add: Handle_header [where op = OpGet and key = k and rest = rest] dispatch_def handleGet_def
        run_bind tryE_def on_db_def Store_Get_def writeStatus_def writeError_def server_writeValue_def lv_def
        split: sum.split)
next
  case (RSet k v)
  with assms show ?thesis
    by (simp add: Handle_header [where op = OpSet and key = k and rest = "lv v @ rest"] dispatch_def
        handleSet_value [where v = v and rest = rest] split: sum.split prod.split)
next
  case (RDelete k)
  with assms show ?thesis
    by (simp add: Handle_header [where op = OpDelete and key = k and rest = rest] dispatch_def handleDelete_def
        run_bind tryE_def on_db_def Store_Delete_def writeStatus_def writeError_def lv_def
        split: sum.split prod.split)
qed

text \<open>A connection that ends in the middle of a request.\<close>

lemma Handle_empty: "incoming s = [] \<Longrightarrow> Handle B s = (Inl EOF, s)"
  by (simp add: Handle_def run_bind ReadFull_def)

text \<open>A field cut short fails in one of its two reads, and nothing is left to read.\<close>

lemma ReadFull_lv_cut:
  assumes "lv b = incoming c @ z" and "z \<noteq> []" and "length b < 2 ^ 32"
  shows "\<exists>e. bindE (ReadFull 4) (\<lambda>n. bindE (ReadFull (unat (get_uint32 n))) f) c = (Inl e, c\<lparr>incoming := []\<rparr>)"
proof (cases "length (incoming c) < 4")
  case True
  then obtain e where "ReadFull 4 c = (Inl e, c\<lparr>incoming := []\<rparr>)" by (rule ReadFull_short)
  then show ?thesis by (simp add: run_bind)
next
  case False
  then obtain h t where c: "incoming c = h @ t" and h: "length h = 4"
    by (metis append_take_drop_id length_take min.absorb2 not_less)
  with assms(1) have h': "h = put_uint32 (of_nat (length b))" and b: "b = t @ z"
    by (auto simp: lv_def append_eq_append_conv)
  have "ReadFull 4 c = (Inr h, c\<lparr>incoming := t\<rparr>)"
    using c h by (rule run_ReadFull)
  moreover have "length t < unat (get_uint32 h)"
  proof -
    have "unat (get_uint32 h) = length b"
      using assms(3) h' by (simp add: unat_of_nat_32)
    with b assms(2) show ?thesis by simp
  qed
  then obtain e where "ReadFull (unat (get_uint32 h)) (c\<lparr>incoming := t\<rparr>) =
      (Inl e, c\<lparr>incoming := t\<rparr>\<lparr>incoming := []\<rparr>)"
    using ReadFull_short [of "c\<lparr>incoming := t\<rparr>" "unat (get_uint32 h)"] by auto
  ultimately show ?thesis
    by (simp add: run_bind)
qed

text \<open>An incomplete request does not reach the database.\<close>

lemma Handle_cut:
  assumes "request_bytes q = incoming s @ z" and "z \<noteq> []" and "request_fits q"
  shows "\<exists>e. Handle B s = (Inl e, s\<lparr>incoming := []\<rparr>)"
proof (cases "incoming s")
  case Nil
  then have "s\<lparr>incoming := []\<rparr> = s" by simp
  then show ?thesis
    using Handle_empty [OF Nil, of B] by auto
next
  case (Cons op p)
  obtain k w where q: "request_bytes q = op # lv k @ w" and len: "length k < 2 ^ 32"
    and w: "w = [] \<or> (\<exists>v. w = lv v \<and> op = OpSet \<and> length v < 2 ^ 32)"
  proof (cases q)
    case (RGet k)
    with assms(1,3) Cons show thesis by (intro that [of k "[]"]) simp_all
  next
    case (RSet k v)
    with assms(1,3) Cons show thesis by (intro that [of k "lv v"]) auto
  next
    case (RDelete k)
    with assms(1,3) Cons show thesis by (intro that [of k "[]"]) simp_all
  qed
  have eq: "lv k @ w = p @ z"
    using assms(1) q Cons by simp
  let ?s = "s\<lparr>incoming := p\<rparr>"
  have r1: "ReadFull 1 s = (Inr [op], ?s)"
    using Cons by (intro run_ReadFull) simp_all
  show ?thesis
  proof (cases "length p < length (lv k)")
    case True
    with eq obtain z' where "lv k = p @ z'" "z' \<noteq> []"
      by (metis append_eq_append_conv_if append_take_drop_id drop_eq_Nil leD)
    then have "lv k = incoming ?s @ z'" by simp
    from ReadFull_lv_cut [OF this \<open>z' \<noteq> []\<close> len] r1 show ?thesis
      by (simp add: Handle_def run_bind [of "ReadFull (Suc 0)"] Let_def)
  next
    case False
    with eq obtain p' where p: "p = lv k @ p'" and w': "w = p' @ z"
      by (metis append_eq_append_conv_if append_take_drop_id not_less)
    with w assms(2) obtain v where v: "lv v = p' @ z" and op: "op = OpSet" and lenv: "length v < 2 ^ 32"
      by auto
    have "Handle B s = dispatch B op k (s\<lparr>incoming := p'\<rparr>)"
      using Cons p len by (intro Handle_header) simp_all
    moreover have "\<exists>e. handleSet B k (s\<lparr>incoming := p'\<rparr>) = (Inl e, s\<lparr>incoming := p'\<rparr>\<lparr>incoming := []\<rparr>)"
      unfolding handleSet_def Let_def using v assms(2) lenv by (intro ReadFull_lv_cut) simp_all
    ultimately show ?thesis
      using op by (simp add: dispatch_def)
  qed
qed

section \<open>Conversations\<close>

fun serve :: "'d badger \<Rightarrow> request list \<Rightarrow> 'd \<Rightarrow> response list \<times> 'd" where
  "serve B [] d = ([], d)"
| "serve B (q # qs) d = (case execute B q d of (r, d') \<Rightarrow> case serve B qs d' of (rs, d'') \<Rightarrow> (r # rs, d''))"

lemma run_send:
  "length b \<le> room c \<Longrightarrow> send b c = (Inr (), c\<lparr>room := room c - length b, outgoing := outgoing c @ b\<rparr>)"
  "room c < length b \<Longrightarrow> send b c = (Inl write_broken, c\<lparr>room := 0, outgoing := outgoing c @ take (room c) b\<rparr>)"
  by (simp_all add: send_def conn_Write_def)

text \<open>
  The connection loop answers the requests of a connection in order and stops at its end, or in
  the middle of a request without having executed it.
\<close>

lemma handleConn_serves:
  assumes "incoming s = concat (map request_bytes qs) @ p" and "\<forall>q \<in> set qs. request_fits q"
    and "p = [] \<or> (\<exists>q z. request_fits q \<and> request_bytes q = p @ z \<and> z \<noteq> [])"
    and "serve B qs (db s) = (rs, d)"
    and "length (concat (map response_bytes rs)) \<le> room s"
  shows "\<exists>e. handleConn B s = (e, s\<lparr>incoming := [], db := d, outgoing := outgoing s @ concat (map response_bytes rs),
      room := room s - length (concat (map response_bytes rs))\<rparr>)"
  using assms(1,2,4,5)
proof (induction qs arbitrary: s rs)
  case Nil
  then have s: "incoming s = p" and d: "rs = []" "d = db s" by simp_all
  have "\<exists>e. Handle B s = (Inl e, s\<lparr>incoming := []\<rparr>)"
    using assms(3)
  proof
    assume "p = []"
    with s have "incoming s = []" by simp
    from Handle_empty [OF this] this show ?thesis
      by (metis conn.surjective conn.update_convs(1))
  next
    assume "\<exists>q z. request_fits q \<and> request_bytes q = p @ z \<and> z \<noteq> []"
    with s show ?thesis using Handle_cut by metis
  qed
  with d show ?case
    by (auto simp: handleConn.simps [of B s])
next
  case (Cons q qs)
  obtain r d' where r: "execute B q (db s) = (r, d')" by fastforce
  with Cons.prems(3) obtain rs' where rs: "rs = r # rs'" "serve B qs d' = (rs', d)"
    by (auto split: prod.splits)
  let ?s1 = "s\<lparr>incoming := concat (map request_bytes qs) @ p, db := d'\<rparr>"
  let ?s2 = "?s1\<lparr>room := room s - length (response_bytes r), outgoing := outgoing s @ response_bytes r\<rparr>"
  have "Handle B s = send (response_bytes r) ?s1"
    using Cons.prems(1,2) r
    by (subst Handle_request [of s q "concat (map request_bytes qs) @ p"]) simp_all
  also have "\<dots> = (Inr (), ?s2)"
    using Cons.prems(4) rs by (subst run_send(1)) simp_all
  finally have "handleConn B s = handleConn B ?s2"
    by (simp add: handleConn.simps [of B s])
  moreover have "\<exists>e. handleConn B ?s2 = (e, ?s2\<lparr>incoming := [], db := d,
      outgoing := outgoing ?s2 @ concat (map response_bytes rs'),
      room := room ?s2 - length (concat (map response_bytes rs'))\<rparr>)"
    using Cons.prems rs by (intro Cons.IH) simp_all
  ultimately show ?case
    using rs by (simp add: diff_diff_left)
qed

text \<open>One request over a connection that may break while the response is sent.\<close>

lemma handleConn_one:
  assumes "incoming s = request_bytes q" and "request_fits q" and "execute B q (db s) = (r, d)"
  shows "\<exists>e s'. handleConn B s = (e, s') \<and> db s' = d \<and>
    outgoing s' = outgoing s @ take (room s) (response_bytes r)"
proof (cases "length (response_bytes r) \<le> room s")
  case True
  with handleConn_serves [of s "[q]" "[]" B "[r]" d] assms show ?thesis
    by fastforce
next
  case False
  have "Handle B s = send (response_bytes r) (s\<lparr>incoming := [], db := d\<rparr>)"
    using assms by (subst Handle_request [of s q "[]"]) simp_all
  with False show ?thesis
    by (simp add: run_send(2) handleConn.simps [of B s])
qed

text \<open>A request cut off by the network has no effect and gets no answer.\<close>

lemma handleConn_cut:
  assumes "request_bytes q = incoming s @ z" and "z \<noteq> []" and "request_fits q"
  shows "\<exists>e. handleConn B s = (e, s\<lparr>incoming := []\<rparr>)"
  using Handle_cut [OF assms, of B] by (auto simp: handleConn.simps [of B s])

section \<open>A database for examples\<close>

text \<open>A map as the database; like badger it refuses the empty key.\<close>

definition empty_key :: err where
  "empty_key = Msg ''Key cannot be empty'' []"

definition map_badger :: "(bytes \<rightharpoonup> bytes) badger" where
  "map_badger = \<lparr>
     txn_Get = (\<lambda>k d. if k = [] then Inl empty_key else case d k of None \<Rightarrow> Inl ErrKeyNotFound | Some v \<Rightarrow> Inr v),
     txn_Has = (\<lambda>k d. if k = [] then Inl empty_key else case d k of None \<Rightarrow> Inl ErrKeyNotFound | Some v \<Rightarrow> Inr ()),
     txn_Set = (\<lambda>k v d. if k = [] then (Inl empty_key, d) else (Inr (), d(k \<mapsto> v))),
     txn_SetEntry = (\<lambda>k v ttl d. if k = [] then (Inl empty_key, d) else (Inr (), d(k \<mapsto> v))),
     txn_Delete = (\<lambda>k d. if k = [] then (Inl empty_key, d) else (Inr (), d(k := None)))\<rparr>"

lemma map_badger_ok: "badger_ok map_badger (\<lambda>d. d)"
  by (auto simp: badger_ok_def map_badger_def empty_key_def ErrKeyNotFound_def split: if_splits option.splits)

end
