(* ===== verification/Base64.thy ===== *)
theory Base64
  imports Prelude
begin

text \<open>
  \<open>encoding/base64\<close>'s \<open>StdEncoding\<close>: the text a \<open>[]byte\<close> field has in JSON, and the form in
  which the client keeps the user name and the password in its session file. Encoding works
  on groups of three bytes, seen as one 24-bit number; decoding skips CR and LF, wants the
  padding, and ignores the unused bits of the last digit, as the non-strict Go decoder does.
\<close>

definition b64_alphabet :: "gostr" where
  "b64_alphabet = lit ''ABCDEFGHIJKLMNOPQRSTUVWXYZabcdefghijklmnopqrstuvwxyz0123456789+/''"

definition b64_pad :: byte where
  "b64_pad = 61"

text \<open>The digit of value \<open>v < 64\<close>, written as the ranges of the alphabet.\<close>

definition b64_digit :: "nat \<Rightarrow> byte" where
  "b64_digit v =
     (if v < 26 then of_nat (65 + v)
      else if v < 52 then of_nat (71 + v)
      else if v < 62 then of_nat (v - 4)
      else if v = 62 then 43 else 47)"

definition b64_value :: "byte \<Rightarrow> nat option" where
  "b64_value c = (let n = unat c in
     if 65 \<le> n \<and> n \<le> 90 then Some (n - 65)
     else if 97 \<le> n \<and> n \<le> 122 then Some (n - 71)
     else if 48 \<le> n \<and> n \<le> 57 then Some (n + 4)
     else if n = 43 then Some 62
     else if n = 47 then Some 63
     else None)"

text \<open>The four digits of a 24-bit number, and the number of four digits.\<close>

definition b64_group :: "nat \<Rightarrow> gostr" where
  "b64_group v =
     [b64_digit (v div 262144), b64_digit (v div 4096 mod 64), b64_digit (v div 64 mod 64),
      b64_digit (v mod 64)]"

definition b64_join :: "nat \<Rightarrow> nat \<Rightarrow> nat \<Rightarrow> nat \<Rightarrow> nat" where
  "b64_join p q r t = ((p * 64 + q) * 64 + r) * 64 + t"

definition b64_bytes :: "nat \<Rightarrow> bytes" where
  "b64_bytes v = [of_nat (v div 65536), of_nat (v div 256 mod 256), of_nat (v mod 256)]"

definition b64_number :: "byte \<Rightarrow> byte \<Rightarrow> byte \<Rightarrow> nat" where
  "b64_number a b c = unat a * 65536 + unat b * 256 + unat c"

fun b64_encode :: "bytes \<Rightarrow> gostr" where
  "b64_encode [] = []"
| "b64_encode [a] = take 2 (b64_group (b64_number a 0 0)) @ [b64_pad, b64_pad]"
| "b64_encode [a, b] = take 3 (b64_group (b64_number a b 0)) @ [b64_pad]"
| "b64_encode (a # b # c # bs) = b64_group (b64_number a b c) @ b64_encode bs"

text \<open>One quantum: four characters, of which the last one or two may be padding.\<close>

definition b64_quantum :: "byte \<Rightarrow> byte \<Rightarrow> byte \<Rightarrow> byte \<Rightarrow> bytes option" where
  "b64_quantum a b c d =
     (case (b64_value a, b64_value b) of
        (Some p, Some q) \<Rightarrow>
          (if c = b64_pad \<and> d = b64_pad then Some (take 1 (b64_bytes (b64_join p q 0 0)))
           else (case b64_value c of
              None \<Rightarrow> None
            | Some r \<Rightarrow>
                (if d = b64_pad then Some (take 2 (b64_bytes (b64_join p q r 0)))
                 else map_option (\<lambda>t. b64_bytes (b64_join p q r t)) (b64_value d))))
      | _ \<Rightarrow> None)"

fun b64_quanta :: "gostr \<Rightarrow> bytes option" where
  "b64_quanta [] = Some []"
| "b64_quanta (a # b # c # d # cs) =
     (case b64_quantum a b c d of
        None \<Rightarrow> None
      | Some xs \<Rightarrow>
          (if d = b64_pad then (if cs = [] then Some xs else None)
           else map_option (\<lambda>ys. xs @ ys) (b64_quanta cs)))"
| "b64_quanta _ = None"

definition b64_decode :: "gostr \<Rightarrow> bytes option" where
  "b64_decode s = b64_quanta (filter (\<lambda>c. c \<noteq> 10 \<and> c \<noteq> 13) s)"

section \<open>Digits\<close>

lemma b64_digits_alphabet: "map b64_digit [0..<64] = b64_alphabet"
  by (simp add: b64_alphabet_def lit_def b64_digit_def upt_rec)

lemma unat_b64_digit:
  assumes "v < 64"
  shows "unat (b64_digit v) =
     (if v < 26 then 65 + v else if v < 52 then 71 + v else if v < 62 then v - 4
      else if v = 62 then 43 else 47)"
  using assms unat_byte_of_nat [of "65 + v"] unat_byte_of_nat [of "71 + v"]
    unat_byte_of_nat [of "v - 4"]
  by (simp only: b64_digit_def split: if_splits) auto

lemma b64_value_digit [simp]: "v < 64 \<Longrightarrow> b64_value (b64_digit v) = Some v"
  by (auto simp: b64_value_def Let_def unat_b64_digit)

lemma b64_digit_plain:
  assumes "v < 64"
  shows "b64_digit v \<noteq> b64_pad" and "b64_digit v \<noteq> 10" and "b64_digit v \<noteq> 13"
    and "b64_digit v < 128"
  using unat_b64_digit [OF assms] assms
  by (auto simp: b64_pad_def byte_eq_iff_unat byte_less_iff_unat split: if_splits)

section \<open>Round trip\<close>

lemma b64_number_less: "b64_number a b c < 64 * 262144"
  using unat_byte_le [of a] unat_byte_le [of b] unat_byte_le [of c]
  unfolding b64_number_def by linarith

lemma b64_bytes_number [simp]: "b64_bytes (b64_number a b c) = [a, b, c]"
proof -
  have n: "b64_number a b c = (unat a * 256 + unat b) * 256 + unat c"
    by (simp add: b64_number_def)
  have "b64_number a b c div 256 = unat a * 256 + unat b"
    unfolding n by (subst div_mult_self3) simp_all
  then have "b64_number a b c div 256 div 256 = unat a" and "b64_number a b c div 256 mod 256 = unat b"
    by simp_all
  moreover from this(1) have "b64_number a b c div 65536 = unat a"
    by (simp add: div_mult2_eq [symmetric])
  moreover have "b64_number a b c mod 256 = unat c"
    unfolding n by (subst mod_mult_self3) simp
  ultimately show ?thesis
    by (simp add: b64_bytes_def)
qed

lemma b64_join_digits [simp]:
  "b64_join (v div 262144) (v div 4096 mod 64) (v div 64 mod 64) (v mod 64) = v"
  using div_split [of v 64 64] div_split [of v 4096 64] by (simp add: b64_join_def)

lemma b64_number_low: "b64_number a b 0 mod 64 = 0" "b64_number a 0 0 div 64 mod 64 = 0"
proof -
  have "b64_number a b 0 = (unat a * 1024 + unat b * 4) * 64"
    by (simp add: b64_number_def)
  then show "b64_number a b 0 mod 64 = 0"
    by (metis mod_mult_self2_is_0)
  have "b64_number a 0 0 = (unat a * 16 * 64) * 64"
    by (simp add: b64_number_def)
  then show "b64_number a 0 0 div 64 mod 64 = 0"
    by simp
qed

lemma b64_join_number:
  "b64_join (b64_number a 0 0 div 262144) (b64_number a 0 0 div 4096 mod 64) 0 0 = b64_number a 0 0"
  "b64_join (b64_number a b 0 div 262144) (b64_number a b 0 div 4096 mod 64)
     (b64_number a b 0 div 64 mod 64) 0 = b64_number a b 0"
  using b64_join_digits [of "b64_number a 0 0"] b64_join_digits [of "b64_number a b 0"]
  by (simp_all add: b64_number_low)

lemma b64_high_less [simp]: "b64_number a b c div 262144 < 64"
  using b64_number_less by (rule less_mult_imp_div_less)

lemma b64_quanta_encode: "b64_quanta (b64_encode bs) = Some bs"
proof (induction bs rule: b64_encode.induct)
  case (2 a)
  show ?case
    by (simp add: b64_group_def b64_quantum_def b64_join_number)
next
  case (3 a b)
  show ?case
    using b64_digit_plain(1) [of "b64_number a b 0 div 64 mod 64"]
    by (simp add: b64_group_def b64_quantum_def b64_join_number numeral_3_eq_3)
next
  case (4 a b c bs)
  show ?case
    using b64_digit_plain(1) [of "b64_number a b c mod 64"] "4.IH"
    by (simp add: b64_group_def b64_quantum_def)
qed simp

text \<open>The characters of an encoding: digits and padding, all of them ASCII and no newline.\<close>

lemma b64_group_chars: "c \<in> set (b64_group (b64_number x y z)) \<Longrightarrow> \<exists>v < 64. c = b64_digit v"
  by (auto simp: b64_group_def intro: b64_high_less exI [of _ "_ mod 64"])

lemma b64_encode_chars:
  "c \<in> set (b64_encode bs) \<Longrightarrow> c = b64_pad \<or> (\<exists>v < 64. c = b64_digit v)"
  by (induction bs rule: b64_encode.induct)
    (auto dest: b64_group_chars in_set_takeD)

lemma b64_encode_ascii:
  assumes "c \<in> set (b64_encode bs)"
  shows "c < 128" and "c \<noteq> 10" and "c \<noteq> 13"
  using b64_encode_chars [OF assms] b64_digit_plain by (auto simp: b64_pad_def)

lemma b64_decode_encode [simp]: "b64_decode (b64_encode bs) = Some bs"
proof -
  have "filter (\<lambda>c. c \<noteq> 10 \<and> c \<noteq> 13) (b64_encode bs) = b64_encode bs"
    using b64_encode_ascii by (simp add: filter_id_conv)
  then show ?thesis
    by (simp add: b64_decode_def b64_quanta_encode)
qed

lemma length_b64_encode: "length (b64_encode bs) = 4 * ((length bs + 2) div 3)"
proof (induction bs rule: b64_encode.induct)
  case (4 a b c bs)
  have "(5 + length bs) div 3 = Suc (Suc (Suc (length bs)) div 3)"
    by simp
  with 4 show ?case by (simp add: b64_group_def)
qed (simp_all add: b64_group_def)

end
