(* ===== verification/Json.thy ===== *)
theory Json
  imports Base64
begin

text \<open>
  The part of \<open>encoding/json\<close> the program uses, as text: UTF-8 validity, string quoting with
  Go's HTML-safe escapes, number literals, and a parser for the whole JSON grammar. The structs
  of the program become values of type \<open>json\<close> in the theories that declare them; here is how
  such a value becomes bytes and comes back. The main fact is \<open>json_parse_text\<close>: a value whose
  strings are valid UTF-8 and whose numbers are JSON literals is read back unchanged. A string
  that is not valid UTF-8 is written with replacement characters and is not.
\<close>

datatype json =
    JNull
  | JBool bool
  | JNum gostr
  | JStr gostr
  | JArr "json list"
  | JObj "(gostr \<times> json) list"

definition expect :: "byte \<Rightarrow> bytes \<Rightarrow> bytes option" where
  "expect b s = (case s of [] \<Rightarrow> None | c # cs \<Rightarrow> if c = b then Some cs else None)"

lemma expect_Cons [simp]: "expect b (c # cs) = (if c = b then Some cs else None)"
  by (simp add: expect_def)

lemma expect_Nil [simp]: "expect b [] = None"
  by (simp add: expect_def)

lemma expect_Some_iff: "expect b s = Some r \<longleftrightarrow> s = b # r"
  by (auto simp: expect_def split: list.splits if_splits)

lemma expect_shorter: "expect b s = Some r \<Longrightarrow> length r < length s"
  by (auto simp: expect_def split: list.splits if_splits)

section \<open>UTF-8\<close>

definition is_cont :: "byte \<Rightarrow> bool" where
  "is_cont b \<longleftrightarrow> 128 \<le> b \<and> b \<le> 191"

definition second_lo :: "byte \<Rightarrow> byte" where
  "second_lo b = (if b = 224 then 160 else if b = 240 then 144 else 128)"

definition second_hi :: "byte \<Rightarrow> byte" where
  "second_hi b = (if b = 237 then 159 else if b = 244 then 143 else 191)"

text \<open>The length of the encoded rune at the front, 0 when there is none (\<open>utf8.DecodeRune\<close>).\<close>

fun rune_len :: "bytes \<Rightarrow> nat" where
  "rune_len [] = 0"
| "rune_len (b0 # bs) =
     (if b0 < 128 then 1
      else if 194 \<le> b0 \<and> b0 \<le> 223 then
        (case bs of b1 # _ \<Rightarrow> if is_cont b1 then 2 else 0 | _ \<Rightarrow> 0)
      else if 224 \<le> b0 \<and> b0 \<le> 239 then
        (case bs of b1 # b2 # _ \<Rightarrow>
           if second_lo b0 \<le> b1 \<and> b1 \<le> second_hi b0 \<and> is_cont b2 then 3 else 0
         | _ \<Rightarrow> 0)
      else if 240 \<le> b0 \<and> b0 \<le> 244 then
        (case bs of b1 # b2 # b3 # _ \<Rightarrow>
           if second_lo b0 \<le> b1 \<and> b1 \<le> second_hi b0 \<and> is_cont b2 \<and> is_cont b3 then 4 else 0
         | _ \<Rightarrow> 0)
      else 0)"

lemma rune_len_le: "rune_len s \<le> length s"
  by (cases s) (auto split: list.split)

lemma rune_len_append: "rune_len s \<noteq> 0 \<Longrightarrow> rune_len (s @ t) = rune_len s"
proof (cases s rule: rune_len.cases)
  case (2 b0 bs)
  assume "rune_len s \<noteq> 0"
  with 2 show ?thesis
    by (cases bs; cases "tl bs"; cases "tl (tl bs)") (simp_all split: if_split_asm)
qed simp

lemma rune_len_take: "rune_len (take (rune_len s) s) = rune_len s"
proof (cases s rule: rune_len.cases)
  case (2 b0 bs)
  then show ?thesis
    by (cases bs; cases "tl bs"; cases "tl (tl bs)") (simp_all, (auto split: if_split_asm)?)
qed simp

function utf8_valid :: "bytes \<Rightarrow> bool" where
  "utf8_valid s =
     (if s = [] then True
      else if rune_len s = 0 then False else utf8_valid (drop (rune_len s) s))"
  by pat_completeness auto
termination
  by (relation "measure length") (simp_all add: diff_less)

declare utf8_valid.simps [simp del]

lemma utf8_valid_Nil [simp]: "utf8_valid []"
  by (simp add: utf8_valid.simps)

lemma utf8_valid_Cons:
  "utf8_valid (b # bs) \<longleftrightarrow>
     rune_len (b # bs) \<noteq> 0 \<and> utf8_valid (drop (rune_len (b # bs)) (b # bs))"
  by (subst utf8_valid.simps) (simp del: rune_len.simps)

lemma utf8_valid_ascii: "(\<And>c. c \<in> set s \<Longrightarrow> c < 128) \<Longrightarrow> utf8_valid s"
proof (induction s)
  case (Cons c s)
  then show ?case by (subst utf8_valid.simps) simp
qed simp

section \<open>Quoting\<close>

definition hex_digit :: "nat \<Rightarrow> byte" where
  "hex_digit v = (if v < 10 then of_nat (48 + v) else of_nat (87 + v))"

definition hex_value :: "byte \<Rightarrow> nat option" where
  "hex_value c = (let n = unat c in
     if 48 \<le> n \<and> n \<le> 57 then Some (n - 48)
     else if 97 \<le> n \<and> n \<le> 102 then Some (n - 87)
     else if 65 \<le> n \<and> n \<le> 70 then Some (n - 55)
     else None)"

definition quote_byte :: "byte \<Rightarrow> bytes" where
  "quote_byte b =
     (if b = 34 \<or> b = 92 then [92, b]
      else if b = 10 then [92, 110]
      else if b = 13 then [92, 114]
      else if b = 9 then [92, 116]
      else if b < 32 \<or> b = 60 \<or> b = 62 \<or> b = 38 then
        [92, 117, 48, 48, hex_digit (unat b div 16), hex_digit (unat b mod 16)]
      else [b])"

text \<open>U+2028 and U+2029 are escaped, every other multi-byte rune is copied.\<close>

definition quote_rune :: "bytes \<Rightarrow> bytes" where
  "quote_rune r =
     (if r = [226, 128, 168] then [92, 117, 50, 48, 50, 56]
      else if r = [226, 128, 169] then [92, 117, 50, 48, 50, 57]
      else r)"

function quote_body :: "gostr \<Rightarrow> bytes" where
  "quote_body [] = []"
| "quote_body (b # bs) =
     (if b < 128 then quote_byte b @ quote_body bs
      else if rune_len (b # bs) = 0 then [92, 117, 102, 102, 102, 100] @ quote_body bs
      else quote_rune (take (rune_len (b # bs)) (b # bs))
           @ quote_body (drop (rune_len (b # bs)) (b # bs)))"
  by pat_completeness auto
termination
  by (relation "measure length") auto

declare quote_body.simps(2) [simp del]

definition quote :: "gostr \<Rightarrow> bytes" where
  "quote s = 34 # quote_body s @ [34]"

section \<open>Unquoting\<close>

definition hex4 :: "bytes \<Rightarrow> (nat \<times> bytes) option" where
  "hex4 s = (case s of a # b # c # d # rest \<Rightarrow>
       (case (hex_value a, hex_value b, hex_value c, hex_value d) of
          (Some p, Some q, Some r, Some t) \<Rightarrow> Some (((p * 16 + q) * 16 + r) * 16 + t, rest)
        | _ \<Rightarrow> None)
     | _ \<Rightarrow> None)"

definition encode_rune :: "nat \<Rightarrow> bytes" where
  "encode_rune r =
     (if r < 128 then [of_nat r]
      else if r < 2048 then [of_nat (192 + r div 64), of_nat (128 + r mod 64)]
      else if 55296 \<le> r \<and> r \<le> 57343 \<or> 1114111 < r then [239, 191, 189]
      else if r < 65536 then
        [of_nat (224 + r div 4096), of_nat (128 + r div 64 mod 64), of_nat (128 + r mod 64)]
      else [of_nat (240 + r div 262144), of_nat (128 + r div 4096 mod 64),
            of_nat (128 + r div 64 mod 64), of_nat (128 + r mod 64)])"

text \<open>After a backslash and a \<open>u\<close>: one code unit, or a surrogate pair, or a lone surrogate read as U+FFFD.\<close>

definition unescape_u :: "bytes \<Rightarrow> (bytes \<times> bytes) option" where
  "unescape_u s = (case hex4 s of
       None \<Rightarrow> None
     | Some (r, rest) \<Rightarrow>
         (if 55296 \<le> r \<and> r < 56320 then
            (case Option.bind (Option.bind (expect 92 rest) (expect 117)) hex4 of
               Some (r2, rest2) \<Rightarrow>
                 (if 56320 \<le> r2 \<and> r2 < 57344
                  then Some (encode_rune ((r - 55296) * 1024 + (r2 - 56320) + 65536), rest2)
                  else Some ([239, 191, 189], rest))
             | None \<Rightarrow> Some ([239, 191, 189], rest))
          else Some (encode_rune r, rest)))"

definition unescape :: "bytes \<Rightarrow> (bytes \<times> bytes) option" where
  "unescape s = (case s of [] \<Rightarrow> None
     | c # cs \<Rightarrow>
         (if c = 34 \<or> c = 92 \<or> c = 47 then Some ([c], cs)
          else if c = 98 then Some ([8], cs)
          else if c = 102 then Some ([12], cs)
          else if c = 110 then Some ([10], cs)
          else if c = 114 then Some ([13], cs)
          else if c = 116 then Some ([9], cs)
          else if c = 117 then unescape_u cs
          else None))"

lemma hex4_shorter: "hex4 s = Some (r, rest) \<Longrightarrow> length rest < length s"
  by (auto simp: hex4_def split: list.splits option.splits)

lemma unescape_u_shorter: "unescape_u s = Some (x, rest) \<Longrightarrow> length rest < length s"
  unfolding unescape_u_def
  by (auto split: option.splits if_splits prod.splits Option.bind_splits
      dest!: hex4_shorter expect_shorter)

lemma unescape_shorter: "unescape s = Some (x, rest) \<Longrightarrow> length rest < length s"
  by (auto simp: unescape_def split: list.splits if_splits dest: unescape_u_shorter)

definition more_text :: "bytes \<Rightarrow> (gostr \<times> bytes) option \<Rightarrow> (gostr \<times> bytes) option" where
  "more_text x r = map_option (\<lambda>(s, rest). (x @ s, rest)) r"

lemma more_text_Some [simp]: "more_text x (Some (s, rest)) = Some (x @ s, rest)"
  by (simp add: more_text_def)

text \<open>The text after an opening quote, up to the closing one.\<close>

function unquote :: "bytes \<Rightarrow> (gostr \<times> bytes) option" where
  "unquote [] = None"
| "unquote (b # bs) =
     (if b = 34 then Some ([], bs)
      else if b = 92 then
        (case unescape bs of None \<Rightarrow> None | Some (x, rest) \<Rightarrow> more_text x (unquote rest))
      else if b < 32 then None
      else if b < 128 then more_text [b] (unquote bs)
      else if rune_len (b # bs) = 0 then more_text [239, 191, 189] (unquote bs)
      else more_text (take (rune_len (b # bs)) (b # bs)) (unquote (drop (rune_len (b # bs)) (b # bs))))"
  by pat_completeness auto
termination
  by (relation "measure length") (auto dest: unescape_shorter)

declare unquote.simps(2) [simp del]

section \<open>Quoting round trip\<close>

lemma hex_value_digit [simp]: "v < 16 \<Longrightarrow> hex_value (hex_digit v) = Some v"
  using unat_byte_of_nat [of "48 + v"] unat_byte_of_nat [of "87 + v"]
  by (simp only: hex_digit_def hex_value_def split: if_splits) auto

lemma unescape_u_ascii:
  assumes "b < 128"
  shows "unescape_u (48 # 48 # hex_digit (unat b div 16) # hex_digit (unat b mod 16) # rest) =
    Some ([b], rest)"
proof -
  have n: "unat b < 128"
    using assms by (simp add: byte_less_iff_unat)
  have "unat b div 16 < 16"
    using n by (intro less_mult_imp_div_less) simp
  moreover have "hex_value 48 = Some 0"
    by (simp add: hex_value_def)
  ultimately have "hex4 (48 # 48 # hex_digit (unat b div 16) # hex_digit (unat b mod 16) # rest) =
      Some (unat b, rest)"
    by (simp add: hex4_def)
  with n show ?thesis
    by (simp add: unescape_u_def encode_rune_def)
qed

lemma unquote_quote_byte:
  assumes "b < 128"
  shows "unquote (quote_byte b @ rest) = more_text [b] (unquote rest)"
  using unescape_u_ascii [OF assms, of rest] assms
  by (simp add: quote_byte_def unquote.simps(2) unescape_def)

lemma unescape_u_line_separators:
  "unescape_u (50 # 48 # 50 # 56 # rest) = Some ([226, 128, 168], rest)"
  "unescape_u (50 # 48 # 50 # 57 # rest) = Some ([226, 128, 169], rest)"
  by (simp_all add: unescape_u_def hex4_def hex_value_def encode_rune_def)

lemma unquote_quote_rune:
  assumes len: "rune_len (b # bs) \<noteq> 0" and b: "\<not> b < 128"
  shows "unquote (quote_rune (take (rune_len (b # bs)) (b # bs)) @ rest) =
    more_text (take (rune_len (b # bs)) (b # bs)) (unquote rest)"
proof -
  define n where "n = rune_len (b # bs)"
  define r where "r = take n (b # bs)"
  have "b \<noteq> 34" and "b \<noteq> 92" and "\<not> b < 32"
    using b by (auto simp: byte_less_iff_unat byte_eq_iff_unat)
  moreover have r: "r = b # tl r" and "length r = n"
    using len rune_len_le [of "b # bs"] by (simp_all add: r_def n_def take_Cons')
  moreover have "rune_len (r @ rest) = n"
    using len rune_len_take rune_len_append unfolding r_def n_def by metis
  ultimately have "unquote (r @ rest) = more_text r (unquote rest)"
    using len b unquote.simps(2) [of b "tl r @ rest"] n_def
    by (metis append_Cons append_eq_conv_conj)
  then show ?thesis
    unfolding quote_rune_def n_def [symmetric] r_def [symmetric]
    by (simp add: unquote.simps(2) unescape_def unescape_u_line_separators)
qed

lemma unquote_quote_body:
  "utf8_valid s \<Longrightarrow> unquote (quote_body s @ 34 # rest) = Some (s, rest)"
proof (induction s rule: quote_body.induct)
  case 1
  show ?case by (simp add: unquote.simps(2))
next
  case (2 b bs)
  have valid: "rune_len (b # bs) \<noteq> 0" "utf8_valid (drop (rune_len (b # bs)) (b # bs))"
    using "2.prems" utf8_valid_Cons [of b bs] by blast+
  show ?case
  proof (cases "b < 128")
    case True
    then show ?thesis
      using "2.IH"(1) valid(2) by (simp add: quote_body.simps(2) unquote_quote_byte)
  next
    case False
    have "unquote (quote_body (b # bs) @ 34 # rest) =
        more_text (take (rune_len (b # bs)) (b # bs))
          (unquote (quote_body (drop (rune_len (b # bs)) (b # bs)) @ 34 # rest))"
      using False valid(1) unquote_quote_rune [OF valid(1) False]
      by (simp only: quote_body.simps(2) if_False append_assoc)
    also have "\<dots> = Some (b # bs, rest)"
      using "2.IH"(3) [OF False valid(1) valid(2)]
      by (simp only: more_text_Some append_take_drop_id)
    finally show ?thesis .
  qed
qed

section \<open>Numbers\<close>

definition is_digit :: "byte \<Rightarrow> bool" where
  "is_digit b \<longleftrightarrow> 48 \<le> b \<and> b \<le> 57"

definition is_num_char :: "byte \<Rightarrow> bool" where
  "is_num_char b \<longleftrightarrow> is_digit b \<or> b \<in> {43, 45, 46, 69, 101}"

definition digits1 :: "bytes \<Rightarrow> bool" where
  "digits1 s \<longleftrightarrow> s \<noteq> [] \<and> list_all is_digit s"

definition valid_exponent :: "bytes \<Rightarrow> bool" where
  "valid_exponent s = (case s of [] \<Rightarrow> True
     | c # cs \<Rightarrow> (c = 69 \<or> c = 101) \<and>
         digits1 (case cs of d # ds \<Rightarrow> if d = 43 \<or> d = 45 then ds else cs | [] \<Rightarrow> []))"

definition valid_fraction :: "bytes \<Rightarrow> bool" where
  "valid_fraction s = (case expect 46 s of None \<Rightarrow> valid_exponent s
     | Some cs \<Rightarrow> digits1 (takeWhile is_digit cs) \<and> valid_exponent (dropWhile is_digit cs))"

text \<open>The number grammar: sign, integer part without leading zero, fraction, exponent.\<close>

definition valid_number :: "bytes \<Rightarrow> bool" where
  "valid_number s =
     (let u = (case expect 45 s of None \<Rightarrow> s | Some cs \<Rightarrow> cs); d = takeWhile is_digit u
      in digits1 d \<and> (hd d = 48 \<longrightarrow> length d = 1) \<and> valid_fraction (dropWhile is_digit u))"

fun nat_text :: "nat \<Rightarrow> bytes" where
  "nat_text n = (if n < 10 then [of_nat (48 + n)] else nat_text (n div 10) @ [of_nat (48 + n mod 10)])"

declare nat_text.simps [simp del]

definition int_text :: "int \<Rightarrow> bytes" where
  "int_text i = (if i < 0 then 45 # nat_text (nat (- i)) else nat_text (nat i))"

definition digit_value :: "byte \<Rightarrow> nat" where
  "digit_value b = unat b - 48"

definition nat_of_digits :: "bytes \<Rightarrow> nat" where
  "nat_of_digits s = foldl (\<lambda>a c. a * 10 + digit_value c) 0 s"

text \<open>\<open>strconv.ParseInt(s, 10, 64)\<close> on a JSON literal.\<close>

definition parse_int64 :: "bytes \<Rightarrow> int option" where
  "parse_int64 s =
     (let u = (case expect 45 s of None \<Rightarrow> s | Some cs \<Rightarrow> cs);
          i = (if u = s then int (nat_of_digits u) else - int (nat_of_digits u))
      in if digits1 u \<and> - (2 ^ 63) \<le> i \<and> i < 2 ^ 63 then Some i else None)"

lemma digit_char: "n < 10 \<Longrightarrow> is_digit (of_nat (48 + n)) \<and> digit_value (of_nat (48 + n)) = n"
  using unat_byte_of_nat [of "48 + n"]
  by (simp only: is_digit_def digit_value_def byte_le_iff_unat) simp

lemma nat_text_digits: "digits1 (nat_text n)"
proof (induction n rule: nat_text.induct)
  case (1 n)
  then show ?case
    using digit_char [of n] digit_char [of "n mod 10"]
    by (subst nat_text.simps) (auto simp: digits1_def)
qed

lemma nat_of_digits_text [simp]: "nat_of_digits (nat_text n) = n"
proof (induction n rule: nat_text.induct)
  case (1 n)
  show ?case
  proof (cases "n < 10")
    case True
    then show ?thesis
      using digit_char [of n] by (subst nat_text.simps) (simp add: nat_of_digits_def)
  next
    case False
    then have "nat_of_digits (nat_text n) = nat_of_digits (nat_text (n div 10)) * 10 + n mod 10"
      using digit_char [of "n mod 10"]
      by (subst nat_text.simps) (simp add: nat_of_digits_def)
    with 1 False show ?thesis by simp
  qed
qed

lemma hd_nat_text: "0 < n \<Longrightarrow> hd (nat_text n) \<noteq> 48"
proof (induction n rule: nat_text.induct)
  case (1 n)
  show ?case
  proof (cases "n < 10")
    case True
    then have "unat (of_nat (48 + n) :: byte) = 48 + n"
      by (intro unat_byte_of_nat) simp
    with True 1(2) show ?thesis
      by (subst nat_text.simps) (auto simp: byte_eq_iff_unat simp del: of_nat_add)
  next
    case False
    then have "hd (nat_text (n div 10)) \<noteq> 48"
      using 1 by simp
    moreover have "nat_text (n div 10) \<noteq> []"
      using nat_text_digits by (simp add: digits1_def)
    ultimately show ?thesis
      using False by (subst nat_text.simps) simp
  qed
qed

lemma not_digit_minus: "\<not> is_digit 45"
  by (simp add: is_digit_def)

lemma expect_minus_digits: "digits1 s \<Longrightarrow> expect 45 s = None"
  using not_digit_minus by (cases s) (auto simp: digits1_def)

lemma valid_number_digits:
  assumes "digits1 s" and "hd s = 48 \<longrightarrow> length s = 1"
  shows "valid_number s" and "valid_number (45 # s)"
proof -
  have t: "takeWhile is_digit s = s"
    using assms(1) by (simp add: digits1_def list_all_iff)
  then have d: "dropWhile is_digit s = []"
    by (metis append_self_conv takeWhile_dropWhile_id)
  have "expect 46 (dropWhile is_digit s) = None" and "valid_exponent (dropWhile is_digit s)"
    by (simp_all only: d expect_Nil) (simp add: valid_exponent_def)
  with assms t show "valid_number s" and "valid_number (45 # s)"
    by (simp_all only: valid_number_def expect_minus_digits valid_fraction_def Let_def
        option.case expect_Cons if_True simp_thms)
qed

lemma nat_text_zero: "nat_text 0 = [48]"
  by (simp add: nat_text.simps)

lemma valid_number_int_text [simp]: "valid_number (int_text i)"
proof -
  have "hd (nat_text n) = 48 \<longrightarrow> length (nat_text n) = 1" for n
    using hd_nat_text [of n] by (cases "n = 0") (simp_all add: nat_text_zero)
  then show ?thesis
    using valid_number_digits nat_text_digits by (simp add: int_text_def)
qed

lemma parse_int64_text:
  assumes "- (2 ^ 63) \<le> i" and "i < 2 ^ 63"
  shows "parse_int64 (int_text i) = Some i"
proof -
  have "nat_text n \<noteq> 45 # nat_text n" for n
    by (rule not_Cons_self2 [symmetric])
  with assms nat_text_digits expect_minus_digits [OF nat_text_digits] show ?thesis
    by (auto simp: parse_int64_def int_text_def Let_def)
qed

lemma valid_exponent_chars: "valid_exponent s \<Longrightarrow> list_all is_num_char s"
  by (auto simp: valid_exponent_def digits1_def is_num_char_def list_all_iff
      split: list.splits if_splits)

lemma num_chars_split:
  "list_all is_num_char (dropWhile is_digit u) \<Longrightarrow> list_all is_num_char u"
proof -
  assume "list_all is_num_char (dropWhile is_digit u)"
  moreover have "list_all is_num_char (takeWhile is_digit u)"
    by (auto simp: list_all_iff is_num_char_def dest: set_takeWhileD)
  ultimately have "list_all is_num_char (takeWhile is_digit u @ dropWhile is_digit u)"
    by (simp only: list_all_append)
  then show ?thesis
    by (simp only: takeWhile_dropWhile_id)
qed

lemma valid_fraction_chars: "valid_fraction u \<Longrightarrow> list_all is_num_char u"
  by (auto simp: valid_fraction_def expect_Some_iff is_num_char_def
      split: option.splits intro: num_chars_split dest: valid_exponent_chars)

lemma valid_number_chars:
  assumes "valid_number s"
  shows "s \<noteq> []" and "list_all is_num_char s"
proof -
  define u where "u = (case expect 45 s of None \<Rightarrow> s | Some cs \<Rightarrow> cs)"
  have "digits1 (takeWhile is_digit u)" and "valid_fraction (dropWhile is_digit u)"
    using assms unfolding valid_number_def Let_def u_def by blast+
  then have "u \<noteq> []" and "list_all is_num_char u"
    by (auto simp: digits1_def intro: num_chars_split valid_fraction_chars)
  then show "s \<noteq> []" and "list_all is_num_char s"
    unfolding u_def
    by (auto simp: expect_Some_iff is_num_char_def split: option.splits)
qed

section \<open>Values as text\<close>

fun commas :: "bytes list \<Rightarrow> bytes" where
  "commas [] = []"
| "commas [x] = x"
| "commas (x # y # ys) = x @ 44 # commas (y # ys)"

text \<open>\<open>json.Marshal\<close>: compact, no spaces.\<close>

fun json_text :: "json \<Rightarrow> bytes" where
  "json_text JNull = lit ''null''"
| "json_text (JBool b) = (if b then lit ''true'' else lit ''false'')"
| "json_text (JNum s) = s"
| "json_text (JStr s) = quote s"
| "json_text (JArr xs) = 91 # commas (map json_text xs) @ [93]"
| "json_text (JObj fs) = 123 # commas (map (\<lambda>(k, v). quote k @ 58 # json_text v) fs) @ [125]"

text \<open>\<open>json.MarshalIndent\<close> with no prefix and two spaces per level.\<close>

definition newline :: "nat \<Rightarrow> bytes" where
  "newline d = 10 # replicate (2 * d) 32"

fun json_indent :: "nat \<Rightarrow> json \<Rightarrow> bytes" where
  "json_indent d (JArr xs) =
     (if xs = [] then [91, 93]
      else 91 # commas (map (\<lambda>x. newline (Suc d) @ json_indent (Suc d) x) xs) @ newline d @ [93])"
| "json_indent d (JObj fs) =
     (if fs = [] then [123, 125]
      else 123 # commas (map (\<lambda>(k, v). newline (Suc d) @ quote k @ 58 # 32 # json_indent (Suc d) v) fs)
        @ newline d @ [125])"
| "json_indent d j = json_text j"

definition is_space :: "byte \<Rightarrow> bool" where
  "is_space b \<longleftrightarrow> b \<in> {9, 10, 13, 32}"

definition skip_ws :: "bytes \<Rightarrow> bytes" where
  "skip_ws s = dropWhile is_space s"

fun strip_prefix :: "bytes \<Rightarrow> bytes \<Rightarrow> bytes option" where
  "strip_prefix [] s = Some s"
| "strip_prefix (p # ps) s = Option.bind (expect p s) (strip_prefix ps)"

definition parse_number :: "bytes \<Rightarrow> (json \<times> bytes) option" where
  "parse_number s =
     (if valid_number (takeWhile is_num_char s)
      then Some (JNum (takeWhile is_num_char s), dropWhile is_num_char s) else None)"

text \<open>
  The parser, with fuel: a value of \<open>n\<close> bytes needs at most \<open>2 * n\<close> calls on a branch, so
  \<open>json_parse\<close> starts with \<open>2 * length s + 2\<close>.
\<close>

fun parse_value :: "nat \<Rightarrow> bytes \<Rightarrow> (json \<times> bytes) option"
  and parse_elems :: "nat \<Rightarrow> bytes \<Rightarrow> (json list \<times> bytes) option"
  and parse_members :: "nat \<Rightarrow> bytes \<Rightarrow> ((gostr \<times> json) list \<times> bytes) option"
where
  "parse_value 0 s = None"
| "parse_value (Suc n) s = (case skip_ws s of [] \<Rightarrow> None
     | b # bs \<Rightarrow>
       (if b = 34 then map_option (\<lambda>(x, r). (JStr x, r)) (unquote bs)
        else if b = 91 then
          (case expect 93 (skip_ws bs) of Some r \<Rightarrow> Some (JArr [], r)
           | None \<Rightarrow> map_option (\<lambda>(xs, r). (JArr xs, r)) (parse_elems n bs))
        else if b = 123 then
          (case expect 125 (skip_ws bs) of Some r \<Rightarrow> Some (JObj [], r)
           | None \<Rightarrow> map_option (\<lambda>(fs, r). (JObj fs, r)) (parse_members n bs))
        else if b = 110 then map_option (\<lambda>r. (JNull, r)) (strip_prefix (lit ''ull'') bs)
        else if b = 116 then map_option (\<lambda>r. (JBool True, r)) (strip_prefix (lit ''rue'') bs)
        else if b = 102 then map_option (\<lambda>r. (JBool False, r)) (strip_prefix (lit ''alse'') bs)
        else parse_number (b # bs)))"
| "parse_elems 0 s = None"
| "parse_elems (Suc n) s = (case parse_value n s of None \<Rightarrow> None
     | Some (x, r) \<Rightarrow>
       (case expect 93 (skip_ws r) of Some r' \<Rightarrow> Some ([x], r')
        | None \<Rightarrow>
          (case expect 44 (skip_ws r) of None \<Rightarrow> None
           | Some r' \<Rightarrow> map_option (\<lambda>(xs, r''). (x # xs, r'')) (parse_elems n r'))))"
| "parse_members 0 s = None"
| "parse_members (Suc n) s = (case Option.bind (expect 34 (skip_ws s)) unquote of None \<Rightarrow> None
     | Some (k, r) \<Rightarrow>
       (case Option.bind (expect 58 (skip_ws r)) (parse_value n) of None \<Rightarrow> None
        | Some (v, r') \<Rightarrow>
          (case expect 125 (skip_ws r') of Some r'' \<Rightarrow> Some ([(k, v)], r'')
           | None \<Rightarrow>
             (case expect 44 (skip_ws r') of None \<Rightarrow> None
              | Some r'' \<Rightarrow> map_option (\<lambda>(fs, t). ((k, v) # fs, t)) (parse_members n r'')))))"

definition json_parse :: "bytes \<Rightarrow> json option" where
  "json_parse s = (case parse_value (2 * length s + 2) s of
       Some (j, r) \<Rightarrow> if skip_ws r = [] then Some j else None
     | None \<Rightarrow> None)"

text \<open>The values that survive being written.\<close>

fun wf_json :: "json \<Rightarrow> bool" where
  "wf_json JNull = True"
| "wf_json (JBool b) = True"
| "wf_json (JNum s) = valid_number s"
| "wf_json (JStr s) = utf8_valid s"
| "wf_json (JArr xs) = list_all wf_json xs"
| "wf_json (JObj fs) = list_all (\<lambda>(k, v). utf8_valid k \<and> wf_json v) fs"

section \<open>Parsing what was written\<close>

text \<open>What may follow a value: nothing that would extend a number.\<close>

definition delimited :: "bytes \<Rightarrow> bool" where
  "delimited r \<longleftrightarrow> r = [] \<or> \<not> is_num_char (hd r)"

lemma delimited_simps [simp]:
  "delimited []" "delimited (44 # r)" "delimited (93 # r)" "delimited (125 # r)"
  by (simp_all add: delimited_def is_num_char_def is_digit_def)

lemma skip_ws_Cons [simp]: "\<not> is_space b \<Longrightarrow> skip_ws (b # s) = b # s"
  by (simp add: skip_ws_def)

lemma not_space [simp]:
  "\<not> is_space 34" "\<not> is_space 44" "\<not> is_space 58" "\<not> is_space 91" "\<not> is_space 93"
  "\<not> is_space 123" "\<not> is_space 125" "\<not> is_space 110" "\<not> is_space 116" "\<not> is_space 102"
  by (simp_all add: is_space_def)

lemma num_char_other:
  assumes "is_num_char b"
  shows "\<not> is_space b" and "b \<notin> {34, 91, 123, 110, 116, 102, 93, 125}"
  using assms
  by (auto simp: is_num_char_def is_digit_def is_space_def byte_le_iff_unat)

lemma parse_number_text:
  assumes "valid_number s" and "delimited r"
  shows "parse_number (s @ r) = Some (JNum s, r)"
proof -
  have "takeWhile is_num_char (s @ r) = s" and "dropWhile is_num_char (s @ r) = r"
    using valid_number_chars(2) [OF assms(1)] assms(2)
    by (cases r; simp add: list_all_iff delimited_def takeWhile_append2)+
  with assms(1) show ?thesis
    by (simp add: parse_number_def)
qed

lemma strip_prefix_lit [simp]: "strip_prefix p (p @ r) = Some r"
  by (induction p) simp_all

lemma quote_Cons: "quote s @ r = 34 # quote_body s @ 34 # r"
  by (simp add: quote_def)

lemma parse_value_num:
  assumes "valid_number s" and "delimited r" and "0 < n"
  shows "parse_value n (s @ r) = Some (JNum s, r)"
proof -
  obtain b bs where s: "s = b # bs"
    using valid_number_chars(1) [OF assms(1)] by (cases s) auto
  then have "is_num_char b"
    using valid_number_chars(2) [OF assms(1)] by simp
  from num_char_other [OF this] show ?thesis
    using parse_number_text [OF assms(1,2)] s gr0_implies_Suc [OF assms(3)] by auto
qed

text \<open>\<open>reads_as t j\<close>: the text \<open>t\<close>, whatever follows it, is read as \<open>j\<close>.\<close>

definition reads_as :: "bytes \<Rightarrow> json \<Rightarrow> bool" where
  "reads_as t j \<longleftrightarrow> t \<noteq> [] \<and> (\<forall>n r. delimited r \<longrightarrow> 2 * length t \<le> n \<longrightarrow> parse_value n (t @ r) = Some (j, r))"

lemma reads_asD:
  "reads_as t j \<Longrightarrow> delimited r \<Longrightarrow> 2 * length t \<le> n \<Longrightarrow> parse_value n (t @ r) = Some (j, r)"
  by (simp add: reads_as_def)

lemma reads_asI:
  assumes "t \<noteq> []"
    and "\<And>m r. delimited r \<Longrightarrow> 2 * length t \<le> Suc m \<Longrightarrow> parse_value (Suc m) (t @ r) = Some (j, r)"
  shows "reads_as t j"
  unfolding reads_as_def
proof (intro conjI allI impI)
  fix n r
  assume r: "delimited r" and n: "2 * length t \<le> n"
  with assms(1) obtain m where m: "n = Suc m"
    by (cases n) auto
  show "parse_value n (t @ r) = Some (j, r)"
    using assms(2) [OF r] n unfolding m .
qed (rule assms(1))

text \<open>White space in front of a value is skipped.\<close>

lemma skip_ws_append: "list_all is_space w \<Longrightarrow> skip_ws (w @ s) = skip_ws s"
  by (simp add: skip_ws_def list_all_iff dropWhile_append2)

lemma delimited_space:
  assumes "list_all is_space w" and "delimited r"
  shows "delimited (w @ r)"
  using assms num_char_other(1) by (cases w) (auto simp: delimited_def)

lemma reads_as_space:
  assumes "list_all is_space w" and "reads_as t j"
  shows "reads_as (w @ t) j"
proof (rule reads_asI)
  fix m r
  assume "delimited r" and "2 * length (w @ t) \<le> Suc m"
  then have "parse_value (Suc m) (t @ r) = Some (j, r)"
    using assms(2) by (intro reads_asD) simp_all
  then show "parse_value (Suc m) ((w @ t) @ r) = Some (j, r)"
    using assms(1) by (simp add: skip_ws_append)
qed (use assms(2) in \<open>simp add: reads_as_def\<close>)

lemma newline_space [simp]: "list_all is_space (newline d)"
  by (simp add: newline_def list_all_iff is_space_def)

text \<open>A value does not start with a closing bracket.\<close>

lemma parse_value_close: "skip_ws s = 93 # bs \<Longrightarrow> parse_value n s = None"
proof (cases n)
  case (Suc m)
  assume "skip_ws s = 93 # bs"
  moreover have "\<not> valid_number (takeWhile is_num_char (93 # bs))"
    using valid_number_chars(1) [of "takeWhile is_num_char (93 # bs)"]
    by (auto simp: is_num_char_def is_digit_def)
  ultimately show ?thesis
    by (simp add: Suc parse_number_def)
qed simp

lemma reads_as_not_close:
  assumes "reads_as t j" and "delimited r"
  shows "expect 93 (skip_ws (t @ r)) = None"
proof (rule ccontr)
  assume "expect 93 (skip_ws (t @ r)) \<noteq> None"
  then obtain bs where "skip_ws (t @ r) = 93 # bs"
    by (auto simp: expect_Some_iff)
  from parse_value_close [OF this] reads_asD [OF assms order_refl] show False
    by simp
qed

lemma parse_elems_text:
  assumes "list_all2 reads_as ts xs" and "ts \<noteq> []" and w: "list_all is_space w"
    and "2 * length (commas ts) + 1 \<le> n"
  shows "parse_elems n (commas ts @ w @ 93 # r) = Some (xs, r)"
  using assms(1,2,4)
proof (induction ts arbitrary: xs n rule: induct_list012)
  case 1
  then show ?case by simp
next
  case (2 t)
  then obtain x where x: "xs = [x]" "reads_as t x"
    by (auto simp: list_all2_Cons1)
  obtain m where n: "n = Suc m" and m: "2 * length t \<le> m"
    using 2 by (cases n) auto
  have "parse_value m (t @ w @ 93 # r) = Some (x, w @ 93 # r)"
    using x(2) m w by (intro reads_asD delimited_space) simp_all
  then show ?case
    using w by (simp add: n x(1) skip_ws_append)
next
  case (3 t u ts)
  then obtain x ys where x: "xs = x # ys" "reads_as t x" "list_all2 reads_as (u # ts) ys"
    by (auto simp: list_all2_Cons1)
  obtain m where n: "n = Suc m" and m: "2 * length t \<le> m" and m': "2 * length (commas (u # ts)) + 1 \<le> m"
    using 3 by (cases n) auto
  have "parse_value m (t @ 44 # commas (u # ts) @ w @ 93 # r) = Some (x, 44 # commas (u # ts) @ w @ 93 # r)"
    using x(2) m by (intro reads_asD) simp_all
  moreover have "parse_elems m (commas (u # ts) @ w @ 93 # r) = Some (ys, r)"
    using x(3) m' by (intro "3.IH"(2)) simp_all
  ultimately show ?case
    by (simp add: n x(1))
qed

text \<open>The text of an object's member, with white space before the key.\<close>

definition member_reads :: "bytes \<Rightarrow> gostr \<times> json \<Rightarrow> bool" where
  "member_reads t f \<longleftrightarrow> (\<exists>w u. list_all is_space w \<and> t = w @ quote (fst f) @ 58 # u \<and>
     utf8_valid (fst f) \<and> reads_as u (snd f))"

lemma member_key:
  assumes "member_reads t f"
  obtains u where "\<And>s. Option.bind (expect 34 (skip_ws (t @ s))) unquote = Some (fst f, 58 # u @ s)"
    and "reads_as u (snd f)" and "length u < length t"
proof -
  obtain w u where t: "list_all is_space w" "t = w @ quote (fst f) @ 58 # u" "utf8_valid (fst f)" "reads_as u (snd f)"
    using assms by (auto simp: member_reads_def)
  have "skip_ws (t @ s) = 34 # quote_body (fst f) @ 34 # 58 # u @ s" for s
    using t(1) by (simp add: t(2) skip_ws_append quote_Cons)
  moreover have "unquote (quote_body (fst f) @ 34 # 58 # u @ s) = Some (fst f, 58 # u @ s)" for s
    using t(3) by (rule unquote_quote_body)
  ultimately show thesis
    using t(2,4) by (intro that [of u]) simp_all
qed

lemma member_not_close: "member_reads t f \<Longrightarrow> expect 125 (skip_ws (t @ r)) = None"
  by (auto simp: member_reads_def skip_ws_append quote_Cons)

lemma parse_members_text:
  assumes "list_all2 member_reads ts fs" and "ts \<noteq> []" and w: "list_all is_space w"
    and "2 * length (commas ts) + 1 \<le> n"
  shows "parse_members n (commas ts @ w @ 125 # r) = Some (fs, r)"
  using assms(1,2,4)
proof (induction ts arbitrary: fs n rule: induct_list012)
  case 1
  then show ?case by simp
next
  case (2 t)
  then obtain f where f: "fs = [f]" "member_reads t f"
    by (auto simp: list_all2_Cons1)
  obtain u where u: "\<And>s. Option.bind (expect 34 (skip_ws (t @ s))) unquote = Some (fst f, 58 # u @ s)"
    "reads_as u (snd f)" "length u < length t"
    using member_key [OF f(2)] by blast
  obtain m where n: "n = Suc m" and m: "2 * length u \<le> m"
    using 2 u(3) by (cases n) auto
  have "parse_value m (u @ w @ 125 # r) = Some (snd f, w @ 125 # r)"
    using u(2) m w by (intro reads_asD delimited_space) simp_all
  then show ?case
    using w u(1) [of "w @ 125 # r"] by (simp add: n f(1) skip_ws_append)
next
  case (3 t t' ts)
  then obtain f gs where f: "fs = f # gs" "member_reads t f" "list_all2 member_reads (t' # ts) gs"
    by (auto simp: list_all2_Cons1)
  let ?rest = "44 # commas (t' # ts) @ w @ 125 # r"
  obtain u where u: "\<And>s. Option.bind (expect 34 (skip_ws (t @ s))) unquote = Some (fst f, 58 # u @ s)"
    "reads_as u (snd f)" "length u < length t"
    using member_key [OF f(2)] by blast
  obtain m where n: "n = Suc m" and m: "2 * length u \<le> m" and m': "2 * length (commas (t' # ts)) + 1 \<le> m"
    using 3 u(3) by (cases n) auto
  have "parse_value m (u @ ?rest) = Some (snd f, ?rest)"
    using u(2) m by (intro reads_asD) simp_all
  moreover have "parse_members m (commas (t' # ts) @ w @ 125 # r) = Some (gs, r)"
    using f(3) m' by (intro "3.IH"(2)) simp_all
  ultimately show ?case
    using u(1) [of ?rest] by (simp add: n f(1))
qed

text \<open>Arrays and objects, compact or indented.\<close>

lemma reads_as_array:
  assumes "list_all2 reads_as ts xs" and "ts \<noteq> []" and w: "list_all is_space w"
  shows "reads_as (91 # commas ts @ w @ [93]) (JArr xs)"
proof (rule reads_asI)
  fix m r
  assume m: "2 * length (91 # commas ts @ w @ [93]) \<le> Suc m"
  obtain t us where ts: "ts = t # us" using assms(2) by (cases ts) auto
  then obtain x where x: "reads_as t x" using assms(1) by (auto simp: list_all2_Cons1)
  have "delimited (w @ 93 # r)" using w by (intro delimited_space) simp_all
  then have "expect 93 (skip_ws (commas ts @ w @ 93 # r)) = None"
    using reads_as_not_close [OF x] by (cases us) (simp_all add: ts)
  moreover have "parse_elems m (commas ts @ w @ 93 # r) = Some (xs, r)"
    using m by (intro parse_elems_text [OF assms]) simp
  ultimately show "parse_value (Suc m) ((91 # commas ts @ w @ [93]) @ r) = Some (JArr xs, r)"
    by simp
qed simp

lemma reads_as_object:
  assumes "list_all2 member_reads ts fs" and "ts \<noteq> []" and w: "list_all is_space w"
  shows "reads_as (123 # commas ts @ w @ [125]) (JObj fs)"
proof (rule reads_asI)
  fix m r
  assume m: "2 * length (123 # commas ts @ w @ [125]) \<le> Suc m"
  obtain t us where ts: "ts = t # us" using assms(2) by (cases ts) auto
  then obtain f where f: "member_reads t f" using assms(1) by (auto simp: list_all2_Cons1)
  have "expect 125 (skip_ws (commas ts @ w @ 125 # r)) = None"
    using member_not_close [OF f] by (cases us) (simp_all add: ts)
  moreover have "parse_members m (commas ts @ w @ 125 # r) = Some (fs, r)"
    using m by (intro parse_members_text [OF assms]) simp
  ultimately show "parse_value (Suc m) ((123 # commas ts @ w @ [125]) @ r) = Some (JObj fs, r)"
    by simp
qed simp

lemma reads_as_atom:
  "reads_as (lit ''null'') JNull" "reads_as (json_text (JBool b)) (JBool b)"
  "valid_number s \<Longrightarrow> reads_as s (JNum s)" "utf8_valid x \<Longrightarrow> reads_as (quote x) (JStr x)"
  "reads_as [91, 93] (JArr [])" "reads_as [123, 125] (JObj [])"
proof -
  show "reads_as (lit ''null'') JNull" "reads_as (json_text (JBool b)) (JBool b)"
    by (rule reads_asI; simp add: lit_def)+
  show "valid_number s \<Longrightarrow> reads_as s (JNum s)"
    using valid_number_chars(1) parse_value_num
    by (intro reads_asI) (simp_all del: parse_value.simps)
  show "utf8_valid x \<Longrightarrow> reads_as (quote x) (JStr x)"
    by (intro reads_asI) (simp_all add: quote_Cons unquote_quote_body quote_def)
  show "reads_as [91, 93] (JArr [])" "reads_as [123, 125] (JObj [])"
    by (rule reads_asI; simp)+
qed

lemma member_readsI:
  "list_all is_space w \<Longrightarrow> utf8_valid k \<Longrightarrow> reads_as u v \<Longrightarrow> member_reads (w @ quote k @ 58 # u) (k, v)"
  by (auto simp: member_reads_def)

lemma json_text_reads: "wf_json j \<Longrightarrow> reads_as (json_text j) j"
proof (induction j rule: json_text.induct)
  case (5 xs)
  then show ?case
    using reads_as_array [of "map json_text xs" xs "[]"] reads_as_atom(5)
    by (cases "xs = []") (auto simp: list_all2_map1 list_all_iff intro!: list.rel_refl_strong)
next
  case (6 fs)
  then have "list_all2 member_reads (map (\<lambda>(k, v). quote k @ 58 # json_text v) fs) fs"
    using member_readsI [of "[]"]
    by (auto simp: list_all2_map1 list_all_iff intro!: list.rel_refl_strong)
  then show ?case
    using reads_as_object [of _ fs "[]"] reads_as_atom(6) by (cases "fs = []") simp_all
qed (simp_all add: reads_as_atom del: json_text.simps(2))

lemma json_indent_reads: "wf_json j \<Longrightarrow> reads_as (json_indent d j) j"
proof (induction d j rule: json_indent.induct)
  case (1 d xs)
  have "reads_as (newline (Suc d) @ json_indent (Suc d) x) x" if "x \<in> set xs" for x
  proof -
    have "xs \<noteq> []" "wf_json x" using 1 that by (auto simp: list_all_iff)
    then show ?thesis using 1 that by (intro reads_as_space newline_space) blast
  qed
  then have "list_all2 reads_as (map (\<lambda>x. newline (Suc d) @ json_indent (Suc d) x) xs) xs"
    by (auto simp: list_all2_map1 intro!: list.rel_refl_strong)
  then show ?case
    using reads_as_array [of _ xs "newline d"] reads_as_atom(5) by (cases "xs = []") simp_all
next
  case (2 d fs)
  have "member_reads (newline (Suc d) @ quote k @ 58 # 32 # json_indent (Suc d) v) (k, v)"
    if "(k, v) \<in> set fs" for k v
  proof -
    have "fs \<noteq> []" "utf8_valid k" "wf_json v" using 2 that by (auto simp: list_all_iff)
    then have "reads_as (json_indent (Suc d) v) v" using 2 that by blast
    then have "reads_as (32 # json_indent (Suc d) v) v"
      using reads_as_space [of "[32]"] by (simp add: is_space_def)
    with \<open>utf8_valid k\<close> show ?thesis by (intro member_readsI) simp_all
  qed
  then have "list_all2 member_reads (map (\<lambda>(k, v). newline (Suc d) @ quote k @ 58 # 32 # json_indent (Suc d) v) fs) fs"
    by (auto simp: list_all2_map1 intro!: list.rel_refl_strong)
  then show ?case
    using reads_as_object [of _ fs "newline d"] reads_as_atom(6) by (cases "fs = []") simp_all
qed (simp_all only: json_indent.simps json_text_reads)

lemma json_parse_reads: "reads_as t j \<Longrightarrow> json_parse t = Some j"
  using reads_asD [of t j "[]" "2 * length t + 2"] by (simp add: json_parse_def skip_ws_def)

lemma json_parse_text [simp]: "wf_json j \<Longrightarrow> json_parse (json_text j) = Some j"
  by (intro json_parse_reads json_text_reads)

lemma json_parse_indent [simp]: "wf_json j \<Longrightarrow> json_parse (json_indent d j) = Some j"
  by (intro json_parse_reads json_indent_reads)

end
