(* ===== verification/Types.thy ===== *)
theory Types
  imports Prelude
begin

text \<open>
  The client's data types (\<open>internal/client/encryption/encryption.go\<close> and \<open>access.go\<close>), the
  code the client calls and this repository does not contain (\<open>provider\<close>), and the state a
  service method runs in (\<open>st\<close>).
\<close>

section \<open>Structs\<close>

text \<open>A Go map that may be nil is an \<open>option\<close>: \<open>None\<close> is the nil map.\<close>

record User =
  Username :: gostr
  EncryptionPrivateKey :: bytes
  SigningPrivateKey :: bytes
  MasterKey :: bytes
  PasswordSalt :: bytes
  Files :: "(gostr, uuid) fmap option"

record Inode =
  Size :: int
  BlockUUIDs :: "uuid list"

record MailboxNode =
  FileKey :: bytes
  InodeUUID :: uuid

record ChildrenInfo =
  ci_MailboxUUID :: uuid
  ci_MailboxKey :: bytes

record Access =
  MymailboxUUID :: uuid
  MymailboxKey :: bytes
  Children :: "(gostr, ChildrenInfo) fmap option"

record Invitation =
  inv_MailboxUUID :: uuid
  inv_MailboxKey :: bytes

definition uuid_nil :: uuid where
  "uuid_nil = replicate 16 0"

lemma length_uuid_nil [simp]: "length uuid_nil = 16"
  by (simp add: uuid_nil_def)

section \<open>Code outside the repository\<close>

text \<open>
  Everything the client relies on and that is not Go source of this repository: the operating
  system's randomness, \<open>google/uuid\<close>, \<open>golang.org/x/crypto/argon2\<close>, the iteration order of Go
  maps, and the cryptographic primitives of the standard library, which are used as black
  boxes. The functions that draw something new take the number of draws made before (\<open>tick\<close>),
  so each call may give another value; \<open>None\<close> is a failed draw.
\<close>

record provider =
  rand_read :: "nat \<Rightarrow> nat \<Rightarrow> bytes option"
  uuid_new :: "nat \<Rightarrow> uuid"
  map_order :: "nat \<Rightarrow> gostr list \<Rightarrow> gostr list"
  sha512 :: "bytes \<Rightarrow> bytes"
  hmac_sha256 :: "bytes \<Rightarrow> bytes \<Rightarrow> bytes"
  gcm_seal :: "bytes \<Rightarrow> bytes \<Rightarrow> bytes \<Rightarrow> bytes \<Rightarrow> bytes"
  gcm_open :: "bytes \<Rightarrow> bytes \<Rightarrow> bytes \<Rightarrow> bytes \<Rightarrow> bytes option"
  x25519_genkey :: "nat \<Rightarrow> bytes option"
  x25519_public :: "bytes \<Rightarrow> bytes"
  x25519_ecdh :: "bytes \<Rightarrow> bytes \<Rightarrow> bytes option"
  ed25519_genkey :: "nat \<Rightarrow> (bytes \<times> bytes) option"
  ed25519_sign :: "bytes \<Rightarrow> bytes \<Rightarrow> bytes"
  ed25519_verify :: "bytes \<Rightarrow> bytes \<Rightarrow> bytes \<Rightarrow> bool"
  argon2_id :: "bytes \<Rightarrow> bytes \<Rightarrow> nat \<Rightarrow> nat \<Rightarrow> nat \<Rightarrow> nat \<Rightarrow> bytes"
  uuid_from_bytes :: "bytes \<Rightarrow> err + uuid"
  uuid_text :: "uuid \<Rightarrow> gostr"
  uuid_parse :: "gostr \<Rightarrow> uuid option"

text \<open>
  Documented behaviour of that code. Each predicate is what the documentation of one package
  promises; none of them says anything about secrecy.
\<close>

text \<open>\<open>crypto/rand\<close> and the key generators deliver, in the sizes asked for.\<close>

definition rng_ok :: "provider \<Rightarrow> bool" where
  "rng_ok P \<longleftrightarrow>
     (\<forall>t n. \<exists>b. rand_read P t n = Some b \<and> length b = n) \<and>
     (\<forall>t. \<exists>k. x25519_genkey P t = Some k \<and> length k = 32) \<and>
     (\<forall>t. \<exists>p k. ed25519_genkey P t = Some (p, k) \<and> length p = 32 \<and> length k = 64)"

text \<open>Ranging over a Go map visits every key once, in an unspecified order.\<close>

definition order_ok :: "provider \<Rightarrow> bool" where
  "order_ok P \<longleftrightarrow> (\<forall>t ks. distinct ks \<longrightarrow> distinct (map_order P t ks) \<and> set (map_order P t ks) = set ks)"

text \<open>Digest sizes; \<open>argon2.IDKey\<close> returns \<open>keyLen\<close> bytes.\<close>

definition digest_ok :: "provider \<Rightarrow> bool" where
  "digest_ok P \<longleftrightarrow> (\<forall>m. length (sha512 P m) = 64) \<and> (\<forall>k m. length (hmac_sha256 P k m) = 32) \<and>
     (\<forall>p s t m h n. length (argon2_id P p s t m h n) = n)"

text \<open>\<open>Open\<close> undoes \<open>Seal\<close> under the same key, nonce and additional data; the overhead is 16.\<close>

definition gcm_ok :: "provider \<Rightarrow> bool" where
  "gcm_ok P \<longleftrightarrow>
     (\<forall>k n m a. length k = 32 \<longrightarrow> length n = 12 \<longrightarrow>
        gcm_open P k n (gcm_seal P k n m a) a = Some m \<and>
        length (gcm_seal P k n m a) = length m + 16)"

text \<open>Both sides of a Diffie-Hellman exchange between generated keys get the same secret.\<close>

definition dh_ok :: "provider \<Rightarrow> bool" where
  "dh_ok P \<longleftrightarrow>
     (\<forall>k. length (x25519_public P k) = 32) \<and>
     (\<forall>k l. length k = 32 \<longrightarrow> length l = 32 \<longrightarrow>
        (\<exists>s. x25519_ecdh P k (x25519_public P l) = Some s \<and>
             x25519_ecdh P l (x25519_public P k) = Some s))"

text \<open>A signature made with a generated private key verifies under its public key.\<close>

definition sig_ok :: "provider \<Rightarrow> bool" where
  "sig_ok P \<longleftrightarrow>
     (\<forall>k m. length k = 64 \<longrightarrow> length (ed25519_sign P k m) = 64) \<and>
     (\<forall>t p k m. ed25519_genkey P t = Some (p, k) \<longrightarrow>
        ed25519_verify P p m (ed25519_sign P k m))"

text \<open>\<open>google/uuid\<close>: an array of 16 bytes, however it is made, and an ASCII text form that parses back.\<close>

definition uuid_ok :: "provider \<Rightarrow> bool" where
  "uuid_ok P \<longleftrightarrow>
     (\<forall>t. length (uuid_new P t) = 16) \<and>
     (\<forall>b. length b = 16 \<longrightarrow> uuid_from_bytes P b = Inr b) \<and>
     (\<forall>b u. uuid_from_bytes P b = Inr u \<longrightarrow> length u = 16) \<and>
     (\<forall>s u. uuid_parse P s = Some u \<longrightarrow> length u = 16) \<and>
     (\<forall>u. length u = 16 \<longrightarrow>
        uuid_parse P (uuid_text P u) = Some u \<and> (\<forall>c \<in> set (uuid_text P u). c < 128))"

definition provider_ok :: "provider \<Rightarrow> bool" where
  "provider_ok P \<longleftrightarrow> rng_ok P \<and> order_ok P \<and> digest_ok P \<and> gcm_ok P \<and> dh_ok P \<and> sig_ok P \<and> uuid_ok P"

lemma provider_parts:
  assumes "provider_ok P"
  shows "rng_ok P" "order_ok P" "digest_ok P" "gcm_ok P" "dh_ok P" "sig_ok P" "uuid_ok P"
  using assms by (simp_all add: provider_ok_def)

section \<open>State\<close>

text \<open>
  The state of a service call: the world behind the storage and key-store interfaces, the
  number of random draws made so far, and the \<open>User\<close> the method's \<open>*User\<close> argument points to,
  which the method may change.
\<close>

record 'w st =
  backing :: 'w
  tick :: nat
  userdata :: User

end
