(* ===== verification/Codec.thy ===== *)
theory Codec
  imports Json Types
begin

text \<open>
  How the structs of the client become JSON and come back (\<open>json.Marshal\<close> and
  \<open>json.Unmarshal\<close> on \<open>User\<close>, \<open>Inode\<close>, \<open>MailboxNode\<close>, \<open>Access\<close> and \<open>Invitation\<close>): field
  names and order from the struct declarations, \<open>[]byte\<close> as base64, UUIDs as text, maps as
  objects with sorted keys and nil maps as null, \<open>PasswordSalt\<close> left out (its tag is
  \<open>json:"-"\<close>). Decoding follows \<open>encoding/json\<close>: a key matches a field up to ASCII case,
  unknown keys are ignored, a repeated key is decoded again into the same field, null leaves a
  field alone (and makes a map or a slice nil). \<open>json.Marshal\<close> cannot fail on these types, so the
  marshalling functions return bytes.
\<close>

section \<open>Decoding one field\<close>

definition lower_byte :: "byte \<Rightarrow> byte" where
  "lower_byte b = (if 65 \<le> b \<and> b \<le> 90 then b + 32 else b)"

definition fold_name :: "gostr \<Rightarrow> gostr" where
  "fold_name s = map lower_byte s"

text \<open>A decoder gets the JSON value and the current value of its target.\<close>

type_synonym 'a decoder = "json \<Rightarrow> 'a \<Rightarrow> 'a option"

fun dec_bytes :: "bytes decoder" where
  "dec_bytes (JStr s) old = b64_decode s"
| "dec_bytes JNull old = Some []"
| "dec_bytes _ old = None"

fun dec_string :: "gostr decoder" where
  "dec_string (JStr s) old = Some s"
| "dec_string JNull old = Some old"
| "dec_string _ old = None"

fun dec_int :: "int decoder" where
  "dec_int (JNum s) old = parse_int64 s"
| "dec_int JNull old = Some old"
| "dec_int _ old = None"

fun dec_uuid :: "provider \<Rightarrow> uuid decoder" where
  "dec_uuid P (JStr s) old = uuid_parse P s"
| "dec_uuid P JNull old = Some old"
| "dec_uuid P _ old = None"

fun those_list :: "'a option list \<Rightarrow> 'a list option" where
  "those_list [] = Some []"
| "those_list (None # xs) = None"
| "those_list (Some x # xs) = map_option (\<lambda>ys. x # ys) (those_list xs)"

fun dec_list :: "'a \<Rightarrow> 'a decoder \<Rightarrow> 'a list decoder" where
  "dec_list z d (JArr xs) old = those_list (map (\<lambda>x. d x z) xs)"
| "dec_list z d JNull old = Some []"
| "dec_list z d _ old = None"

fun dec_map :: "'a \<Rightarrow> 'a decoder \<Rightarrow> (gostr, 'a) fmap option decoder" where
  "dec_map z d (JObj fs) old =
     map_option (\<lambda>ys. Some (fmadd (case old of None \<Rightarrow> fmempty | Some m \<Rightarrow> m) (fmap_of_list (rev ys))))
       (those_list (map (\<lambda>(k, v). map_option (\<lambda>x. (k, x)) (d v z)) fs))"
| "dec_map z d JNull old = Some None"
| "dec_map z d _ old = None"

definition field :: "string \<Rightarrow> 'a decoder \<Rightarrow> 'a \<Rightarrow> (gostr \<times> json) list \<Rightarrow> 'a option" where
  "field n d z fs =
     foldl (\<lambda>acc v. Option.bind acc (d v)) (Some z)
       (map snd (filter (\<lambda>(k, v). fold_name k = fold_name (lit n)) fs))"

definition enc_map :: "('a \<Rightarrow> json) \<Rightarrow> (gostr, 'a) fmap option \<Rightarrow> json" where
  "enc_map f m = (case m of None \<Rightarrow> JNull
     | Some m \<Rightarrow> JObj (map (\<lambda>(k, v). (k, f v)) (sorted_list_of_fmap m)))"

definition type_error :: err where
  "type_error = Msg ''json: cannot unmarshal'' []"

definition syntax_error :: err where
  "syntax_error = Msg ''json: invalid syntax'' []"

definition unmarshal :: "(json \<Rightarrow> 'a option) \<Rightarrow> bytes \<Rightarrow> err + 'a" where
  "unmarshal d b = (case json_parse b of None \<Rightarrow> Inl syntax_error
     | Some j \<Rightarrow> (case d j of None \<Rightarrow> Inl type_error | Some x \<Rightarrow> Inr x))"

text \<open>Decoding a struct: \<open>z\<close> for null, an object goes to the fields.\<close>

definition dec_struct :: "'a \<Rightarrow> ((gostr \<times> json) list \<Rightarrow> 'a option) \<Rightarrow> json \<Rightarrow> 'a option" where
  "dec_struct z f j = (case j of JObj fs \<Rightarrow> f fs | JNull \<Rightarrow> Some z | _ \<Rightarrow> None)"

section \<open>The structs\<close>

definition enc_mailbox :: "provider \<Rightarrow> MailboxNode \<Rightarrow> json" where
  "enc_mailbox P m = JObj
     [(lit ''FileKey'', JStr (b64_encode (FileKey m))),
      (lit ''InodeUUID'', JStr (uuid_text P (InodeUUID m)))]"

definition dec_mailbox :: "provider \<Rightarrow> json \<Rightarrow> MailboxNode option" where
  "dec_mailbox P = dec_struct \<lparr>FileKey = [], InodeUUID = uuid_nil\<rparr> (\<lambda>fs.
     case (field ''FileKey'' dec_bytes [] fs, field ''InodeUUID'' (dec_uuid P) uuid_nil fs) of
       (Some k, Some u) \<Rightarrow> Some \<lparr>FileKey = k, InodeUUID = u\<rparr> | _ \<Rightarrow> None)"

definition enc_child :: "provider \<Rightarrow> ChildrenInfo \<Rightarrow> json" where
  "enc_child P c = JObj
     [(lit ''MailboxUUID'', JStr (uuid_text P (ci_MailboxUUID c))),
      (lit ''MailboxKey'', JStr (b64_encode (ci_MailboxKey c)))]"

definition child_zero :: ChildrenInfo where
  "child_zero = \<lparr>ci_MailboxUUID = uuid_nil, ci_MailboxKey = []\<rparr>"

definition dec_child :: "provider \<Rightarrow> ChildrenInfo decoder" where
  "dec_child P j old = dec_struct child_zero (\<lambda>fs.
     case (field ''MailboxUUID'' (dec_uuid P) uuid_nil fs, field ''MailboxKey'' dec_bytes [] fs) of
       (Some u, Some k) \<Rightarrow> Some \<lparr>ci_MailboxUUID = u, ci_MailboxKey = k\<rparr> | _ \<Rightarrow> None) j"

definition enc_access :: "provider \<Rightarrow> Access \<Rightarrow> json" where
  "enc_access P a = JObj
     [(lit ''MymailboxUUID'', JStr (uuid_text P (MymailboxUUID a))),
      (lit ''MymailboxKey'', JStr (b64_encode (MymailboxKey a))),
      (lit ''Children'', enc_map (enc_child P) (Children a))]"

definition dec_access :: "provider \<Rightarrow> json \<Rightarrow> Access option" where
  "dec_access P = dec_struct \<lparr>MymailboxUUID = uuid_nil, MymailboxKey = [], Children = None\<rparr> (\<lambda>fs.
     case (field ''MymailboxUUID'' (dec_uuid P) uuid_nil fs, field ''MymailboxKey'' dec_bytes [] fs,
           field ''Children'' (dec_map child_zero (dec_child P)) None fs) of
       (Some u, Some k, Some c) \<Rightarrow> Some \<lparr>MymailboxUUID = u, MymailboxKey = k, Children = c\<rparr>
     | _ \<Rightarrow> None)"

definition enc_invitation :: "provider \<Rightarrow> Invitation \<Rightarrow> json" where
  "enc_invitation P i = JObj
     [(lit ''MailboxUUID'', JStr (uuid_text P (inv_MailboxUUID i))),
      (lit ''MailboxKey'', JStr (b64_encode (inv_MailboxKey i)))]"

definition dec_invitation :: "provider \<Rightarrow> json \<Rightarrow> Invitation option" where
  "dec_invitation P = dec_struct \<lparr>inv_MailboxUUID = uuid_nil, inv_MailboxKey = []\<rparr> (\<lambda>fs.
     case (field ''MailboxUUID'' (dec_uuid P) uuid_nil fs, field ''MailboxKey'' dec_bytes [] fs) of
       (Some u, Some k) \<Rightarrow> Some \<lparr>inv_MailboxUUID = u, inv_MailboxKey = k\<rparr> | _ \<Rightarrow> None)"

definition enc_inode :: "provider \<Rightarrow> Inode \<Rightarrow> json" where
  "enc_inode P i = JObj
     [(lit ''Size'', JNum (int_text (Size i))),
      (lit ''BlockUUIDs'', JArr (map (\<lambda>u. JStr (uuid_text P u)) (BlockUUIDs i)))]"

definition dec_inode :: "provider \<Rightarrow> json \<Rightarrow> Inode option" where
  "dec_inode P = dec_struct \<lparr>Size = 0, BlockUUIDs = []\<rparr> (\<lambda>fs.
     case (field ''Size'' dec_int 0 fs, field ''BlockUUIDs'' (dec_list uuid_nil (dec_uuid P)) [] fs) of
       (Some n, Some us) \<Rightarrow> Some \<lparr>Size = n, BlockUUIDs = us\<rparr> | _ \<Rightarrow> None)"

definition enc_user :: "provider \<Rightarrow> User \<Rightarrow> json" where
  "enc_user P u = JObj
     [(lit ''Username'', JStr (Username u)),
      (lit ''EncryptionPrivateKey'', JStr (b64_encode (EncryptionPrivateKey u))),
      (lit ''SigningPrivateKey'', JStr (b64_encode (SigningPrivateKey u))),
      (lit ''MasterKey'', JStr (b64_encode (MasterKey u))),
      (lit ''Files'', enc_map (\<lambda>v. JStr (uuid_text P v)) (Files u))]"

definition user_zero :: User where
  "user_zero = \<lparr>Username = [], EncryptionPrivateKey = [], SigningPrivateKey = [], MasterKey = [],
     PasswordSalt = [], Files = None\<rparr>"

definition dec_user :: "provider \<Rightarrow> json \<Rightarrow> User option" where
  "dec_user P = dec_struct user_zero (\<lambda>fs.
     case (field ''Username'' dec_string [] fs, field ''EncryptionPrivateKey'' dec_bytes [] fs,
           field ''SigningPrivateKey'' dec_bytes [] fs, field ''MasterKey'' dec_bytes [] fs,
           field ''Files'' (dec_map uuid_nil (dec_uuid P)) None fs) of
       (Some n, Some e, Some s, Some m, Some f) \<Rightarrow>
         Some \<lparr>Username = n, EncryptionPrivateKey = e, SigningPrivateKey = s, MasterKey = m,
               PasswordSalt = [], Files = f\<rparr>
     | _ \<Rightarrow> None)"

definition marshal_mailbox :: "provider \<Rightarrow> MailboxNode \<Rightarrow> bytes" where
  "marshal_mailbox P m = json_text (enc_mailbox P m)"

definition unmarshal_mailbox :: "provider \<Rightarrow> bytes \<Rightarrow> err + MailboxNode" where
  "unmarshal_mailbox P = unmarshal (dec_mailbox P)"

definition marshal_access :: "provider \<Rightarrow> Access \<Rightarrow> bytes" where
  "marshal_access P a = json_text (enc_access P a)"

definition unmarshal_access :: "provider \<Rightarrow> bytes \<Rightarrow> err + Access" where
  "unmarshal_access P = unmarshal (dec_access P)"

definition marshal_invitation :: "provider \<Rightarrow> Invitation \<Rightarrow> bytes" where
  "marshal_invitation P i = json_text (enc_invitation P i)"

definition unmarshal_invitation :: "provider \<Rightarrow> bytes \<Rightarrow> err + Invitation" where
  "unmarshal_invitation P = unmarshal (dec_invitation P)"

definition marshal_inode :: "provider \<Rightarrow> Inode \<Rightarrow> bytes" where
  "marshal_inode P i = json_text (enc_inode P i)"

definition unmarshal_inode :: "provider \<Rightarrow> bytes \<Rightarrow> err + Inode" where
  "unmarshal_inode P = unmarshal (dec_inode P)"

definition marshal_user :: "provider \<Rightarrow> User \<Rightarrow> bytes" where
  "marshal_user P u = json_text (enc_user P u)"

definition unmarshal_user :: "provider \<Rightarrow> bytes \<Rightarrow> err + User" where
  "unmarshal_user P = unmarshal (dec_user P)"

section \<open>Round trips\<close>

lemma utf8_valid_lit [simp]: "list_all (\<lambda>c. (of_char c :: nat) < 128) s \<Longrightarrow> utf8_valid (lit s)"
  by (rule utf8_valid_ascii) (auto simp: lit_def list_all_iff byte_less_iff_unat)

lemma utf8_valid_b64 [simp]: "utf8_valid (b64_encode b)"
  by (rule utf8_valid_ascii) (rule b64_encode_ascii)

lemma uuid_text_valid:
  "uuid_ok P \<Longrightarrow> length u = 16 \<Longrightarrow> utf8_valid (uuid_text P u)"
  by (rule utf8_valid_ascii) (auto simp: uuid_ok_def)

lemma uuid_parse_text:
  "uuid_ok P \<Longrightarrow> length u = 16 \<Longrightarrow> uuid_parse P (uuid_text P u) = Some u"
  by (simp add: uuid_ok_def)

lemma field_Nil [simp]: "field n d z [] = Some z"
  by (simp add: field_def)

lemma field_none: "foldl (\<lambda>acc v. Option.bind acc (d v)) None vs = None"
  by (induction vs) simp_all

lemma field_Cons [simp]:
  "field n d z ((k, v) # fs) =
     (if fold_name k = fold_name (lit n)
      then (case d v z of None \<Rightarrow> None | Some z' \<Rightarrow> field n d z' fs) else field n d z fs)"
  by (simp add: field_def field_none split: option.split)

lemma unmarshal_text:
  "wf_json j \<Longrightarrow> unmarshal d (json_text j) = (case d j of None \<Rightarrow> Inl type_error | Some x \<Rightarrow> Inr x)"
  by (simp add: unmarshal_def)

lemma those_list_map_Some:
  "(\<And>x. x \<in> set xs \<Longrightarrow> f x = Some (g x)) \<Longrightarrow> those_list (map f xs) = Some (map g xs)"
  by (induction xs) simp_all

lemma fmap_of_rev_sorted: "fmap_of_list (rev (sorted_list_of_fmap m)) = m"
proof -
  have "distinct (map fst (sorted_list_of_fmap m))"
    by (simp add: sorted_list_of_fmap_def comp_def sorted_list_of_fset.rep_eq)
  then have "map_of (rev (sorted_list_of_fmap m)) = map_of (sorted_list_of_fmap m)"
    by (subst map_of_inject_set) (simp_all add: rev_map [symmetric])
  then show ?thesis
    by (intro fmap_ext) (simp add: fmlookup_of_list)
qed

lemma in_sorted_list_of_fmap: "(k, v) \<in> set (sorted_list_of_fmap m) \<longleftrightarrow> fmlookup m k = Some v"
  by (auto simp: sorted_list_of_fmap_def fmlookup_dom_iff)

definition wf_map :: "('a \<Rightarrow> bool) \<Rightarrow> (gostr, 'a) fmap option \<Rightarrow> bool" where
  "wf_map Q m \<longleftrightarrow> (\<forall>x. m = Some x \<longrightarrow> (\<forall>k v. fmlookup x k = Some v \<longrightarrow> utf8_valid k \<and> Q v))"

lemma wf_map_simps [simp]:
  "wf_map Q None" "wf_map Q (Some fmempty)"
  "wf_map Q (Some m) \<Longrightarrow> utf8_valid k \<Longrightarrow> Q v \<Longrightarrow> wf_map Q (Some (fmupd k v m))"
  "wf_map Q (Some m) \<Longrightarrow> wf_map Q (Some (fmdrop k m))"
  by (auto simp: wf_map_def split: if_splits)

lemma dec_enc_map:
  assumes "wf_map Q m" and "\<And>v. Q v \<Longrightarrow> d (f v) z = Some v"
  shows "dec_map z d (enc_map f m) None = Some m"
proof (cases m)
  case (Some x)
  let ?xs = "sorted_list_of_fmap x"
  have "d (f v) z = Some v" if "(k, v) \<in> set ?xs" for k v
    using assms that Some by (auto simp: in_sorted_list_of_fmap wf_map_def)
  then have "those_list (map (\<lambda>(k, v). map_option (\<lambda>y. (k, y)) (d v z)) (map (\<lambda>(k, v). (k, f v)) ?xs))
      = Some (map (\<lambda>p. p) ?xs)"
    unfolding map_map by (intro those_list_map_Some) auto
  with Some show ?thesis
    by (simp add: enc_map_def fmap_of_rev_sorted)
qed (simp add: enc_map_def)

lemma wf_enc_map:
  assumes "wf_map Q m" and "\<And>v. Q v \<Longrightarrow> wf_json (f v)"
  shows "wf_json (enc_map f m)"
  using assms
  by (auto simp: enc_map_def list_all_iff in_sorted_list_of_fmap wf_map_def split: option.split)

text \<open>No two field names of one struct have the same length.\<close>

lemma fold_name_neq [simp]: "length s \<noteq> length t \<Longrightarrow> fold_name (lit s) \<noteq> fold_name (lit t)"
  by (rule notI, drule arg_cong [where f = length]) (simp add: fold_name_def)

definition wf_mailbox :: "MailboxNode \<Rightarrow> bool" where
  "wf_mailbox m \<longleftrightarrow> length (InodeUUID m) = 16"

definition wf_child :: "ChildrenInfo \<Rightarrow> bool" where
  "wf_child c \<longleftrightarrow> length (ci_MailboxUUID c) = 16"

definition wf_access :: "Access \<Rightarrow> bool" where
  "wf_access a \<longleftrightarrow> length (MymailboxUUID a) = 16 \<and> wf_map wf_child (Children a)"

definition wf_invitation :: "Invitation \<Rightarrow> bool" where
  "wf_invitation i \<longleftrightarrow> length (inv_MailboxUUID i) = 16"

definition wf_inode :: "Inode \<Rightarrow> bool" where
  "wf_inode i \<longleftrightarrow> - (2 ^ 63) \<le> Size i \<and> Size i < 2 ^ 63 \<and> (\<forall>u \<in> set (BlockUUIDs i). length u = 16)"

definition wf_user :: "User \<Rightarrow> bool" where
  "wf_user u \<longleftrightarrow> utf8_valid (Username u) \<and> wf_map (\<lambda>v. length v = 16) (Files u)"

lemma mailbox_roundtrip [simp]:
  assumes "uuid_ok P" and "wf_mailbox m"
  shows "unmarshal_mailbox P (marshal_mailbox P m) = Inr m"
proof -
  have "dec_mailbox P (enc_mailbox P m) = Some m"
    using assms uuid_parse_text
    by (simp add: dec_mailbox_def enc_mailbox_def dec_struct_def wf_mailbox_def)
  moreover have "wf_json (enc_mailbox P m)"
    using assms by (simp add: enc_mailbox_def wf_mailbox_def uuid_text_valid)
  ultimately show ?thesis
    by (simp add: unmarshal_mailbox_def marshal_mailbox_def unmarshal_text)
qed

lemma dec_enc_child:
  assumes "uuid_ok P" and "wf_child c"
  shows "dec_child P (enc_child P c) z = Some c" and "wf_json (enc_child P c)"
  using assms uuid_parse_text
  by (simp_all add: dec_child_def enc_child_def dec_struct_def wf_child_def uuid_text_valid)
   

lemma access_roundtrip [simp]:
  assumes "uuid_ok P" and "wf_access a"
  shows "unmarshal_access P (marshal_access P a) = Inr a"
proof -
  have "dec_map child_zero (dec_child P) (enc_map (enc_child P) (Children a)) None = Some (Children a)"
    using assms dec_enc_child(1) by (intro dec_enc_map [where Q = wf_child]) (simp_all add: wf_access_def)
  then have "dec_access P (enc_access P a) = Some a"
    using assms uuid_parse_text
    by (simp add: dec_access_def enc_access_def dec_struct_def wf_access_def)
  moreover have "wf_json (enc_access P a)"
    using assms dec_enc_child(2) wf_enc_map [of wf_child "Children a" "enc_child P"]
    by (simp add: enc_access_def wf_access_def uuid_text_valid)
  ultimately show ?thesis
    by (simp add: unmarshal_access_def marshal_access_def unmarshal_text)
qed

lemma invitation_roundtrip [simp]:
  assumes "uuid_ok P" and "wf_invitation i"
  shows "unmarshal_invitation P (marshal_invitation P i) = Inr i"
proof -
  have "dec_invitation P (enc_invitation P i) = Some i"
    using assms uuid_parse_text
    by (simp add: dec_invitation_def enc_invitation_def dec_struct_def wf_invitation_def)
  moreover have "wf_json (enc_invitation P i)"
    using assms by (simp add: enc_invitation_def wf_invitation_def uuid_text_valid)
  ultimately show ?thesis
    by (simp add: unmarshal_invitation_def marshal_invitation_def unmarshal_text)
qed

lemma inode_roundtrip [simp]:
  assumes "uuid_ok P" and "wf_inode i"
  shows "unmarshal_inode P (marshal_inode P i) = Inr i"
proof -
  have "those_list (map (\<lambda>x. dec_uuid P x uuid_nil) (map (\<lambda>u. JStr (uuid_text P u)) (BlockUUIDs i)))
      = Some (map (\<lambda>u. u) (BlockUUIDs i))"
    unfolding map_map using assms
    by (intro those_list_map_Some) (auto simp: wf_inode_def uuid_parse_text)
  then have "dec_inode P (enc_inode P i) = Some i"
    using assms parse_int64_text [of "Size i"]
    by (simp add: dec_inode_def enc_inode_def dec_struct_def wf_inode_def comp_def)
  moreover have "wf_json (enc_inode P i)"
    using assms by (simp add: enc_inode_def wf_inode_def uuid_text_valid list_all_iff)
  ultimately show ?thesis
    by (simp add: unmarshal_inode_def marshal_inode_def unmarshal_text)
qed

text \<open>A user comes back without the salt.\<close>

lemma user_roundtrip [simp]:
  assumes "uuid_ok P" and "wf_user u"
  shows "unmarshal_user P (marshal_user P u) = Inr (u\<lparr>PasswordSalt := []\<rparr>)"
proof -
  have "dec_map uuid_nil (dec_uuid P) (enc_map (\<lambda>v. JStr (uuid_text P v)) (Files u)) None = Some (Files u)"
    using assms
    by (intro dec_enc_map [where Q = "\<lambda>v. length v = 16"]) (simp_all add: wf_user_def uuid_parse_text)
  then have "dec_user P (enc_user P u) = Some (u\<lparr>PasswordSalt := []\<rparr>)"
    by (simp add: dec_user_def enc_user_def dec_struct_def)
  moreover have "wf_json (enc_user P u)"
    using assms wf_enc_map [of "\<lambda>v. length v = 16" "Files u" "\<lambda>v. JStr (uuid_text P v)"]
    by (simp add: enc_user_def wf_user_def uuid_text_valid)
  ultimately show ?thesis
    by (simp add: unmarshal_user_def marshal_user_def unmarshal_text)
qed

end
