(* ===== verification/Storage.thy ===== *)
theory Storage
  imports Types
begin

text \<open>
  The storage and key-store interfaces of \<open>internal/client/encryption/memory.go\<close>, their
  in-memory implementations, and the contract the services rely on (locale \<open>backend\<close>). Every
  method body of \<open>MemoryStorage\<close> and \<open>MemoryKeyStore\<close> runs under its mutex, so a call is one
  step of the world.
\<close>

section \<open>Interfaces\<close>

text \<open>\<open>Get\<close> returns \<open>(value, ok, err)\<close>; a value that is not there is \<open>None\<close>.\<close>

record 'w StorageService =
  storage_Get :: "uuid \<Rightarrow> ('w, bytes option) prog"
  storage_Set :: "uuid \<Rightarrow> bytes \<Rightarrow> ('w, unit) prog"
  storage_Delete :: "uuid \<Rightarrow> ('w, unit) prog"

record 'w KeyStoreService =
  keyStore_Get :: "gostr \<Rightarrow> ('w, bytes option) prog"
  keyStore_Set :: "gostr \<Rightarrow> bytes \<Rightarrow> ('w, unit) prog"

text \<open>
  The three service structs of \<open>service.go\<close> (\<open>UserService\<close>, \<open>FileService\<close>,
  \<open>InvitationService\<close>) have the same two fields.
\<close>

record 'w Service =
  storage :: "'w StorageService"
  keyStore :: "'w KeyStoreService"

definition NewService :: "'w StorageService \<Rightarrow> 'w KeyStoreService \<Rightarrow> 'w Service" where
  "NewService st ks = \<lparr>storage = st, keyStore = ks\<rparr>"

text \<open>
  \<open>UserService\<close>, \<open>FileService\<close> and \<open>InvitationService\<close> have the same two fields, so one record stands for all
  three, and \<open>NewService\<close> for \<open>NewUserService\<close>.
\<close>

definition NewFileService :: "'w StorageService \<Rightarrow> 'w KeyStoreService \<Rightarrow> 'w Service" where
  "NewFileService st ks = \<lparr>storage = st, keyStore = ks\<rparr>"

definition NewInvitationService :: "'w StorageService \<Rightarrow> 'w KeyStoreService \<Rightarrow> 'w Service" where
  "NewInvitationService st ks = \<lparr>storage = st, keyStore = ks\<rparr>"

lemma one_service: "NewFileService = NewService" "NewInvitationService = NewService"
  by (simp_all add: fun_eq_iff NewFileService_def NewInvitationService_def NewService_def)

lemma NewService_simps [simp]: "storage (NewService S K) = S" "keyStore (NewService S K) = K"
  by (simp_all add: NewService_def)

text \<open>A call through an interface value, in the state of a service method.\<close>

definition on_backing :: "('w, 'a) prog \<Rightarrow> ('w st, 'a) prog" where
  "on_backing m s = (case m (backing s) of (r, w) \<Rightarrow> (r, s\<lparr>backing := w\<rparr>))"

section \<open>The in-memory implementations\<close>

text \<open>One world holds both maps: \<open>MemoryStorage.store\<close> and \<open>MemoryKeyStore.store\<close>.\<close>

record mworld =
  store_data :: "uuid \<rightharpoonup> bytes"
  store_keys :: "gostr \<rightharpoonup> bytes"

definition new_memory :: mworld where
  "new_memory = \<lparr>store_data = Map.empty, store_keys = Map.empty\<rparr>"

definition memory_Get :: "uuid \<Rightarrow> (mworld, bytes option) prog" where
  "memory_Get key = gets (\<lambda>w. store_data w key)"

definition memory_Set :: "uuid \<Rightarrow> bytes \<Rightarrow> (mworld, unit) prog" where
  "memory_Set key value = modify (\<lambda>w. w\<lparr>store_data := (store_data w)(key \<mapsto> value)\<rparr>)"

definition memory_Delete :: "uuid \<Rightarrow> (mworld, unit) prog" where
  "memory_Delete key = modify (\<lambda>w. w\<lparr>store_data := (store_data w)(key := None)\<rparr>)"

definition memory_key_Get :: "gostr \<Rightarrow> (mworld, bytes option) prog" where
  "memory_key_Get key = gets (\<lambda>w. store_keys w key)"

definition memory_key_Set :: "gostr \<Rightarrow> bytes \<Rightarrow> (mworld, unit) prog" where
  "memory_key_Set key value = modify (\<lambda>w. w\<lparr>store_keys := (store_keys w)(key \<mapsto> value)\<rparr>)"

definition MemoryStorage :: "mworld StorageService" where
  "MemoryStorage = \<lparr>storage_Get = memory_Get, storage_Set = memory_Set, storage_Delete = memory_Delete\<rparr>"

definition MemoryKeyStore :: "mworld KeyStoreService" where
  "MemoryKeyStore = \<lparr>keyStore_Get = memory_key_Get, keyStore_Set = memory_key_Set\<rparr>"

definition memory_service :: "mworld Service" where
  "memory_service = NewService MemoryStorage MemoryKeyStore"

lemma memory_service_simps [simp]:
  "storage memory_service = MemoryStorage" "keyStore memory_service = MemoryKeyStore"
  by (simp_all add: memory_service_def)

lemmas memory_defs =
  MemoryStorage_def MemoryKeyStore_def memory_Get_def memory_Set_def memory_Delete_def
  memory_key_Get_def memory_key_Set_def on_backing_def

lemma memory_runs [run_simps]:
  "on_backing (storage_Get MemoryStorage k) s = (Inr (store_data (backing s) k), s)"
  "on_backing (storage_Set MemoryStorage k v) s =
     (Inr (), s\<lparr>backing := (backing s)\<lparr>store_data := (store_data (backing s))(k \<mapsto> v)\<rparr>\<rparr>)"
  "on_backing (storage_Delete MemoryStorage k) s =
     (Inr (), s\<lparr>backing := (backing s)\<lparr>store_data := (store_data (backing s))(k := None)\<rparr>\<rparr>)"
  "on_backing (keyStore_Get MemoryKeyStore n) s = (Inr (store_keys (backing s) n), s)"
  "on_backing (keyStore_Set MemoryKeyStore n v) s =
     (Inr (), s\<lparr>backing := (backing s)\<lparr>store_keys := (store_keys (backing s))(n \<mapsto> v)\<rparr>\<rparr>)"
  by (simp_all add: memory_defs)

section \<open>The contract\<close>

text \<open>
  What a service may assume of its two interfaces: there are maps \<open>data\<close> and \<open>keys\<close> behind
  them, a call that returns no error has read or updated its map, and has left the other one
  alone. A call may always fail instead; nothing is promised then.
\<close>

locale storage_service =
  fixes S :: "'w StorageService"
    and ok :: "'w \<Rightarrow> bool"
    and data :: "'w \<Rightarrow> uuid \<rightharpoonup> bytes"
  assumes get_ok: "ok w \<Longrightarrow> storage_Get S k w = (Inr r, w') \<Longrightarrow> r = data w k \<and> data w' = data w \<and> ok w'"
    and set_ok: "ok w \<Longrightarrow> storage_Set S k v w = (Inr u, w') \<Longrightarrow> data w' = (data w)(k \<mapsto> v) \<and> ok w'"
    and delete_ok: "ok w \<Longrightarrow> storage_Delete S k w = (Inr u, w') \<Longrightarrow> data w' = (data w)(k := None) \<and> ok w'"
begin

lemma get_after_set:
  assumes "ok w" and "storage_Set S k v w = (Inr u, w')" and "storage_Get S j w' = (Inr r, w'')"
  shows "r = (if j = k then Some v else data w j)"
  using set_ok [OF assms(1,2)] get_ok [OF _ assms(3)] by auto

lemma get_after_delete:
  assumes "ok w" and "storage_Delete S k w = (Inr u, w')" and "storage_Get S j w' = (Inr r, w'')"
  shows "r = (if j = k then None else data w j)"
  using delete_ok [OF assms(1,2)] get_ok [OF _ assms(3)] by auto

end

locale key_store_service =
  fixes K :: "'w KeyStoreService"
    and ok :: "'w \<Rightarrow> bool"
    and keys :: "'w \<Rightarrow> gostr \<rightharpoonup> bytes"
  assumes key_get_ok: "ok w \<Longrightarrow> keyStore_Get K n w = (Inr r, w') \<Longrightarrow> r = keys w n \<and> keys w' = keys w \<and> ok w'"
    and key_set_ok: "ok w \<Longrightarrow> keyStore_Set K n v w = (Inr u, w') \<Longrightarrow> keys w' = (keys w)(n \<mapsto> v) \<and> ok w'"
begin

lemma key_get_after_set:
  assumes "ok w" and "keyStore_Set K n v w = (Inr u, w')" and "keyStore_Get K m w' = (Inr r, w'')"
  shows "r = (if m = n then Some v else keys w m)"
  using key_set_ok [OF assms(1,2)] key_get_ok [OF _ assms(3)] by auto

end

text \<open>A world seen as the in-memory one.\<close>

definition as_memory ::
  "('w \<Rightarrow> bool) \<Rightarrow> ('w \<Rightarrow> uuid \<rightharpoonup> bytes) \<Rightarrow> ('w \<Rightarrow> gostr \<rightharpoonup> bytes) \<Rightarrow> 'w st \<Rightarrow> mworld st \<Rightarrow> bool"
where
  "as_memory ok dat keys s t \<longleftrightarrow> ok (backing s) \<and> dat (backing s) = store_data (backing t) \<and>
     keys (backing s) = store_keys (backing t) \<and> tick s = tick t \<and> userdata s = userdata t"

text \<open>
  Two services whose interfaces do the same in related states, up to failures of the first: the
  client's methods then do the same. The relation keeps the other parts of the state equal.
\<close>

locale related_services =
  fixes Q :: "'v st \<Rightarrow> 'w st \<Rightarrow> bool" and V :: "'v Service" and W :: "'w Service"
  assumes refines_get: "refines Q (on_backing (storage_Get (storage V) k)) (on_backing (storage_Get (storage W) k))"
    and refines_set: "refines Q (on_backing (storage_Set (storage V) k v)) (on_backing (storage_Set (storage W) k v))"
    and refines_key_get: "refines Q (on_backing (keyStore_Get (keyStore V) n)) (on_backing (keyStore_Get (keyStore W) n))"
    and refines_key_set: "refines Q (on_backing (keyStore_Set (keyStore V) n v)) (on_backing (keyStore_Set (keyStore W) n v))"
    and related_same: "Q s t \<Longrightarrow> tick s = tick t \<and> userdata s = userdata t"
    and related_tick: "Q s t \<Longrightarrow> Q (s\<lparr>tick := i\<rparr>) (t\<lparr>tick := i\<rparr>)"
    and related_userdata: "Q s t \<Longrightarrow> Q (s\<lparr>userdata := u\<rparr>) (t\<lparr>userdata := u\<rparr>)"
begin

lemmas refines_calls [refine_intros] = refines_get refines_set refines_key_get refines_key_set

lemma refines_userdata [refine_intros]: "refines Q (gets userdata) (gets userdata)"
  by (rule refines_gets) (simp add: related_same)

lemma refines_update_user [refine_intros]:
  "(\<And>s t. userdata s = userdata t \<Longrightarrow> f s = g t) \<Longrightarrow>
   refines Q (modify (\<lambda>s. s\<lparr>userdata := f s\<rparr>)) (modify (\<lambda>t. t\<lparr>userdata := g t\<rparr>))"
  by (rule refines_modify) (metis related_same related_userdata)

end

locale backend = storage_service S ok data + key_store_service K ok keys
  for S :: "'w StorageService" and K :: "'w KeyStoreService" and ok and data and keys +
  assumes storage_frame:
      "ok w \<Longrightarrow> storage_Get S k w = (Inr r, w') \<Longrightarrow> keys w' = keys w"
      "ok w \<Longrightarrow> storage_Set S k v w = (Inr u, w') \<Longrightarrow> keys w' = keys w"
      "ok w \<Longrightarrow> storage_Delete S k w = (Inr u, w') \<Longrightarrow> keys w' = keys w"
    and key_frame:
      "ok w \<Longrightarrow> keyStore_Get K n w = (Inr r, w') \<Longrightarrow> data w' = data w"
      "ok w \<Longrightarrow> keyStore_Set K n v w = (Inr u, w') \<Longrightarrow> data w' = data w"
begin

abbreviation R :: "'w st \<Rightarrow> mworld st \<Rightarrow> bool" where
  "R \<equiv> as_memory ok data keys"

lemma backend_call:
  assumes "\<And>w w' x m. ok w \<Longrightarrow> op w = (Inr x, w') \<Longrightarrow> data w = store_data m \<Longrightarrow> keys w = store_keys m \<Longrightarrow>
    \<exists>m'. op' m = (Inr x, m') \<and> ok w' \<and> data w' = store_data m' \<and> keys w' = store_keys m'"
  shows "refines R (on_backing op) (on_backing op')"
proof (rule refinesI)
  fix s t x s'
  assume "R s t" and "on_backing op s = (Inr x, s')"
  with assms [of "backing s" x "backing s'" "backing t"]
  show "\<exists>t'. on_backing op' t = (Inr x, t') \<and> R s' t'"
    by (auto simp: as_memory_def on_backing_def split: prod.splits)
qed

end

text \<open>Every backend is related to memory.\<close>

sublocale backend \<subseteq> memory: related_services R "NewService S K" memory_service
proof (unfold_locales, unfold NewService_simps memory_service_simps)
  show "refines R (on_backing (storage_Get S k)) (on_backing (storage_Get MemoryStorage k))" for k
    by (rule backend_call) (auto simp: memory_defs dest: get_ok storage_frame(1))
  show "refines R (on_backing (storage_Set S k v)) (on_backing (storage_Set MemoryStorage k v))" for k v
    by (rule backend_call) (auto simp: memory_defs dest: set_ok storage_frame(2))
  show "refines R (on_backing (keyStore_Get K n)) (on_backing (keyStore_Get MemoryKeyStore n))" for n
    by (rule backend_call) (auto simp: memory_defs dest: key_get_ok key_frame(1))
  show "refines R (on_backing (keyStore_Set K n v)) (on_backing (keyStore_Set MemoryKeyStore n v))" for n v
    by (rule backend_call) (auto simp: memory_defs dest: key_set_ok key_frame(2))
qed (auto simp: as_memory_def)

context backend begin

lemma related_to_memory: "related_services R (NewService S K) memory_service"
  by unfold_locales

end

text \<open>A backend whose calls never fail: memory is related to it as well.\<close>

locale total_backend = backend +
  assumes never_fails:
    "ok w \<Longrightarrow> \<exists>r w'. storage_Get S k w = (Inr r, w')" "ok w \<Longrightarrow> \<exists>u w'. storage_Set S k v w = (Inr u, w')"
    "ok w \<Longrightarrow> \<exists>r w'. keyStore_Get K n w = (Inr r, w')" "ok w \<Longrightarrow> \<exists>u w'. keyStore_Set K n v w = (Inr u, w')"
begin

lemma converse_call:
  assumes "refines R (on_backing op) (on_backing op')" and "\<And>w. ok w \<Longrightarrow> \<exists>x w'. op w = (Inr x, w')"
  shows "refines (\<lambda>t s. R s t) (on_backing op') (on_backing op)"
proof (rule refinesI)
  fix t s x t'
  assume R: "R s t" and run: "on_backing op' t = (Inr x, t')"
  then have "ok (backing s)" by (simp add: as_memory_def)
  with assms(2) obtain y w' where op: "op (backing s) = (Inr y, w')" by blast
  then have "on_backing op s = (Inr y, s\<lparr>backing := w'\<rparr>)" by (simp add: on_backing_def)
  with refinesD [OF assms(1) R this] run show "\<exists>s'. on_backing op s = (Inr x, s') \<and> R s' t'" by auto
qed

end

sublocale total_backend \<subseteq> from_memory: related_services "\<lambda>t s. R s t" memory_service "NewService S K"
proof (unfold_locales, unfold NewService_simps memory_service_simps)
  note calls = memory.refines_calls [unfolded NewService_simps memory_service_simps]
  show "refines (\<lambda>t s. R s t) (on_backing (storage_Get MemoryStorage k)) (on_backing (storage_Get S k))" for k
    by (rule converse_call [OF calls(1) never_fails(1)])
  show "refines (\<lambda>t s. R s t) (on_backing (storage_Set MemoryStorage k v)) (on_backing (storage_Set S k v))" for k v
    by (rule converse_call [OF calls(2) never_fails(2)])
  show "refines (\<lambda>t s. R s t) (on_backing (keyStore_Get MemoryKeyStore n)) (on_backing (keyStore_Get K n))" for n
    by (rule converse_call [OF calls(3) never_fails(3)])
  show "refines (\<lambda>t s. R s t) (on_backing (keyStore_Set MemoryKeyStore n v)) (on_backing (keyStore_Set K n v))" for n v
    by (rule converse_call [OF calls(4) never_fails(4)])
qed (auto simp: as_memory_def)

interpretation mem: total_backend MemoryStorage MemoryKeyStore "\<lambda>_. True" store_data store_keys
  by unfold_locales (auto simp: memory_defs)

end
