(* ===== verification/Crypto.thy ===== *)
theory Crypto
  imports Codec Storage
begin

text \<open>
  \<open>internal/client/encryption/utils.go\<close>: random bytes, HKDF key derivation, the sealed
  payload format, invitation encryption, signatures, the identifiers of user and access
  records, and \<open>saveUser\<close>. The nonce is 12 bytes and the GCM overhead 16.
\<close>

section \<open>Randomness and key derivation\<close>

definition passwordSaltSize :: nat where
  "passwordSaltSize = 16"

definition masterKeySize :: nat where
  "masterKeySize = 32"

definition gcm_nonce_size :: nat where
  "gcm_nonce_size = 12"

definition gcm_overhead :: nat where
  "gcm_overhead = 16"

definition draw :: "(nat \<Rightarrow> 'a) \<Rightarrow> ('w st, 'a) prog" where
  "draw f s = (Inr (f (tick s)), s\<lparr>tick := Suc (tick s)\<rparr>)"

definition rand_error :: err where
  "rand_error = Msg ''crypto/rand: read error'' []"

definition randomBytes :: "provider \<Rightarrow> nat \<Rightarrow> ('w st, bytes) prog" where
  "randomBytes P n =
     bindE (draw (\<lambda>t. rand_read P t n)) (\<lambda>r.
     wrapE ''generate random bytes'' (someE rand_error r))"

definition uuidNew :: "provider \<Rightarrow> ('w st, uuid) prog" where
  "uuidNew P = draw (uuid_new P)"

definition hash :: "provider \<Rightarrow> bytes \<Rightarrow> bytes" where
  "hash P data = sha512 P data"

definition deriveKey :: "provider \<Rightarrow> bytes \<Rightarrow> bytes \<Rightarrow> bytes \<Rightarrow> bytes" where
  "deriveKey P secret salt info =
     (let prk = hmac_sha256 P salt secret in hmac_sha256 P prk (info @ [1]))"

definition argon2Key :: "provider \<Rightarrow> bytes \<Rightarrow> bytes \<Rightarrow> nat \<Rightarrow> bytes" where
  "argon2Key P password salt keyLen = argon2_id P password salt 3 (64 * 1024) 4 keyLen"

definition deriveMasterKey :: "provider \<Rightarrow> bytes \<Rightarrow> bytes \<Rightarrow> bytes" where
  "deriveMasterKey P password salt = argon2Key P password salt masterKeySize"

definition getPersonalKey :: "provider \<Rightarrow> bytes \<Rightarrow> gostr \<Rightarrow> bytes \<times> bytes" where
  "getPersonalKey P masterKey filename =
     (deriveKey P masterKey filename (lit ''sharelock/personal/encryption''),
      deriveKey P masterKey filename (lit ''sharelock/personal/authentication''))"

definition getFileKeys :: "provider \<Rightarrow> bytes \<Rightarrow> bytes \<times> bytes" where
  "getFileKeys P fileKey =
     (deriveKey P fileKey [] (lit ''sharelock/file/encryption''),
      deriveKey P fileKey [] (lit ''sharelock/file/authentication''))"

definition getMailKeys :: "provider \<Rightarrow> bytes \<Rightarrow> bytes \<times> bytes" where
  "getMailKeys P mailboxKey =
     (deriveKey P mailboxKey [] (lit ''sharelock/mailbox/encryption''),
      deriveKey P mailboxKey [] (lit ''sharelock/mailbox/authentication''))"

definition getUserKeys :: "provider \<Rightarrow> bytes \<Rightarrow> bytes \<times> bytes" where
  "getUserKeys P masterKey =
     (deriveKey P masterKey [] (lit ''sharelock/user/encryption''),
      deriveKey P masterKey [] (lit ''sharelock/user/authentication''))"

section \<open>Sealed payloads\<close>

text \<open>\<open>aes.NewCipher\<close> accepts keys of 16, 24 and 32 bytes; \<open>cipher.NewGCM\<close> accepts every AES cipher.\<close>

definition aes_NewCipher :: "bytes \<Rightarrow> err + bytes" where
  "aes_NewCipher key =
     (if length key \<in> {16, 24, 32} then Inr key else Inl (Msg ''crypto/aes: invalid key size'' []))"

definition no_keys :: err where
  "no_keys = Msg ''encryption and authentication keys must not be empty'' []"

definition data_key :: "provider \<Rightarrow> bytes \<Rightarrow> bytes \<Rightarrow> bytes" where
  "data_key P encKey macKey = deriveKey P encKey macKey (lit ''sharelock/data/aes-gcm'')"

definition encryptAndMAC :: "provider \<Rightarrow> bytes \<Rightarrow> bytes \<times> bytes \<Rightarrow> ('w st, bytes) prog" where
  "encryptAndMAC P data keys = (case keys of (encKey, macKey) \<Rightarrow>
     bindE (guardE (encKey \<noteq> [] \<and> macKey \<noteq> []) no_keys) (\<lambda>_.
     bindE (wrapE ''create AES cipher'' (liftE (aes_NewCipher (data_key P encKey macKey)))) (\<lambda>key.
     bindE (randomBytes P gcm_nonce_size) (\<lambda>nonce.
     ret ([1] @ nonce @ gcm_seal P key nonce data [])))))"

definition decryptAndVerify :: "provider \<Rightarrow> bytes \<Rightarrow> bytes \<times> bytes \<Rightarrow> err + bytes" where
  "decryptAndVerify P payload keys = (case keys of (encKey, macKey) \<Rightarrow>
     if encKey = [] \<or> macKey = [] then Inl no_keys
     else if length payload < 1 \<or> hd payload \<noteq> 1 then
       Inl (Msg ''unsupported or malformed encrypted payload'' [])
     else (case aes_NewCipher (data_key P encKey macKey) of
         Inl e \<Rightarrow> Inl (Wrap ''create AES cipher'' e)
       | Inr key \<Rightarrow>
           if length payload < 1 + gcm_nonce_size + gcm_overhead then
             Inl (Msg ''malformed encrypted payload: too short'' [])
           else
             (case gcm_open P key (take gcm_nonce_size (drop 1 payload))
                     (drop (1 + gcm_nonce_size) payload) [] of
                None \<Rightarrow> Inl (Wrap ''authenticated decryption failed''
                          (Msg ''cipher: message authentication failed'' []))
              | Some plaintext \<Rightarrow> Inr plaintext)))"

section \<open>Key pairs, invitations, signatures\<close>

definition x25519_key_error :: err where
  "x25519_key_error = Msg ''crypto/ecdh: invalid key'' []"

definition generateEncryptionKeyPair :: "provider \<Rightarrow> ('w st, bytes \<times> bytes) prog" where
  "generateEncryptionKeyPair P =
     bindE (draw (x25519_genkey P)) (\<lambda>r.
     bindE (wrapE ''generate X25519 key pair'' (someE rand_error r)) (\<lambda>private.
     ret (x25519_public P private, private)))"

definition generateSigningKeyPair :: "provider \<Rightarrow> ('w st, bytes \<times> bytes) prog" where
  "generateSigningKeyPair P =
     bindE (draw (ed25519_genkey P)) (\<lambda>r.
     wrapE ''generate Ed25519 key pair'' (someE rand_error r))"

definition x25519_key :: "bytes \<Rightarrow> err + bytes" where
  "x25519_key k = (if length k = 32 then Inr k else Inl x25519_key_error)"

definition ecdh_error :: err where
  "ecdh_error = Msg ''crypto/ecdh: bad X25519 remote ECDH input: low order point'' []"

definition invitation_key :: "provider \<Rightarrow> bytes \<Rightarrow> bytes \<Rightarrow> bytes" where
  "invitation_key P shared ephemeral = deriveKey P shared ephemeral (lit ''sharelock/invitation/aes-gcm'')"

definition encryptFor :: "provider \<Rightarrow> bytes \<Rightarrow> bytes \<Rightarrow> ('w st, bytes) prog" where
  "encryptFor P publicKey plaintext =
     bindE (wrapE ''parse recipient X25519 public key'' (liftE (x25519_key publicKey))) (\<lambda>recipientKey.
     bindE (draw (x25519_genkey P)) (\<lambda>r.
     bindE (wrapE ''generate ephemeral X25519 key'' (someE rand_error r)) (\<lambda>ephemeralKey.
     bindE (wrapE ''derive invitation key'' (someE ecdh_error (x25519_ecdh P ephemeralKey recipientKey))) (\<lambda>sharedSecret.
     let ephemeralPublic = x25519_public P ephemeralKey in
     bindE (wrapE ''create invitation cipher''
         (liftE (aes_NewCipher (invitation_key P sharedSecret ephemeralPublic)))) (\<lambda>key.
     bindE (randomBytes P gcm_nonce_size) (\<lambda>nonce.
     ret (ephemeralPublic @ nonce @ gcm_seal P key nonce plaintext ephemeralPublic)))))))"

definition publicKeySize :: nat where
  "publicKeySize = 32"

definition invitation_too_short :: err where
  "invitation_too_short = Msg ''invitation ciphertext is too short'' []"

definition decryptFor :: "provider \<Rightarrow> bytes \<Rightarrow> bytes \<Rightarrow> err + bytes" where
  "decryptFor P privateKey ciphertext =
     (if length ciphertext < publicKeySize then Inl invitation_too_short
      else (case x25519_key privateKey of
          Inl e \<Rightarrow> Inl (Wrap ''parse recipient X25519 private key'' e)
        | Inr recipientKey \<Rightarrow>
            let ephemeralPublic = take publicKeySize ciphertext in
            (case x25519_key ephemeralPublic of
               Inl e \<Rightarrow> Inl (Wrap ''parse ephemeral X25519 public key'' e)
             | Inr ephemeralKey \<Rightarrow>
                 (case x25519_ecdh P recipientKey ephemeralKey of
                    None \<Rightarrow> Inl (Wrap ''derive invitation key'' ecdh_error)
                  | Some sharedSecret \<Rightarrow>
                      (case aes_NewCipher (invitation_key P sharedSecret ephemeralPublic) of
                         Inl e \<Rightarrow> Inl (Wrap ''create invitation cipher'' e)
                       | Inr key \<Rightarrow>
                           if length ciphertext < publicKeySize + gcm_nonce_size + gcm_overhead then
                             Inl invitation_too_short
                           else
                             (case gcm_open P key (take gcm_nonce_size (drop publicKeySize ciphertext))
                                     (drop (publicKeySize + gcm_nonce_size) ciphertext) ephemeralPublic of
                                None \<Rightarrow> Inl (Wrap ''decrypt invitation''
                                          (Msg ''cipher: message authentication failed'' []))
                              | Some plaintext \<Rightarrow> Inr plaintext))))))"

definition ed25519_PrivateKeySize :: nat where
  "ed25519_PrivateKeySize = 64"

definition ed25519_PublicKeySize :: nat where
  "ed25519_PublicKeySize = 32"

definition ed25519_SignatureSize :: nat where
  "ed25519_SignatureSize = 64"

definition sign :: "provider \<Rightarrow> bytes \<Rightarrow> bytes \<Rightarrow> err + bytes" where
  "sign P privateKey message =
     (if length privateKey \<noteq> ed25519_PrivateKeySize then Inl (Msg ''invalid Ed25519 private key'' [])
      else Inr (ed25519_sign P privateKey message))"

definition verify :: "provider \<Rightarrow> bytes \<Rightarrow> bytes \<Rightarrow> bytes \<Rightarrow> err + unit" where
  "verify P publicKey message signature =
     (if length publicKey \<noteq> ed25519_PublicKeySize \<or> \<not> ed25519_verify P publicKey message signature
      then Inl (Msg ''invalid Ed25519 signature'' []) else Inr ())"

section \<open>Identifiers\<close>

definition userID :: "provider \<Rightarrow> gostr \<Rightarrow> err + uuid" where
  "userID P username =
     (let digest = hash P (lit ''sharelock/user-id/'' @ username) in uuid_from_bytes P (take 16 digest))"

definition access_input :: "gostr \<Rightarrow> gostr \<Rightarrow> bytes" where
  "access_input username filename = lit ''sharelock/access/'' @ username @ [0] @ filename"

definition accessID :: "provider \<Rightarrow> gostr \<Rightarrow> gostr \<Rightarrow> err + uuid" where
  "accessID P username filename =
     (let digest = hash P (access_input username filename) in uuid_from_bytes P (take 16 digest))"

section \<open>Saving a user\<close>

definition saveUser :: "provider \<Rightarrow> 'w StorageService \<Rightarrow> User \<Rightarrow> ('w st, unit) prog" where
  "saveUser P S u =
     (let userBytes = marshal_user P u in
      bindE (encryptAndMAC P userBytes (getUserKeys P (MasterKey u))) (\<lambda>sealedUser.
      bindE (guardE (length (PasswordSalt u) = passwordSaltSize) (Msg ''invalid password salt'' [])) (\<lambda>_.
      let payload = PasswordSalt u @ sealedUser in
      bindE (liftE (userID P (Username u))) (\<lambda>id.
      on_backing (storage_Set S id payload)))))"

section \<open>Running with a working provider\<close>

definition rnd :: "provider \<Rightarrow> nat \<Rightarrow> nat \<Rightarrow> bytes" where
  "rnd P n t = the (rand_read P t n)"

definition sealed :: "provider \<Rightarrow> nat \<Rightarrow> bytes \<Rightarrow> bytes \<times> bytes \<Rightarrow> bytes" where
  "sealed P t data keys =
     [1] @ rnd P gcm_nonce_size t
     @ gcm_seal P (data_key P (fst keys) (snd keys)) (rnd P gcm_nonce_size t) data []"

definition user_id :: "provider \<Rightarrow> gostr \<Rightarrow> uuid" where
  "user_id P username = take 16 (hash P (lit ''sharelock/user-id/'' @ username))"

definition access_id :: "provider \<Rightarrow> gostr \<Rightarrow> gostr \<Rightarrow> uuid" where
  "access_id P username filename = take 16 (hash P (access_input username filename))"

definition full_keys :: "bytes \<times> bytes \<Rightarrow> bool" where
  "full_keys keys \<longleftrightarrow> fst keys \<noteq> [] \<and> snd keys \<noteq> []"

lemma rnd_length: "rng_ok P \<Longrightarrow> length (rnd P n t) = n"
  unfolding rng_ok_def rnd_def by (metis option.sel)

lemma run_draw [run_simps]: "draw f s = (Inr (f (tick s)), s\<lparr>tick := Suc (tick s)\<rparr>)"
  by (simp add: draw_def)

lemma run_uuidNew [run_simps]: "uuidNew P s = (Inr (uuid_new P (tick s)), s\<lparr>tick := Suc (tick s)\<rparr>)"
  by (simp add: uuidNew_def draw_def)

lemma run_randomBytes:
  "rng_ok P \<Longrightarrow> randomBytes P n s = (Inr (rnd P n (tick s)), s\<lparr>tick := Suc (tick s)\<rparr>)"
proof -
  assume "rng_ok P"
  then obtain b where "rand_read P (tick s) n = Some b"
    unfolding rng_ok_def by blast
  then show ?thesis
    by (simp add: randomBytes_def run_bind run_draw run_wrap rnd_def)
qed

lemma randomBytes_fails:
  "rand_read P (tick s) n = None \<Longrightarrow>
   randomBytes P n s = (Inl (Wrap ''generate random bytes'' rand_error), s\<lparr>tick := Suc (tick s)\<rparr>)"
  by (simp add: randomBytes_def run_bind run_draw run_wrap)

lemma deriveKey_length: "digest_ok P \<Longrightarrow> length (deriveKey P k s i) = 32"
  by (simp add: deriveKey_def digest_ok_def Let_def)

lemma deriveKey_not_Nil: "digest_ok P \<Longrightarrow> deriveKey P k s i \<noteq> []"
  using deriveKey_length [of P k s i] by auto

lemma derived_full_keys:
  assumes "digest_ok P"
  shows "full_keys (getPersonalKey P k f)" "full_keys (getFileKeys P k)"
    "full_keys (getMailKeys P k)" "full_keys (getUserKeys P k)"
  using assms
  by (simp_all add: full_keys_def getPersonalKey_def getFileKeys_def getMailKeys_def
      getUserKeys_def deriveKey_not_Nil)

lemma data_key_length: "digest_ok P \<Longrightarrow> length (data_key P e m) = 32"
  by (simp add: data_key_def deriveKey_length)

lemma run_encryptAndMAC:
  assumes "rng_ok P" "digest_ok P" and "full_keys keys"
  shows "encryptAndMAC P d keys s = (Inr (sealed P (tick s) d keys), s\<lparr>tick := Suc (tick s)\<rparr>)"
  using assms
  by (cases keys)
    (simp add: encryptAndMAC_def run_bind run_guard run_wrap full_keys_def aes_NewCipher_def
      data_key_length run_randomBytes sealed_def)

lemma decrypt_sealed:
  assumes "rng_ok P" "digest_ok P" "gcm_ok P" and "full_keys keys"
  shows "decryptAndVerify P (sealed P t d keys) keys = Inr d"
  using assms
  by (cases keys)
    (simp add: decryptAndVerify_def sealed_def full_keys_def aes_NewCipher_def data_key_length
      gcm_ok_def gcm_nonce_size_def gcm_overhead_def rnd_length)

lemma length_sealed:
  assumes "rng_ok P" "digest_ok P" "gcm_ok P" and "full_keys keys"
  shows "length (sealed P t b keys) = 29 + length b"
proof -
  have "length (gcm_seal P (data_key P (fst keys) (snd keys)) (rnd P gcm_nonce_size t) b []) = length b + 16"
    using assms by (simp add: gcm_ok_def data_key_length rnd_length gcm_nonce_size_def)
  with assms(1) show ?thesis
    by (simp add: sealed_def rnd_length gcm_nonce_size_def)
qed

lemma run_userID:
  assumes "digest_ok P" "uuid_ok P"
  shows "userID P n = Inr (user_id P n)" and "length (user_id P n) = 16"
  using assms by (simp_all add: userID_def user_id_def hash_def digest_ok_def uuid_ok_def Let_def)

lemma run_accessID:
  assumes "digest_ok P" "uuid_ok P"
  shows "accessID P n f = Inr (access_id P n f)" and "length (access_id P n f) = 16"
  using assms by (simp_all add: accessID_def access_id_def hash_def digest_ok_def uuid_ok_def Let_def)

definition user_payload :: "provider \<Rightarrow> nat \<Rightarrow> User \<Rightarrow> bytes" where
  "user_payload P t u = PasswordSalt u @ sealed P t (marshal_user P u) (getUserKeys P (MasterKey u))"

lemma run_saveUser:
  assumes "rng_ok P" "digest_ok P" "uuid_ok P" and "length (PasswordSalt u) = passwordSaltSize"
  shows "saveUser P MemoryStorage u s =
    (Inr (), s\<lparr>tick := Suc (tick s),
       backing := (backing s)\<lparr>store_data :=
         (store_data (backing s))(user_id P (Username u) \<mapsto> user_payload P (tick s) u)\<rparr>\<rparr>)"
  using assms run_userID [OF assms(2,3)]
  by (simp add: saveUser_def run_bind run_encryptAndMAC derived_full_keys run_guard
      memory_runs user_payload_def)

lemma run_generateEncryptionKeyPair:
  assumes "rng_ok P"
  obtains k where "length k = 32"
    and "generateEncryptionKeyPair P s = (Inr (x25519_public P k, k), s\<lparr>tick := Suc (tick s)\<rparr>)"
proof -
  from assms obtain k where "x25519_genkey P (tick s) = Some k" and "length k = 32"
    unfolding rng_ok_def by blast
  then show thesis
    by (intro that [of k])
      (simp_all add: generateEncryptionKeyPair_def run_bind run_draw run_wrap)
qed

lemma run_generateSigningKeyPair:
  assumes "rng_ok P"
  obtains p k where "length p = 32" and "length k = 64" and "ed25519_genkey P (tick s) = Some (p, k)"
    and "generateSigningKeyPair P s = (Inr (p, k), s\<lparr>tick := Suc (tick s)\<rparr>)"
proof -
  from assms obtain p k where "ed25519_genkey P (tick s) = Some (p, k)"
    and "length p = 32" and "length k = 64"
    unfolding rng_ok_def by blast
  then show thesis
    by (intro that [of p k])
      (simp_all add: generateSigningKeyPair_def run_bind run_draw run_wrap)
qed

section \<open>Invitations and signatures\<close>

lemma encryptFor_decryptFor:
  assumes "provider_ok P" and "length sk = 32" and "encryptFor P (x25519_public P sk) m s = (r, s')"
  obtains c where "r = Inr c" and "decryptFor P sk c = Inr m" and "60 \<le> length c"
    and "backing s' = backing s" and "userdata s' = userdata s" and "tick s' = tick s + 2"
proof -
  note ok = provider_parts [OF assms(1)]
  from ok(1) obtain e where e: "x25519_genkey P (tick s) = Some e" "length e = 32"
    unfolding rng_ok_def by blast
  from ok(5) assms(2) e obtain z where z: "x25519_ecdh P e (x25519_public P sk) = Some z"
    "x25519_ecdh P sk (x25519_public P e) = Some z"
    unfolding dh_ok_def by blast
  have pub: "length (x25519_public P x) = 32" for x
    using ok(5) by (simp add: dh_ok_def)
  define key where "key = invitation_key P z (x25519_public P e)"
  define n where "n = rnd P 12 (Suc (tick s))"
  have key: "length key = 32" and n: "length n = 12"
    using ok by (simp_all add: key_def n_def invitation_key_def deriveKey_length rnd_length)
  define c where "c = x25519_public P e @ n @ gcm_seal P key n m (x25519_public P e)"
  have gcm: "gcm_open P key n (gcm_seal P key n m a) a = Some m"
      "length (gcm_seal P key n m a) = length m + 16" for a
    using ok(4) key n by (simp_all add: gcm_ok_def)
  have run: "encryptFor P (x25519_public P sk) m s = (Inr c, s\<lparr>tick := Suc (Suc (tick s))\<rparr>)"
    using e z pub key ok(1)
    by (simp add: encryptFor_def run_bind run_wrap run_draw x25519_key_def Let_def aes_NewCipher_def
        run_randomBytes gcm_nonce_size_def c_def n_def flip: key_def)
  have "decryptFor P sk c = Inr m"
    using assms(2) pub z key n gcm
    by (simp add: decryptFor_def c_def publicKeySize_def x25519_key_def Let_def aes_NewCipher_def
        gcm_nonce_size_def gcm_overhead_def flip: key_def)
  moreover have "60 \<le> length c"
    using pub n gcm by (simp add: c_def)
  ultimately show thesis
    using that run assms(3) by simp
qed

lemma verify_sign:
  assumes "rng_ok P" "sig_ok P" and "ed25519_genkey P t = Some (p, k)"
  shows "\<exists>g. sign P k m = Inr g \<and> length g = 64 \<and> verify P p m g = Inr ()"
proof -
  from assms(1,3) have "length p = 32" and "length k = 64"
    unfolding rng_ok_def by (metis option.inject prod.inject)+
  with assms(2,3) show ?thesis
    by (simp add: sign_def verify_def sig_ok_def ed25519_PrivateKeySize_def ed25519_PublicKeySize_def)
qed

section \<open>Identifiers of different records\<close>

lemma access_input_inj:
  assumes "0 \<notin> set n" and "0 \<notin> set n'" and "access_input n f = access_input n' f'"
  shows "n = n' \<and> f = f'"
proof -
  have eq: "n @ 0 # f = n' @ 0 # f'"
    using assms(3) by (simp add: access_input_def)
  from arg_cong [OF eq, of "takeWhile (\<lambda>c. c \<noteq> 0)"] assms(1,2) have "n = n'"
    by simp
  with eq show ?thesis
    by simp
qed

lemma access_input_collision:
  "access_input n (f @ 0 # g) = access_input (n @ 0 # f) g"
  by (simp add: access_input_def)

lemma access_input_not_user:
  "access_input n f \<noteq> lit ''sharelock/user-id/'' @ m"
  by (simp add: access_input_def lit_def)

section \<open>The provider's programs refine themselves\<close>

context related_services begin

lemma refines_draw [refine_intros]: "refines Q (draw f) (draw f)"
  by (rule refinesI) (use related_same related_tick in \<open>fastforce simp: draw_def\<close>)

lemma refines_uuidNew [refine_intros]: "refines Q (uuidNew P) (uuidNew P)"
  unfolding uuidNew_def by (rule refines_draw)

lemma refines_randomBytes [refine_intros]:
  "refines Q (randomBytes P n) (randomBytes P n)"
  unfolding randomBytes_def by (intro refine_intros)

lemma refines_encryptAndMAC [refine_intros]:
  "refines Q (encryptAndMAC P x keys) (encryptAndMAC P x keys)"
  unfolding encryptAndMAC_def by (intro refine_intros)

lemma refines_keypairs [refine_intros]:
  "refines Q (generateEncryptionKeyPair P) (generateEncryptionKeyPair P)"
  "refines Q (generateSigningKeyPair P) (generateSigningKeyPair P)"
  unfolding generateEncryptionKeyPair_def generateSigningKeyPair_def by (intro refine_intros)+

lemma refines_encryptFor [refine_intros]:
  "refines Q (encryptFor P pk m) (encryptFor P pk m)"
  unfolding encryptFor_def Let_def by (intro refine_intros)

lemma refines_saveUser [refine_intros]:
  "refines Q (saveUser P (storage V) u) (saveUser P (storage W) u)"
  unfolding saveUser_def Let_def by (intro refine_intros)

end

end
