(* ===== verification/UserService.thy ===== *)
theory UserService
  imports Crypto
begin

text \<open>
  \<open>UserService\<close> of \<open>internal/client/encryption/service.go\<close>: creating an account and logging in.
  In the error texts the quotation marks around a \<open>%s\<close> are left out.
\<close>

definition InitUser :: "provider \<Rightarrow> 'w Service \<Rightarrow> gostr \<Rightarrow> gostr \<Rightarrow> ('w st, User) prog" where
  "InitUser P svc username password =
     bindE (wrapE ''failed to generate user UUID'' (liftE (userID P username))) (\<lambda>userUUID.
     bindE (wrapE ''failed to check existing user'' (on_backing (storage_Get (storage svc) userUUID))) (\<lambda>existing.
     bindE (guardE (existing = None) (Msg ''user %s already exists'' [username])) (\<lambda>_.
     bindE (wrapE ''failed to generate password salt'' (randomBytes P passwordSaltSize)) (\<lambda>salt.
     let masterKey = deriveMasterKey P password salt in
     bindE (wrapE ''failed to generate encryption keys'' (generateEncryptionKeyPair P)) (\<lambda>(encryptionPublicKey, encryptionPrivateKey).
     bindE (wrapE ''failed to generate signing keys'' (generateSigningKeyPair P)) (\<lambda>(signingPublicKey, signingPrivateKey).
     bindE (wrapE ''failed to store encryption public key''
         (on_backing (keyStore_Set (keyStore svc) (username @ lit ''_enc_pub'') encryptionPublicKey))) (\<lambda>_.
     bindE (wrapE ''failed to store signing public key''
         (on_backing (keyStore_Set (keyStore svc) (username @ lit ''_sig_pub'') signingPublicKey))) (\<lambda>_.
     let u = \<lparr>Username = username, EncryptionPrivateKey = encryptionPrivateKey,
              SigningPrivateKey = signingPrivateKey, MasterKey = masterKey, PasswordSalt = salt,
              Files = Some fmempty\<rparr> in
     bindE (wrapE ''failed to save user data'' (saveUser P (storage svc) u)) (\<lambda>_.
     ret u)))))))))"

definition GetUser :: "provider \<Rightarrow> 'w Service \<Rightarrow> gostr \<Rightarrow> gostr \<Rightarrow> ('w st, User) prog" where
  "GetUser P svc username password =
     bindE (wrapE ''failed to generate user UUID'' (liftE (userID P username))) (\<lambda>userUUID.
     bindE (wrapE (''failed to load user '' @ name_text username) (on_backing (storage_Get (storage svc) userUUID))) (\<lambda>r.
     bindE (someE (Msg ''user %s not found'' [username]) r) (\<lambda>payload.
     bindE (guardE (\<not> length payload < passwordSaltSize)
         (Msg ''malformed user record: password salt is missing'' [])) (\<lambda>_.
     let salt = take passwordSaltSize payload;
         masterKey = deriveMasterKey P password salt in
     bindE (wrapE ''failed to decrypt user data''
         (liftE (decryptAndVerify P (drop passwordSaltSize payload) (getUserKeys P masterKey)))) (\<lambda>plaintext.
     bindE (wrapE ''failed to unmarshal user'' (liftE (unmarshal_user P plaintext))) (\<lambda>u.
     bindE (guardE (Username u = username)
         (Msg ''decrypted user data does not match requested username'' [])) (\<lambda>_.
     ret (u\<lparr>PasswordSalt := salt\<rparr>))))))))"

section \<open>Accounts in memory\<close>

text \<open>A user record as \<open>InitUser\<close> makes it, and as every later save leaves it.\<close>

definition good_user :: "User \<Rightarrow> bool" where
  "good_user u \<longleftrightarrow> wf_user u \<and> length (PasswordSalt u) = 16 \<and> length (EncryptionPrivateKey u) = 32 \<and>
     length (SigningPrivateKey u) = 64 \<and> Files u \<noteq> None"

text \<open>The stored record of \<open>u\<close>, which \<open>password\<close> opens.\<close>

definition account_at :: "provider \<Rightarrow> (uuid \<rightharpoonup> bytes) \<Rightarrow> gostr \<Rightarrow> User \<Rightarrow> bool" where
  "account_at P m password u \<longleftrightarrow>
     MasterKey u = deriveMasterKey P password (PasswordSalt u) \<and>
     (\<exists>t. m (user_id P (Username u)) = Some (user_payload P t u))"

lemma pub_names [simp]:
  "n @ lit ''_enc_pub'' = n' @ lit ''_enc_pub'' \<longleftrightarrow> n = n'"
  "n @ lit ''_sig_pub'' = n' @ lit ''_sig_pub'' \<longleftrightarrow> n = n'"
  "n @ lit ''_enc_pub'' \<noteq> n' @ lit ''_sig_pub''"
  "n @ lit ''_sig_pub'' \<noteq> n' @ lit ''_enc_pub''"
  by (simp_all add: append_eq_append_conv)

lemma InitUser_exists:
  assumes "digest_ok P" "uuid_ok P" and "store_data (backing s) (user_id P n) = Some r"
  shows "InitUser P memory_service n pw s = (Inl (Msg ''user %s already exists'' [n]), s)"
  using assms
  by (simp add: InitUser_def run_bind run_wrap run_userID memory_runs run_guard)

lemma InitUser_run:
  assumes "provider_ok P" and "store_data (backing s) (user_id P n) = None" and "utf8_valid n"
  obtains u s' p where "InitUser P memory_service n pw s = (Inr u, s')"
    and "good_user u" and "Username u = n" and "Files u = Some fmempty"
    and "account_at P (store_data (backing s')) pw u"
    and "store_data (backing s') = (store_data (backing s))(user_id P n \<mapsto> user_payload P (tick s + 3) u)"
    and "store_keys (backing s') = (store_keys (backing s))
           (n @ lit ''_enc_pub'' \<mapsto> x25519_public P (EncryptionPrivateKey u), n @ lit ''_sig_pub'' \<mapsto> p)"
    and "ed25519_genkey P (tick s + 2) = Some (p, SigningPrivateKey u)"
    and "tick s' = tick s + 4" and "userdata s' = userdata s"
proof -
  note ok = provider_parts [OF assms(1)]
  define s1 where "s1 = s\<lparr>tick := Suc (tick s)\<rparr>"
  obtain k where k: "length k = 32"
    "generateEncryptionKeyPair P s1 = (Inr (x25519_public P k, k), s1\<lparr>tick := Suc (tick s1)\<rparr>)"
    using ok(1) by (rule run_generateEncryptionKeyPair)
  define s2 where "s2 = s1\<lparr>tick := Suc (tick s1)\<rparr>"
  obtain p g where g: "length p = 32" "length g = 64" "ed25519_genkey P (tick s2) = Some (p, g)"
    "generateSigningKeyPair P s2 = (Inr (p, g), s2\<lparr>tick := Suc (tick s2)\<rparr>)"
    using ok(1) by (rule run_generateSigningKeyPair)
  define salt where "salt = rnd P 16 (tick s)"
  have salt: "length salt = 16"
    by (simp add: salt_def rnd_length ok)
  define u where "u = \<lparr>Username = n, EncryptionPrivateKey = k, SigningPrivateKey = g,
    MasterKey = deriveMasterKey P pw salt, PasswordSalt = salt, Files = Some fmempty\<rparr>"
  have ticks: "tick s1 = tick s + 1" "tick s2 = tick s + 2"
    by (simp_all add: s1_def s2_def)
  let ?w = "(backing s)\<lparr>store_data := (store_data (backing s))(user_id P n \<mapsto> user_payload P (tick s + 3) u),
     store_keys := (store_keys (backing s))(n @ lit ''_enc_pub'' \<mapsto> x25519_public P k, n @ lit ''_sig_pub'' \<mapsto> p)\<rparr>"
  have run: "InitUser P memory_service n pw s = (Inr u, s\<lparr>tick := tick s + 4, backing := ?w\<rparr>)"
    using k(2) g(4) assms(2) salt ok
    by (simp add: InitUser_def run_bind run_wrap run_userID memory_runs run_guard run_randomBytes
        Let_def run_saveUser passwordSaltSize_def u_def salt_def s1_def s2_def numeral_eq_Suc
        del: append_eq_append_conv)
  show thesis
    using k(1) g(2,3) salt assms(3) ticks
    by (intro that [OF run])
      (auto simp: u_def good_user_def wf_user_def account_at_def)
qed

lemma GetUser_run:
  assumes "provider_ok P" and "good_user u" and "account_at P (store_data (backing s)) pw u"
  shows "GetUser P memory_service (Username u) pw s = (Inr u, s)"
proof -
  note ok = provider_parts [OF assms(1)]
  from assms(2) have salt: "length (PasswordSalt u) = 16" and wf: "wf_user u"
    by (simp_all add: good_user_def)
  from assms(3) obtain t
    where mk: "MasterKey u = deriveMasterKey P pw (PasswordSalt u)"
      and m: "store_data (backing s) (user_id P (Username u)) = Some (user_payload P t u)"
    by (auto simp: account_at_def)
  show ?thesis
    using m salt wf ok
    by (simp add: GetUser_def run_bind run_wrap run_userID memory_runs run_guard Let_def
        user_payload_def passwordSaltSize_def decrypt_sealed derived_full_keys flip: mk)
qed

lemma GetUser_missing:
  assumes "digest_ok P" "uuid_ok P" and "store_data (backing s) (user_id P n) = None"
  shows "GetUser P memory_service n pw s = (Inl (Msg ''user %s not found'' [n]), s)"
  using assms
  by (simp add: GetUser_def run_bind run_wrap run_userID memory_runs)

section \<open>Over any backend\<close>

context related_services begin

lemma refines_InitUser [refine_intros]:
  "refines Q (InitUser P V n pw) (InitUser P W n pw)"
  unfolding InitUser_def Let_def by (intro refine_intros)

lemma refines_GetUser [refine_intros]:
  "refines Q (GetUser P V n pw) (GetUser P W n pw)"
  unfolding GetUser_def Let_def by (intro refine_intros)

end

end
