(* ===== verification/FileBlocks.thy ===== *)
theory FileBlocks
  imports Types
begin

text \<open>
  \<open>internal/client/encryption/File.go\<close>: cutting a file into blocks of at most 512 bytes and
  putting blocks back together. A \<open>*list.List\<close> of \<open>*FileBlock\<close> is a list, \<open>None\<close> when nil.
\<close>

definition BlockSize :: nat where
  "BlockSize = 512"

record FileBlock =
  BlockUUID :: uuid
  block :: bytes

definition ByteToBlock :: "bytes \<Rightarrow> FileBlock list" where
  "ByteToBlock data =
     (let total = length data;
          blockNum = (total + BlockSize - 1) div BlockSize
      in map (\<lambda>i. let start = i * BlockSize;
                      end = (if start + BlockSize > total then total else start + BlockSize)
                  in \<lparr>BlockUUID = uuid_nil, block = take (end - start) (drop start data)\<rparr>)
           [0..<blockNum])"

definition BlockYToByte :: "FileBlock list option \<Rightarrow> int \<Rightarrow> bytes" where
  "BlockYToByte blocks totalSize =
     (case blocks of None \<Rightarrow> []
      | Some bs \<Rightarrow>
          if totalSize \<le> 0 \<or> bs = [] then []
          else let r = concat (map block bs)
               in if int (length r) > totalSize then take (nat totalSize) r else r)"

text \<open>The rounding in \<open>blockNum\<close>.\<close>

lemma ceil_div_upper: "(n :: nat) \<le> (n + BlockSize - 1) div BlockSize * BlockSize"
proof -
  have "(n + BlockSize - 1) mod BlockSize \<le> BlockSize - 1"
    using mod_less_divisor [of BlockSize "n + BlockSize - 1"] by (simp add: BlockSize_def)
  with div_mult_mod_eq [of "n + BlockSize - 1" BlockSize] show ?thesis
    by (simp add: BlockSize_def)
qed

lemma less_ceil_div: "i < (n + BlockSize - 1) div BlockSize \<longleftrightarrow> i * BlockSize < n"
proof -
  have "i < (n + BlockSize - 1) div BlockSize \<longleftrightarrow> Suc i * BlockSize \<le> n + BlockSize - 1"
    by (subst less_eq_div_iff_mult_less_eq [symmetric]) (auto simp: BlockSize_def)
  then show ?thesis
    by (auto simp: BlockSize_def)
qed

lemma concat_slices:
  "concat (map (\<lambda>i. take n (drop (i * n) xs)) [0..<k]) = take (k * n) xs"
proof (induction k)
  case (Suc k)
  have "take (k * n) xs @ take n (drop (k * n) xs) = take (k * n + n) xs"
    by (rule take_add [symmetric])
  with Suc show ?case
    by (simp add: add.commute)
qed simp

lemma blocks_are_slices:
  "map block (ByteToBlock data) =
     map (\<lambda>i. take BlockSize (drop (i * BlockSize) data)) [0..<(length data + BlockSize - 1) div BlockSize]"
  by (auto simp: ByteToBlock_def Let_def comp_def)

lemma length_ByteToBlock: "length (ByteToBlock data) = (length data + BlockSize - 1) div BlockSize"
  by (simp add: ByteToBlock_def Let_def)

lemma concat_ByteToBlock [simp]: "concat (map block (ByteToBlock data)) = data"
proof -
  have "length data \<le> (length data + BlockSize - 1) div BlockSize * BlockSize"
    by (rule ceil_div_upper)
  then show ?thesis
    by (simp add: blocks_are_slices concat_slices)
qed

lemma ByteToBlock_sizes:
  assumes "b \<in> set (ByteToBlock data)"
  shows "0 < length (block b)" and "length (block b) \<le> BlockSize"
proof -
  from assms have "block b \<in> set (map block (ByteToBlock data))"
    by simp
  then obtain i where i: "i < (length data + BlockSize - 1) div BlockSize"
    and b: "block b = take BlockSize (drop (i * BlockSize) data)"
    unfolding blocks_are_slices by auto
  from i have "i * BlockSize < length data"
    by (simp only: less_ceil_div)
  with b show "0 < length (block b)" and "length (block b) \<le> BlockSize"
    by (simp_all add: BlockSize_def)
qed

lemma ByteToBlock_full:
  assumes "Suc i < length (ByteToBlock data)"
  shows "length (block (ByteToBlock data ! i)) = BlockSize"
proof -
  have "block (ByteToBlock data ! i) = map block (ByteToBlock data) ! i"
    using assms by simp
  also have "\<dots> = take BlockSize (drop (i * BlockSize) data)"
    using assms unfolding blocks_are_slices by (simp add: length_ByteToBlock)
  finally have b: "block (ByteToBlock data ! i) = take BlockSize (drop (i * BlockSize) data)" .
  have "Suc i * BlockSize < length data"
    using assms unfolding length_ByteToBlock by (simp only: less_ceil_div)
  with b show ?thesis by simp
qed

lemma ByteToBlock_Nil_iff: "ByteToBlock data = [] \<longleftrightarrow> data = []"
proof
  assume "ByteToBlock data = []"
  then show "data = []"
    using concat_ByteToBlock [of data] by (metis concat.simps(1) list.map(1))
qed (simp add: ByteToBlock_def BlockSize_def)

lemma BlockYToByte_prefix:
  assumes "0 \<le> n" and "n \<le> int (length data)"
  shows "BlockYToByte (Some (ByteToBlock data)) n = take (nat n) data"
  using assms by (simp add: BlockYToByte_def Let_def ByteToBlock_Nil_iff)

lemma BlockYToByte_inverse: "BlockYToByte (Some (ByteToBlock data)) (int (length data)) = data"
  by (simp add: BlockYToByte_prefix)

end
