(* ===== verification/FileService.thy ===== *)
theory FileService
  imports UserService FileBlocks
begin

text \<open>
  \<open>FileService\<close> of \<open>internal/client/encryption/service.go\<close>: storing, loading, appending and
  listing files. The methods work on the state's \<open>userdata\<close>, the value their \<open>*User\<close> argument
  points to. A file is a chain of sealed records: access record, mailbox, inode, blocks; each
  gives the place and the key of the next one.
\<close>

section \<open>Steps the methods share\<close>

definition wrapO :: "string option \<Rightarrow> ('s, 'a) prog \<Rightarrow> ('s, 'a) prog" where
  "wrapO c m = (case c of None \<Rightarrow> m | Some c \<Rightarrow> wrapE c m)"

text \<open>
  The sequence \<open>storage.Get\<close>, \<open>if !ok\<close>, \<open>decryptAndVerify\<close>, \<open>json.Unmarshal\<close> with which every
  method reads one record of the chain. The messages differ from place to place.
\<close>

definition open_record ::
  "provider \<Rightarrow> 'w StorageService \<Rightarrow> string \<Rightarrow> err \<Rightarrow> string option \<Rightarrow> string option
   \<Rightarrow> uuid \<Rightarrow> bytes \<times> bytes \<Rightarrow> (bytes \<Rightarrow> err + 'a) \<Rightarrow> ('w st, 'a) prog"
where
  "open_record P S load_ctx missing decrypt_ctx unmarshal_ctx i keys unm =
     bindE (wrapE load_ctx (on_backing (storage_Get S i))) (\<lambda>r.
     bindE (someE missing r) (\<lambda>payload.
     bindE (wrapO decrypt_ctx (liftE (decryptAndVerify P payload keys))) (\<lambda>b.
     wrapO unmarshal_ctx (liftE (unm b)))))"

text \<open>The sequence \<open>encryptAndMAC\<close>, \<open>storage.Set\<close>.\<close>

definition seal_record ::
  "provider \<Rightarrow> 'w StorageService \<Rightarrow> string option \<Rightarrow> string \<Rightarrow> uuid \<Rightarrow> bytes \<times> bytes \<Rightarrow> bytes
   \<Rightarrow> ('w st, unit) prog"
where
  "seal_record P S encrypt_ctx store_ctx i keys b =
     bindE (wrapO encrypt_ctx (encryptAndMAC P b keys)) (\<lambda>payload.
     wrapE store_ctx (on_backing (storage_Set S i payload)))"

text \<open>The block loop of \<open>StoreFile\<close> and \<open>AppendToFile\<close>; the result is what is appended to \<open>BlockUUIDs\<close>.\<close>

fun store_blocks ::
  "provider \<Rightarrow> 'w StorageService \<Rightarrow> string option \<Rightarrow> string \<Rightarrow> bytes \<times> bytes \<Rightarrow> FileBlock list
   \<Rightarrow> ('w st, uuid list) prog"
where
  "store_blocks P S encrypt_ctx store_ctx keys [] = ret []"
| "store_blocks P S encrypt_ctx store_ctx keys (fb # fbs) =
     bindE (uuidNew P) (\<lambda>blockUUID.
     bindE (seal_record P S encrypt_ctx store_ctx blockUUID keys (block fb)) (\<lambda>_.
     bindE (store_blocks P S encrypt_ctx store_ctx keys fbs) (\<lambda>us.
     ret (blockUUID # us))))"

text \<open>The block loop of \<open>LoadFile\<close>.\<close>

fun load_blocks ::
  "provider \<Rightarrow> 'w StorageService \<Rightarrow> gostr \<Rightarrow> bytes \<times> bytes \<Rightarrow> uuid list \<Rightarrow> ('w st, bytes) prog"
where
  "load_blocks P S filename keys [] = ret []"
| "load_blocks P S filename keys (u # us) =
     bindE (open_record P S ''failed to load data block''
         (Msg ''data block not found for file %s (data may be corrupted)'' [filename])
         (Some ''failed to decrypt block'') None u keys Inr) (\<lambda>blockPlaintext.
     bindE (load_blocks P S filename keys us) (\<lambda>rest.
     ret (blockPlaintext @ rest)))"

text \<open>\<open>userdata.Files[filename] = id\<close>; writing to a nil map panics.\<close>

definition set_file :: "gostr \<Rightarrow> uuid \<Rightarrow> ('w st, unit) prog" where
  "set_file filename i s =
     (case Files (userdata s) of
        None \<Rightarrow> (Inl (Panic ''assignment to entry in nil map''), s)
      | Some m \<Rightarrow> (Inr (), s\<lparr>userdata := (userdata s)\<lparr>Files := Some (fmupd filename i m)\<rparr>\<rparr>))"

definition make_files :: "('w st, unit) prog" where
  "make_files = modify (\<lambda>s. case Files (userdata s) of
       None \<Rightarrow> s\<lparr>userdata := (userdata s)\<lparr>Files := Some fmempty\<rparr>\<rparr> | Some _ \<Rightarrow> s)"

text \<open>\<open>len\<close> and \<open>+=\<close> on Go's 64-bit \<open>int\<close>.\<close>

definition wrap64 :: "int \<Rightarrow> int" where
  "wrap64 i = signed_take_bit 63 i"

section \<open>The methods\<close>

definition StoreFile :: "provider \<Rightarrow> 'w Service \<Rightarrow> gostr \<Rightarrow> bytes \<Rightarrow> ('w st, unit) prog" where
  "StoreFile P svc filename content =
     bindE make_files (\<lambda>_.
     bindE (gets userdata) (\<lambda>u.
     bindE (wrapE ''failed to generate file key'' (randomBytes P masterKeySize)) (\<lambda>fileKey.
     bindE (uuidNew P) (\<lambda>inodeUUID.
     let mailboxBytes = marshal_mailbox P \<lparr>FileKey = fileKey, InodeUUID = inodeUUID\<rparr> in
     bindE (uuidNew P) (\<lambda>mailboxUUID.
     bindE (wrapE ''failed to generate mailbox key'' (randomBytes P masterKeySize)) (\<lambda>mailboxKey.
     bindE (seal_record P (storage svc) (Some ''failed to encrypt mailbox'') ''failed to store mailbox''
         mailboxUUID (getMailKeys P mailboxKey) mailboxBytes) (\<lambda>_.
     let access = \<lparr>MymailboxUUID = mailboxUUID, MymailboxKey = mailboxKey, Children = Some fmempty\<rparr>;
         accessBytes = marshal_access P access in
     bindE (wrapE ''failed to encrypt access''
         (encryptAndMAC P accessBytes (getPersonalKey P (MasterKey u) filename))) (\<lambda>accessPayload.
     bindE (wrapE ''failed to generate access UUID'' (liftE (accessID P (Username u) filename))) (\<lambda>accessUUID.
     bindE (wrapE ''failed to store access metadata''
         (on_backing (storage_Set (storage svc) accessUUID accessPayload))) (\<lambda>_.
     bindE (store_blocks P (storage svc) (Some ''failed to encrypt block'') ''failed to store data block''
         (getFileKeys P fileKey) (ByteToBlock content)) (\<lambda>blockUUIDs.
     let inode = \<lparr>Size = int (length content), BlockUUIDs = blockUUIDs\<rparr>;
         inodeBytes = marshal_inode P inode in
     bindE (seal_record P (storage svc) (Some ''failed to encrypt inode'') ''failed to store inode''
         inodeUUID (getFileKeys P fileKey) inodeBytes) (\<lambda>_.
     bindE (set_file filename accessUUID) (\<lambda>_.
     bindE (gets userdata) (\<lambda>u.
     saveUser P (storage svc) u))))))))))))))"

definition LoadFile :: "provider \<Rightarrow> 'w Service \<Rightarrow> gostr \<Rightarrow> ('w st, bytes) prog" where
  "LoadFile P svc filename =
     bindE (gets userdata) (\<lambda>u.
     bindE (wrapE ''failed to generate access UUID'' (liftE (accessID P (Username u) filename))) (\<lambda>accessUUID.
     bindE (open_record P (storage svc) ''failed to load access metadata''
         (Msg ''file %s not found for user %s'' [filename, Username u])
         (Some ''failed to decrypt access'') (Some ''failed to unmarshal access'')
         accessUUID (getPersonalKey P (MasterKey u) filename) (unmarshal_access P)) (\<lambda>access.
     bindE (open_record P (storage svc) ''failed to load mailbox''
         (Msg ''mailbox not found for file %s (data may be corrupted)'' [filename])
         (Some ''failed to decrypt mailbox'') (Some ''failed to unmarshal mailbox'')
         (MymailboxUUID access) (getMailKeys P (MymailboxKey access)) (unmarshal_mailbox P)) (\<lambda>myMailbox.
     bindE (open_record P (storage svc) ''failed to load inode''
         (Msg ''inode not found for file %s (data may be corrupted)'' [filename])
         (Some ''failed to decrypt inode'') (Some ''failed to unmarshal inode'')
         (InodeUUID myMailbox) (getFileKeys P (FileKey myMailbox)) (unmarshal_inode P)) (\<lambda>inode.
     load_blocks P (storage svc) filename (getFileKeys P (FileKey myMailbox)) (BlockUUIDs inode))))))"

text \<open>\<open>content\<close> is \<open>None\<close> for a nil slice.\<close>

definition AppendToFile :: "provider \<Rightarrow> 'w Service \<Rightarrow> gostr \<Rightarrow> bytes option \<Rightarrow> ('w st, unit) prog" where
  "AppendToFile P svc filename content =
     bindE (someE (Msg ''content cannot be nil'' []) content) (\<lambda>content.
     bindE (gets userdata) (\<lambda>u.
     bindE (wrapE ''failed to generate access UUID'' (liftE (accessID P (Username u) filename))) (\<lambda>accessUUID.
     bindE (open_record P (storage svc) ''failed to load access metadata''
         (Msg ''file %s not found (cannot append)'' [filename]) None None
         accessUUID (getPersonalKey P (MasterKey u) filename) (unmarshal_access P)) (\<lambda>access.
     bindE (open_record P (storage svc) ''failed to load mailbox''
         (Msg ''mailbox not found for file %s (cannot append)'' [filename]) None None
         (MymailboxUUID access) (getMailKeys P (MymailboxKey access)) (unmarshal_mailbox P)) (\<lambda>myMailbox.
     bindE (open_record P (storage svc) ''failed to load inode''
         (Msg ''inode not found for file %s (cannot append)'' [filename]) None None
         (InodeUUID myMailbox) (getFileKeys P (FileKey myMailbox)) (unmarshal_inode P)) (\<lambda>inode.
     bindE (store_blocks P (storage svc) None ''failed to store appended data block''
         (getFileKeys P (FileKey myMailbox)) (ByteToBlock content)) (\<lambda>newUUIDs.
     let inode' = inode\<lparr>BlockUUIDs := BlockUUIDs inode @ newUUIDs,
                        Size := wrap64 (Size inode + int (length content))\<rparr>;
         newInodeBytes = marshal_inode P inode' in
     seal_record P (storage svc) (Some ''failed to encrypt inode'') ''failed to store updated inode''
       (InodeUUID myMailbox) (getFileKeys P (FileKey myMailbox)) newInodeBytes)))))))"

text \<open>Go ranges over the map in some order of its keys.\<close>

definition ListFiles :: "provider \<Rightarrow> ('w st, gostr list) prog" where
  "ListFiles P =
     bindE (gets userdata) (\<lambda>u.
     (case Files u of
        None \<Rightarrow> ret []
      | Some m \<Rightarrow> draw (\<lambda>t. map_order P t (sorted_list_of_fset (fmdom m)))))"

section \<open>What the storage holds\<close>

text \<open>
  The abstract view of the records: \<open>reads_at P m i keys unm x\<close> says that the payload at \<open>i\<close>
  opens under \<open>keys\<close> and unmarshals to \<open>x\<close>. A \<open>file_view\<close> is the whole chain of one user's file.
\<close>

definition reads_at ::
  "provider \<Rightarrow> (uuid \<rightharpoonup> bytes) \<Rightarrow> uuid \<Rightarrow> bytes \<times> bytes \<Rightarrow> (bytes \<Rightarrow> err + 'a) \<Rightarrow> 'a \<Rightarrow> bool"
where
  "reads_at P m i keys unm x \<longleftrightarrow>
     (\<exists>p b. m i = Some p \<and> decryptAndVerify P p keys = Inr b \<and> unm b = Inr x)"

definition access_at :: "provider \<Rightarrow> (uuid \<rightharpoonup> bytes) \<Rightarrow> User \<Rightarrow> gostr \<Rightarrow> Access \<Rightarrow> bool" where
  "access_at P m u f a \<longleftrightarrow>
     reads_at P m (access_id P (Username u) f) (getPersonalKey P (MasterKey u) f) (unmarshal_access P) a"

definition mailbox_at :: "provider \<Rightarrow> (uuid \<rightharpoonup> bytes) \<Rightarrow> uuid \<Rightarrow> bytes \<Rightarrow> MailboxNode \<Rightarrow> bool" where
  "mailbox_at P m i key mb \<longleftrightarrow> reads_at P m i (getMailKeys P key) (unmarshal_mailbox P) mb"

definition inode_at :: "provider \<Rightarrow> (uuid \<rightharpoonup> bytes) \<Rightarrow> MailboxNode \<Rightarrow> Inode \<Rightarrow> bool" where
  "inode_at P m mb ino \<longleftrightarrow>
     reads_at P m (InodeUUID mb) (getFileKeys P (FileKey mb)) (unmarshal_inode P) ino"

definition blocks_at :: "provider \<Rightarrow> (uuid \<rightharpoonup> bytes) \<Rightarrow> bytes \<Rightarrow> uuid list \<Rightarrow> bytes list \<Rightarrow> bool" where
  "blocks_at P m k us bs \<longleftrightarrow> list_all2 (\<lambda>i b. reads_at P m i (getFileKeys P k) Inr b) us bs"

definition file_view ::
  "provider \<Rightarrow> (uuid \<rightharpoonup> bytes) \<Rightarrow> User \<Rightarrow> gostr \<Rightarrow> Access \<Rightarrow> MailboxNode \<Rightarrow> Inode \<Rightarrow> bytes list \<Rightarrow> bool"
where
  "file_view P m u f a mb ino bs \<longleftrightarrow>
     access_at P m u f a \<and> mailbox_at P m (MymailboxUUID a) (MymailboxKey a) mb \<and>
     inode_at P m mb ino \<and> blocks_at P m (FileKey mb) (BlockUUIDs ino) bs"

text \<open>The places of a view, in the order they are read.\<close>

definition view_ids :: "provider \<Rightarrow> User \<Rightarrow> gostr \<Rightarrow> Access \<Rightarrow> MailboxNode \<Rightarrow> Inode \<Rightarrow> uuid list" where
  "view_ids P u f a mb ino = access_id P (Username u) f # MymailboxUUID a # InodeUUID mb # BlockUUIDs ino"

text \<open>The UUIDs that the next \<open>n\<close> draws would give are pairwise different and not in use.\<close>

definition fresh_uuids :: "provider \<Rightarrow> nat \<Rightarrow> nat \<Rightarrow> uuid set \<Rightarrow> bool" where
  "fresh_uuids P t n used \<longleftrightarrow>
     distinct (map (uuid_new P) [t..<t + n]) \<and> (\<forall>i \<in> {t..<t + n}. uuid_new P i \<notin> used)"

lemma fresh_uuids_D:
  assumes "fresh_uuids P t n used"
  shows "t \<le> i \<Longrightarrow> i < t + n \<Longrightarrow> uuid_new P i \<notin> used"
    and "t \<le> i \<Longrightarrow> i < t + n \<Longrightarrow> t \<le> j \<Longrightarrow> j < t + n \<Longrightarrow> uuid_new P i = uuid_new P j \<longleftrightarrow> i = j"
  using assms by (auto simp: fresh_uuids_def distinct_map inj_on_def)

lemma reads_at_cong: "m' i = m i \<Longrightarrow> reads_at P m' i keys unm x = reads_at P m i keys unm x"
  by (simp add: reads_at_def)

lemma reads_at_dom: "reads_at P m i keys unm x \<Longrightarrow> i \<in> dom m"
  by (auto simp: reads_at_def)

lemma blocks_at_cong:
  assumes "\<And>i. i \<in> set us \<Longrightarrow> m' i = m i"
  shows "blocks_at P m' k us bs = blocks_at P m k us bs"
  unfolding blocks_at_def
proof (rule list.rel_cong)
  fix i b
  assume "i \<in> set us"
  with assms show "reads_at P m' i (getFileKeys P k) Inr b = reads_at P m i (getFileKeys P k) Inr b"
    by (intro reads_at_cong) simp
qed simp_all

lemma blocks_at_upd [simp]:
  "i \<notin> set us \<Longrightarrow> blocks_at P (m(i := v)) k us bs = blocks_at P m k us bs"
  by (rule blocks_at_cong) auto

text \<open>A view depends on its own places only.\<close>

lemma file_view_frame:
  assumes "file_view P m u f a mb ino bs" and "\<And>i. i \<in> set (view_ids P u f a mb ino) \<Longrightarrow> m' i = m i"
  shows "file_view P m' u f a mb ino bs"
proof -
  have same: "m' (access_id P (Username u) f) = m (access_id P (Username u) f)"
      "m' (MymailboxUUID a) = m (MymailboxUUID a)" "m' (InodeUUID mb) = m (InodeUUID mb)"
    using assms(2) by (simp_all add: view_ids_def)
  have "blocks_at P m' (FileKey mb) (BlockUUIDs ino) bs"
    using assms by (subst blocks_at_cong [of _ _ m]) (simp_all add: view_ids_def file_view_def)
  with assms(1) show ?thesis
    by (simp add: file_view_def access_at_def mailbox_at_def inode_at_def reads_at_def same)
qed

lemma reads_at_sealed:
  assumes "provider_ok P" and "full_keys keys" and "m i = Some (sealed P t b keys)" and "unm b = Inr x"
  shows "reads_at P m i keys unm x"
  using assms provider_parts [OF assms(1)] by (simp add: reads_at_def decrypt_sealed)

lemma blocks_at_append:
  "blocks_at P m k us bs \<Longrightarrow> blocks_at P m k vs cs \<Longrightarrow> blocks_at P m k (us @ vs) (bs @ cs)"
  unfolding blocks_at_def by (rule list_all2_appendI)

lemma reads_at_unique: "reads_at P m i k unm x \<Longrightarrow> reads_at P m i k unm y \<Longrightarrow> x = y"
  by (auto simp: reads_at_def)

section \<open>Runs in memory\<close>

lemma run_wrapO_Inr: "m s = (Inr x, s') \<Longrightarrow> wrapO c m s = (Inr x, s')"
  by (simp add: wrapO_def wrapE_def split: option.split)

lemma run_open_record:
  assumes "reads_at P (store_data (backing s)) i keys unm x"
  shows "open_record P MemoryStorage c1 e c2 c3 i keys unm s = (Inr x, s)"
  using assms
  by (auto simp: reads_at_def open_record_def run_bind run_wrap memory_runs run_wrapO_Inr)

lemma open_record_Inr:
  "open_record P MemoryStorage c1 e c2 c3 i keys unm s = (Inr x, s') \<longleftrightarrow>
     reads_at P (store_data (backing s)) i keys unm x \<and> s' = s"
proof
  assume "open_record P MemoryStorage c1 e c2 c3 i keys unm s = (Inr x, s')"
  then show "reads_at P (store_data (backing s)) i keys unm x \<and> s' = s"
    by (auto simp: reads_at_def open_record_def run_bind run_wrap memory_runs someE_def wrapO_def
        split: option.splits sum.splits prod.splits)
qed (auto intro: run_open_record)

lemma open_record_missing:
  assumes "store_data (backing s) i = None"
  shows "open_record P MemoryStorage c1 e c2 c3 i keys unm s = (Inl e, s)"
  using assms by (simp add: open_record_def run_bind run_wrap memory_runs)

lemma open_record_rejected:
  assumes "store_data (backing s) i = Some p" and "decryptAndVerify P p keys = Inl e"
  shows "open_record P MemoryStorage c1 e1 (Some c2) c3 i keys unm s = (Inl (Wrap c2 e), s)"
    and "open_record P MemoryStorage c1 e1 None c3 i keys unm s = (Inl e, s)"
  using assms by (simp_all add: open_record_def run_bind run_wrap memory_runs wrapO_def)

definition write_data :: "mworld st \<Rightarrow> nat \<Rightarrow> (uuid \<rightharpoonup> bytes) \<Rightarrow> mworld st" where
  "write_data s t m = s\<lparr>tick := t, backing := (backing s)\<lparr>store_data := m\<rparr>\<rparr>"

lemma write_data_simps [simp]:
  "tick (write_data s t m) = t" "userdata (write_data s t m) = userdata s"
  "store_data (backing (write_data s t m)) = m"
  "store_keys (backing (write_data s t m)) = store_keys (backing s)"
  "write_data (write_data s t m) t' m' = write_data s t' m'"
  by (simp_all add: write_data_def)

lemma run_seal_record:
  assumes "provider_ok P" and "full_keys keys"
  shows "seal_record P MemoryStorage c1 c2 i keys b s =
    (Inr (), write_data s (Suc (tick s)) ((store_data (backing s))(i \<mapsto> sealed P (tick s) b keys)))"
  using assms provider_parts [OF assms(1)]
  by (simp add: seal_record_def run_bind run_wrap memory_runs run_wrapO_Inr run_encryptAndMAC
      write_data_def)

text \<open>The storage after the block loop.\<close>

fun put_blocks :: "provider \<Rightarrow> nat \<Rightarrow> bytes \<times> bytes \<Rightarrow> bytes list \<Rightarrow> (uuid \<rightharpoonup> bytes) \<Rightarrow> (uuid \<rightharpoonup> bytes)" where
  "put_blocks P t keys [] m = m"
| "put_blocks P t keys (b # bs) m =
     put_blocks P (t + 2) keys bs (m(uuid_new P t \<mapsto> sealed P (Suc t) b keys))"

fun block_ids :: "provider \<Rightarrow> nat \<Rightarrow> nat \<Rightarrow> uuid list" where
  "block_ids P t 0 = []"
| "block_ids P t (Suc n) = uuid_new P t # block_ids P (t + 2) n"

lemma length_block_ids [simp]: "length (block_ids P t n) = n"
  by (induction n arbitrary: t) simp_all

lemma block_ids_range: "u \<in> set (block_ids P t n) \<Longrightarrow> \<exists>i. t \<le> i \<and> i < t + 2 * n \<and> u = uuid_new P i"
proof (induction n arbitrary: t)
  case (Suc n)
  show ?case
  proof (cases "u = uuid_new P t")
    case True
    then show ?thesis by (intro exI [of _ t]) simp
  next
    case False
    with Suc obtain i where "t + 2 \<le> i" "i < t + 2 + 2 * n" "u = uuid_new P i"
      by force
    then show ?thesis by (intro exI [of _ i]) simp
  qed
qed simp

lemma block_ids_length_16: "uuid_ok P \<Longrightarrow> u \<in> set (block_ids P t n) \<Longrightarrow> length u = 16"
  by (auto simp: uuid_ok_def dest!: block_ids_range)

lemma run_store_blocks:
  assumes "provider_ok P" and "full_keys keys"
  shows "store_blocks P MemoryStorage c1 c2 keys fbs s =
    (Inr (block_ids P (tick s) (length fbs)),
     write_data s (tick s + 2 * length fbs)
       (put_blocks P (tick s) keys (map block fbs) (store_data (backing s))))"
proof (induction fbs arbitrary: s)
  case Nil
  show ?case by (simp add: write_data_def)
next
  case (Cons fb fbs)
  show ?case
    by (simp add: run_bind run_uuidNew run_seal_record [OF assms] Cons write_data_def)
qed

lemma put_blocks_other: "i \<notin> set (block_ids P t (length bs)) \<Longrightarrow> put_blocks P t keys bs m i = m i"
  by (induction bs arbitrary: t m) auto

lemma fresh_block_ids:
  assumes "fresh_uuids P t (2 * n) used"
  shows "distinct (block_ids P t n)" and "set (block_ids P t n) \<inter> used = {}"
proof -
  show "set (block_ids P t n) \<inter> used = {}"
    using fresh_uuids_D(1) [OF assms] by (auto dest!: block_ids_range)
  have "distinct (block_ids P t' k)" if "t \<le> t'" "t' + 2 * k \<le> t + 2 * n" for t' k
    using that
  proof (induction k arbitrary: t')
    case (Suc k)
    have "uuid_new P t' \<notin> set (block_ids P (t' + 2) k)"
    proof
      assume "uuid_new P t' \<in> set (block_ids P (t' + 2) k)"
      then obtain i where "t' + 2 \<le> i" "i < t' + 2 + 2 * k" "uuid_new P t' = uuid_new P i"
        by (auto dest!: block_ids_range)
      with fresh_uuids_D(2) [OF assms, of t' i] Suc.prems show False by simp
    qed
    with Suc show ?case by simp
  qed simp
  then show "distinct (block_ids P t n)" by simp
qed

lemma put_blocks_reads:
  assumes "provider_ok P" and "distinct (block_ids P t (length bs))"
  shows "blocks_at P (put_blocks P t (getFileKeys P k) bs m) k (block_ids P t (length bs)) bs"
  using assms(2)
proof (induction bs arbitrary: t m)
  case Nil
  show ?case by (simp add: blocks_at_def)
next
  case (Cons b bs)
  let ?m = "m(uuid_new P t \<mapsto> sealed P (Suc t) b (getFileKeys P k))"
  let ?m' = "put_blocks P (t + 2) (getFileKeys P k) bs ?m"
  have full: "full_keys (getFileKeys P k)"
    using provider_parts [OF assms(1)] by (simp add: derived_full_keys)
  have "?m' (uuid_new P t) = Some (sealed P (Suc t) b (getFileKeys P k))"
    using Cons.prems by (simp add: put_blocks_other)
  then have "reads_at P ?m' (uuid_new P t) (getFileKeys P k) Inr b"
    by (rule reads_at_sealed [OF assms(1) full]) simp
  moreover have "blocks_at P ?m' k (block_ids P (t + 2) (length bs)) bs"
    using Cons by simp
  ultimately show ?case
    by (simp add: blocks_at_def)
qed

lemma run_load_blocks:
  assumes "blocks_at P (store_data (backing s)) k us bs"
  shows "load_blocks P MemoryStorage f (getFileKeys P k) us s = (Inr (concat bs), s)"
  using assms unfolding blocks_at_def
  by (induction us bs rule: list_all2_induct) (simp_all add: run_bind run_open_record)

lemma load_blocks_Inr:
  "load_blocks P MemoryStorage f (getFileKeys P k) us s = (Inr c, s') \<longleftrightarrow>
     s' = s \<and> (\<exists>bs. blocks_at P (store_data (backing s)) k us bs \<and> c = concat bs)"
proof (induction us arbitrary: c)
  case Nil
  then show ?case by (auto simp: blocks_at_def)
next
  case (Cons u us)
  have "load_blocks P MemoryStorage f (getFileKeys P k) (u # us) s = (Inr c, s') \<longleftrightarrow>
      s' = s \<and> (\<exists>b bs. reads_at P (store_data (backing s)) u (getFileKeys P k) Inr b \<and>
        blocks_at P (store_data (backing s)) k us bs \<and> c = b @ concat bs)"
    by (auto simp: bindE_Inr_iff open_record_Inr Cons)
  also have "\<dots> \<longleftrightarrow> s' = s \<and>
      (\<exists>bs. blocks_at P (store_data (backing s)) k (u # us) bs \<and> c = concat bs)"
    by (force simp: blocks_at_def list_all2_Cons1)
  finally show ?case .
qed

text \<open>The three \<open>open_record\<close> steps of a view succeed, whatever messages they carry.\<close>

lemma view_opens:
  assumes "file_view P (store_data (backing s)) u f a mb ino bs"
  shows "open_record P MemoryStorage c1 e c2 c3 (access_id P (Username u) f)
      (getPersonalKey P (MasterKey u) f) (unmarshal_access P) s = (Inr a, s)"
    and "open_record P MemoryStorage c1 e c2 c3 (MymailboxUUID a) (getMailKeys P (MymailboxKey a))
      (unmarshal_mailbox P) s = (Inr mb, s)"
    and "open_record P MemoryStorage c1 e c2 c3 (InodeUUID mb) (getFileKeys P (FileKey mb))
      (unmarshal_inode P) s = (Inr ino, s)"
    and "load_blocks P MemoryStorage f' (getFileKeys P (FileKey mb)) (BlockUUIDs ino) s = (Inr (concat bs), s)"
  using assms
  by (auto simp: file_view_def access_at_def mailbox_at_def inode_at_def
      intro: run_open_record run_load_blocks)

lemma LoadFile_view:
  assumes "provider_ok P" and "file_view P (store_data (backing s)) (userdata s) f a mb ino bs"
  shows "LoadFile P memory_service f s = (Inr (concat bs), s)"
  using provider_parts [OF assms(1)]
  by (simp add: LoadFile_def run_bind run_wrap run_accessID view_opens [OF assms(2)])

lemma LoadFile_Inr:
  assumes "provider_ok P"
  shows "LoadFile P memory_service f s = (Inr c, s') \<longleftrightarrow> s' = s \<and>
    (\<exists>a mb ino bs. file_view P (store_data (backing s)) (userdata s) f a mb ino bs \<and> c = concat bs)"
  using provider_parts [OF assms]
  by (auto simp: LoadFile_def bindE_Inr_iff run_wrap run_accessID open_record_Inr load_blocks_Inr
      file_view_def access_at_def mailbox_at_def inode_at_def)

section \<open>Storing\<close>

definition files_of :: "User \<Rightarrow> (gostr, uuid) fmap" where
  "files_of u = (case Files u of None \<Rightarrow> fmempty | Some m \<Rightarrow> m)"

definition with_file :: "provider \<Rightarrow> User \<Rightarrow> gostr \<Rightarrow> User" where
  "with_file P u f = u\<lparr>Files := Some (fmupd f (access_id P (Username u) f) (files_of u))\<rparr>"

lemma with_file_simps [simp]:
  "Username (with_file P u f) = Username u" "MasterKey (with_file P u f) = MasterKey u"
  "PasswordSalt (with_file P u f) = PasswordSalt u"
  "EncryptionPrivateKey (with_file P u f) = EncryptionPrivateKey u"
  "SigningPrivateKey (with_file P u f) = SigningPrivateKey u"
  "fmlookup (files_of (with_file P u f)) f = Some (access_id P (Username u) f)"
  by (simp_all add: with_file_def files_of_def)

lemma access_id_length: "digest_ok P \<Longrightarrow> length (access_id P n f) = 16"
  by (simp add: access_id_def hash_def digest_ok_def)

lemma good_user_with_file:
  assumes "digest_ok P" and "good_user u" and "utf8_valid f"
  shows "good_user (with_file P u f)"
proof -
  from assms(2) obtain m where "Files u = Some m" by (auto simp: good_user_def)
  with assms show ?thesis
    by (simp add: good_user_def wf_user_def with_file_def files_of_def access_id_length)
qed

text \<open>The records a call of \<open>StoreFile\<close> at draw \<open>t\<close> makes.\<close>

definition new_mailbox :: "provider \<Rightarrow> nat \<Rightarrow> MailboxNode" where
  "new_mailbox P t = \<lparr>FileKey = rnd P 32 t, InodeUUID = uuid_new P (t + 1)\<rparr>"

definition new_access :: "provider \<Rightarrow> nat \<Rightarrow> Access" where
  "new_access P t = \<lparr>MymailboxUUID = uuid_new P (t + 2), MymailboxKey = rnd P 32 (t + 3), Children = Some fmempty\<rparr>"

definition new_inode :: "provider \<Rightarrow> nat \<Rightarrow> bytes \<Rightarrow> Inode" where
  "new_inode P t c = \<lparr>Size = int (length c), BlockUUIDs = block_ids P (t + 6) (length (ByteToBlock c))\<rparr>"

definition stored_file :: "provider \<Rightarrow> nat \<Rightarrow> User \<Rightarrow> gostr \<Rightarrow> bytes \<Rightarrow> (uuid \<rightharpoonup> bytes) \<Rightarrow> (uuid \<rightharpoonup> bytes)" where
  "stored_file P t u f c m =
     (let k = length (ByteToBlock c); keys = getFileKeys P (FileKey (new_mailbox P t));
          m1 = m(MymailboxUUID (new_access P t) \<mapsto>
                 sealed P (t + 4) (marshal_mailbox P (new_mailbox P t)) (getMailKeys P (MymailboxKey (new_access P t))));
          m2 = m1(access_id P (Username u) f \<mapsto>
                 sealed P (t + 5) (marshal_access P (new_access P t)) (getPersonalKey P (MasterKey u) f));
          m3 = put_blocks P (t + 6) keys (map block (ByteToBlock c)) m2
      in m3(InodeUUID (new_mailbox P t) \<mapsto> sealed P (t + 6 + 2 * k) (marshal_inode P (new_inode P t c)) keys))"

lemma StoreFile_run:
  assumes "provider_ok P" and "length (PasswordSalt (userdata s)) = 16"
  shows "StoreFile P memory_service f c s =
    (Inr (), (write_data s (tick s + 8 + 2 * length (ByteToBlock c))
       ((stored_file P (tick s) (userdata s) f c (store_data (backing s)))
         (user_id P (Username (userdata s)) \<mapsto>
            user_payload P (tick s + 7 + 2 * length (ByteToBlock c)) (with_file P (userdata s) f))))
       \<lparr>userdata := with_file P (userdata s) f\<rparr>)"
proof -
  note ok = provider_parts [OF assms(1)]
  define s0 where "s0 = s\<lparr>userdata := (userdata s)\<lparr>Files := Some (files_of (userdata s))\<rparr>\<rparr>"
  have mk: "make_files s = (Inr (), s0)"
    by (auto simp: make_files_def s0_def files_of_def split: option.split)
  have sf: "set_file f i s' = (Inr (), s'\<lparr>userdata := (userdata s')\<lparr>Files := Some (fmupd f i (files_of (userdata s)))\<rparr>\<rparr>)"
    if "userdata s' = (userdata s)\<lparr>Files := Some (files_of (userdata s))\<rparr>" for i s'
    using that by (simp add: set_file_def)
  show ?thesis
    using assms(2) ok
    by (simp add: StoreFile_def Let_def run_bind mk run_wrap run_randomBytes run_uuidNew
        run_seal_record [OF assms(1)] derived_full_keys run_encryptAndMAC run_accessID memory_runs
        run_store_blocks [OF assms(1)] sf run_saveUser passwordSaltSize_def masterKeySize_def
        s0_def stored_file_def new_mailbox_def new_access_def new_inode_def with_file_def
        write_data_def numeral_eq_Suc)
qed

lemma stored_file_other:
  assumes "fresh_uuids P t (8 + 2 * length (ByteToBlock c)) {i}" and "i \<noteq> access_id P (Username u) f"
  shows "stored_file P t u f c m i = m i"
proof -
  note fresh = fresh_uuids_D(1) [OF assms(1)]
  have "i \<noteq> uuid_new P (t + 1)" "i \<noteq> uuid_new P (t + 2)"
    using fresh [of "t + 1"] fresh [of "t + 2"] by auto
  moreover have "i \<notin> set (block_ids P (t + 6) (length (ByteToBlock c)))"
  proof
    assume "i \<in> set (block_ids P (t + 6) (length (ByteToBlock c)))"
    then obtain j where "t + 6 \<le> j" "j < t + 6 + 2 * length (ByteToBlock c)" "i = uuid_new P j"
      by (auto dest!: block_ids_range)
    with fresh [of j] show False by simp
  qed
  ultimately show ?thesis
    using assms(2) by (simp add: stored_file_def Let_def put_blocks_other new_mailbox_def new_access_def)
qed

lemma new_records_wf:
  assumes "uuid_ok P"
  shows "wf_mailbox (new_mailbox P t)" and "wf_access (new_access P t)"
    and "int (length c) < 2 ^ 63 \<Longrightarrow> wf_inode (new_inode P t c)"
  using assms
  by (auto simp: new_mailbox_def new_access_def new_inode_def wf_mailbox_def wf_access_def wf_inode_def
      uuid_ok_def dest!: block_ids_length_16 [OF assms])

lemma fresh_not_block:
  assumes "fresh_uuids P t n used" and "t \<le> t'" and "t' + 2 * k \<le> t + n"
  shows "i \<in> used \<Longrightarrow> i \<notin> set (block_ids P t' k)"
    and "t \<le> j \<Longrightarrow> j < t' \<Longrightarrow> uuid_new P j \<notin> set (block_ids P t' k)"
proof -
  show "i \<notin> set (block_ids P t' k)" if "i \<in> used"
  proof
    assume "i \<in> set (block_ids P t' k)"
    then obtain l where "t' \<le> l" "l < t' + 2 * k" "i = uuid_new P l"
      by (auto dest!: block_ids_range)
    with fresh_uuids_D(1) [OF assms(1), of l] assms(2,3) that show False by simp
  qed
  show "uuid_new P j \<notin> set (block_ids P t' k)" if j: "t \<le> j" "j < t'"
  proof
    assume "uuid_new P j \<in> set (block_ids P t' k)"
    then obtain l where "t' \<le> l" "l < t' + 2 * k" "uuid_new P j = uuid_new P l"
      by (auto dest!: block_ids_range)
    with fresh_uuids_D(2) [OF assms(1), of j l] assms(2,3) j show False by simp
  qed
qed

lemma stored_file_view:
  assumes "provider_ok P" and "int (length c) < 2 ^ 63"
    and fresh: "fresh_uuids P t (8 + 2 * length (ByteToBlock c)) {access_id P (Username u) f}"
  shows "file_view P (stored_file P t u f c m) u f
    (new_access P t) (new_mailbox P t) (new_inode P t c) (map block (ByteToBlock c))"
proof -
  note ok = provider_parts [OF assms(1)]
  note new = fresh_uuids_D(1) [OF fresh] and same = fresh_uuids_D(2) [OF fresh]
  let ?k = "length (ByteToBlock c)" and ?m = "stored_file P t u f c m"
  let ?ids = "block_ids P (t + 6) ?k"
  have ids: "uuid_new P (t + 1) \<noteq> uuid_new P (t + 2)" "uuid_new P (t + 1) \<noteq> access_id P (Username u) f"
      "uuid_new P (t + 2) \<noteq> access_id P (Username u) f"
    using same [of "t + 1" "t + 2"] new [of "t + 1"] new [of "t + 2"] by auto
  have blk: "uuid_new P (t + 1) \<notin> set ?ids" "uuid_new P (t + 2) \<notin> set ?ids"
      "access_id P (Username u) f \<notin> set ?ids"
    using fresh_not_block [OF fresh, of "t + 6" ?k] by simp_all
  have sub: "fresh_uuids P (t + 6) (2 * ?k) {}"
    using fresh unfolding fresh_uuids_def
    by (auto simp: distinct_map inj_on_def)
  have mail: "?m (MymailboxUUID (new_access P t)) = Some (sealed P (t + 4)
      (marshal_mailbox P (new_mailbox P t)) (getMailKeys P (MymailboxKey (new_access P t))))"
    using ids blk by (simp add: stored_file_def Let_def put_blocks_other new_mailbox_def new_access_def)
  have acc: "?m (access_id P (Username u) f) = Some (sealed P (t + 5)
      (marshal_access P (new_access P t)) (getPersonalKey P (MasterKey u) f))"
    using ids blk by (simp add: stored_file_def Let_def put_blocks_other new_mailbox_def new_access_def)
  have ino: "?m (InodeUUID (new_mailbox P t)) = Some (sealed P (t + 6 + 2 * ?k)
      (marshal_inode P (new_inode P t c)) (getFileKeys P (FileKey (new_mailbox P t))))"
    by (simp add: stored_file_def Let_def)
  have "blocks_at P ?m (FileKey (new_mailbox P t)) ?ids (map block (ByteToBlock c))"
    using put_blocks_reads [OF assms(1), of "t + 6" "map block (ByteToBlock c)"]
      fresh_block_ids(1) [OF sub] blk(1)
    by (simp add: stored_file_def Let_def new_mailbox_def)
  then have "blocks_at P ?m (FileKey (new_mailbox P t)) (BlockUUIDs (new_inode P t c)) (map block (ByteToBlock c))"
    by (simp add: new_inode_def)
  moreover have "access_at P ?m u f (new_access P t)"
    unfolding access_at_def
    by (rule reads_at_sealed [where m = ?m, OF assms(1) _ acc]) (simp_all add: ok derived_full_keys new_records_wf)
  moreover have "mailbox_at P ?m (MymailboxUUID (new_access P t)) (MymailboxKey (new_access P t)) (new_mailbox P t)"
    unfolding mailbox_at_def
    by (rule reads_at_sealed [where m = ?m, OF assms(1) _ mail]) (simp_all add: ok derived_full_keys new_records_wf)
  moreover have "inode_at P ?m (new_mailbox P t) (new_inode P t c)"
    unfolding inode_at_def
    by (rule reads_at_sealed [where m = ?m, OF assms(1) _ ino])
      (use assms(2) in \<open>simp_all add: ok derived_full_keys new_records_wf\<close>)
  ultimately show ?thesis
    by (simp add: file_view_def)
qed

text \<open>The view after a successful \<open>StoreFile\<close>, and what the call leaves alone.\<close>

lemma StoreFile_view:
  assumes "provider_ok P" and "length (PasswordSalt (userdata s)) = 16" and "int (length c) < 2 ^ 63"
    and fresh: "fresh_uuids P (tick s) (8 + 2 * length (ByteToBlock c)) used"
    and ids: "access_id P (Username (userdata s)) f \<in> used" "user_id P (Username (userdata s)) \<in> used"
      "access_id P (Username (userdata s)) f \<noteq> user_id P (Username (userdata s))"
    and run: "StoreFile P memory_service f c s = (r, s')"
  shows "r = Inr ()" and "userdata s' = with_file P (userdata s) f"
    and "tick s' = tick s + 8 + 2 * length (ByteToBlock c)"
    and "store_keys (backing s') = store_keys (backing s)"
    and "file_view P (store_data (backing s')) (userdata s') f (new_access P (tick s))
      (new_mailbox P (tick s)) (new_inode P (tick s) c) (map block (ByteToBlock c))"
    and "store_data (backing s') (user_id P (Username (userdata s))) =
      Some (user_payload P (tick s + 7 + 2 * length (ByteToBlock c)) (userdata s'))"
    and "i \<in> used \<Longrightarrow> i \<noteq> access_id P (Username (userdata s)) f \<Longrightarrow>
      i \<noteq> user_id P (Username (userdata s)) \<Longrightarrow> store_data (backing s') i = store_data (backing s) i"
proof -
  let ?t = "tick s" and ?k = "length (ByteToBlock c)" and ?u = "userdata s"
  let ?aid = "access_id P (Username ?u) f" and ?uid = "user_id P (Username ?u)"
  let ?m = "stored_file P ?t ?u f c (store_data (backing s))"
  note res = StoreFile_run [OF assms(1,2), of f c, unfolded run, simplified prod.inject]
  have data: "store_data (backing s') = ?m(?uid \<mapsto> user_payload P (?t + 7 + 2 * ?k) (with_file P ?u f))"
    using res by simp
  show "r = Inr ()" "userdata s' = with_file P ?u f" "tick s' = ?t + 8 + 2 * ?k"
      "store_keys (backing s') = store_keys (backing s)"
      "store_data (backing s') ?uid = Some (user_payload P (?t + 7 + 2 * ?k) (userdata s'))"
    using res by simp_all
  have sub: "fresh_uuids P ?t (8 + 2 * ?k) {j}" if "j \<in> used" for j
    using fresh that by (auto simp: fresh_uuids_def)
  show "store_data (backing s') i = store_data (backing s) i"
    if "i \<in> used" "i \<noteq> ?aid" "i \<noteq> ?uid"
    using that by (simp add: data stored_file_other [OF sub])
  have "?uid \<notin> set (view_ids P ?u f (new_access P ?t) (new_mailbox P ?t) (new_inode P ?t c))"
    using fresh_not_block(1) [OF fresh _ _ ids(2), of "?t + 6" ?k] ids
      fresh_uuids_D(1) [OF fresh, of "?t + 1"] fresh_uuids_D(1) [OF fresh, of "?t + 2"]
    by (auto simp: view_ids_def new_access_def new_mailbox_def new_inode_def)
  then have "file_view P (store_data (backing s')) ?u f
      (new_access P ?t) (new_mailbox P ?t) (new_inode P ?t c) (map block (ByteToBlock c))"
    unfolding data
    by (intro file_view_frame [OF stored_file_view [OF assms(1,3) sub [OF ids(1)]]]) auto
  then show "file_view P (store_data (backing s')) (userdata s') f
      (new_access P ?t) (new_mailbox P ?t) (new_inode P ?t c) (map block (ByteToBlock c))"
    using res by (simp add: file_view_def access_at_def)
qed

section \<open>Appending\<close>

definition grown_inode :: "provider \<Rightarrow> nat \<Rightarrow> Inode \<Rightarrow> bytes \<Rightarrow> Inode" where
  "grown_inode P t ino c =
     ino\<lparr>BlockUUIDs := BlockUUIDs ino @ block_ids P t (length (ByteToBlock c)),
         Size := wrap64 (Size ino + int (length c))\<rparr>"

definition appended :: "provider \<Rightarrow> nat \<Rightarrow> MailboxNode \<Rightarrow> Inode \<Rightarrow> bytes \<Rightarrow> (uuid \<rightharpoonup> bytes) \<Rightarrow> (uuid \<rightharpoonup> bytes)" where
  "appended P t mb ino c m =
     (let keys = getFileKeys P (FileKey mb)
      in (put_blocks P t keys (map block (ByteToBlock c)) m)
           (InodeUUID mb \<mapsto> sealed P (t + 2 * length (ByteToBlock c)) (marshal_inode P (grown_inode P t ino c)) keys))"

lemma wrap64_range: "- (2 ^ 63) \<le> wrap64 i \<and> wrap64 i < 2 ^ 63"
  unfolding wrap64_def using signed_take_bit_int_greater_eq_minus_exp [of 63 i] signed_take_bit_int_less_exp [of 63 i]
  by simp

lemma wrap64_id: "- (2 ^ 63) \<le> i \<Longrightarrow> i < 2 ^ 63 \<Longrightarrow> wrap64 i = i"
  by (simp add: wrap64_def signed_take_bit_int_eq_self)

lemma AppendToFile_nil: "AppendToFile P svc f None s = (Inl (Msg ''content cannot be nil'' []), s)"
  by (simp add: AppendToFile_def run_bind)

lemma AppendToFile_run:
  assumes "provider_ok P" and "file_view P (store_data (backing s)) (userdata s) f a mb ino bs"
  shows "AppendToFile P memory_service f (Some c) s =
    (Inr (), write_data s (tick s + 2 * length (ByteToBlock c) + 1)
       (appended P (tick s) mb ino c (store_data (backing s))))"
  using provider_parts [OF assms(1)]
  by (simp add: AppendToFile_def Let_def run_bind run_wrap run_accessID view_opens [OF assms(2)]
      run_store_blocks [OF assms(1)] run_seal_record [OF assms(1)] derived_full_keys
      appended_def grown_inode_def)

lemma appended_other:
  assumes "fresh_uuids P t (1 + 2 * length (ByteToBlock c)) used" and "i \<in> used" and "i \<noteq> InodeUUID mb"
  shows "appended P t mb ino c m i = m i"
  using fresh_not_block(1) [OF assms(1) _ _ assms(2), of t "length (ByteToBlock c)"] assms(3)
  by (simp add: appended_def Let_def put_blocks_other)

text \<open>
  Any view through the same mailbox content - the same inode and file key - sees the appended
  file: the view of the user who appended, and the views of everyone the file is shared with.
\<close>

lemma appended_view:
  assumes "provider_ok P" and view: "file_view P m u f a mb ino bs" and "wf_inode ino"
    and fresh: "fresh_uuids P t (1 + 2 * length (ByteToBlock c)) used"
    and used: "set (view_ids P u f a mb ino) \<subseteq> used"
    and own: "InodeUUID mb \<notin> insert (access_id P (Username u) f) (insert (MymailboxUUID a) (set (BlockUUIDs ino)))"
  shows "file_view P (appended P t mb ino c m) u f a mb (grown_inode P t ino c) (bs @ map block (ByteToBlock c))"
proof -
  note ok = provider_parts [OF assms(1)]
  let ?k = "length (ByteToBlock c)" and ?m = "appended P t mb ino c m"
  let ?ids = "block_ids P t ?k"
  have other: "?m i = m i" if "i \<in> set (view_ids P u f a mb ino)" "i \<noteq> InodeUUID mb" for i
    using appended_other [OF fresh] that used by blast
  have "wf_inode (grown_inode P t ino c)"
    using assms(3) wrap64_range
    by (auto simp: grown_inode_def wf_inode_def dest: block_ids_length_16 [OF ok(7)])
  then have "inode_at P ?m mb (grown_inode P t ino c)"
    unfolding inode_at_def
    by (intro reads_at_sealed [OF assms(1), where t = "t + 2 * ?k" and b = "marshal_inode P (grown_inode P t ino c)"])
      (simp_all add: appended_def Let_def ok derived_full_keys)
  moreover have "blocks_at P ?m (FileKey mb) (BlockUUIDs ino) bs"
    using view own other
    by (subst blocks_at_cong [of _ _ m]) (auto simp: file_view_def view_ids_def)
  moreover have "blocks_at P ?m (FileKey mb) ?ids (map block (ByteToBlock c))"
  proof -
    have "fresh_uuids P t (2 * ?k) {}"
      using fresh by (auto simp: fresh_uuids_def distinct_map inj_on_def)
    then have "distinct ?ids"
      by (rule fresh_block_ids)
    moreover have "InodeUUID mb \<notin> set ?ids"
      using fresh_not_block(1) [OF fresh, of t ?k] used by (auto simp: view_ids_def)
    ultimately show ?thesis
      using put_blocks_reads [OF assms(1), of t "map block (ByteToBlock c)"]
      by (simp add: appended_def Let_def)
  qed
  moreover have "access_at P ?m u f a" "mailbox_at P ?m (MymailboxUUID a) (MymailboxKey a) mb"
    using view own other [of "access_id P (Username u) f"] other [of "MymailboxUUID a"]
    by (auto simp: file_view_def access_at_def mailbox_at_def view_ids_def reads_at_def)
  ultimately show ?thesis
    by (simp add: file_view_def grown_inode_def blocks_at_append)
qed

section \<open>Over any backend\<close>

context related_services begin

lemma refines_wrapO [refine_intros]: "refines Q m m' \<Longrightarrow> refines Q (wrapO c m) (wrapO c m')"
  by (cases c) (simp_all add: wrapO_def refines_wrap)

lemma refines_open_record [refine_intros]:
  "refines Q (open_record P (storage V) c1 e c2 c3 i ks unm) (open_record P (storage W) c1 e c2 c3 i ks unm)"
  unfolding open_record_def by (intro refine_intros)

lemma refines_seal_record [refine_intros]:
  "refines Q (seal_record P (storage V) c1 c2 i ks b) (seal_record P (storage W) c1 c2 i ks b)"
  unfolding seal_record_def by (intro refine_intros)

lemma refines_store_blocks [refine_intros]:
  "refines Q (store_blocks P (storage V) c1 c2 ks fbs) (store_blocks P (storage W) c1 c2 ks fbs)"
proof (induction fbs)
  case Nil
  show ?case unfolding store_blocks.simps by (intro refine_intros)
next
  case (Cons x xs)
  show ?case unfolding store_blocks.simps by (intro refine_intros Cons)
qed

lemma refines_load_blocks [refine_intros]:
  "refines Q (load_blocks P (storage V) f ks us) (load_blocks P (storage W) f ks us)"
proof (induction us)
  case Nil
  show ?case unfolding load_blocks.simps by (intro refine_intros)
next
  case (Cons x xs)
  show ?case unfolding load_blocks.simps by (intro refine_intros Cons)
qed

lemma refines_make_files [refine_intros]: "refines Q make_files make_files"
  unfolding make_files_def
  by (rule refines_modify) (use related_same related_userdata in \<open>auto split: option.split\<close>)

lemma refines_set_file [refine_intros]: "refines Q (set_file f i) (set_file f i)"
  by (rule refinesI) (use related_same related_userdata in \<open>fastforce simp: set_file_def split: option.splits\<close>)

lemma refines_StoreFile [refine_intros]:
  "refines Q (StoreFile P V f c) (StoreFile P W f c)"
  unfolding StoreFile_def Let_def by (intro refine_intros)

lemma refines_LoadFile [refine_intros]:
  "refines Q (LoadFile P V f) (LoadFile P W f)"
  unfolding LoadFile_def by (intro refine_intros)

lemma refines_AppendToFile [refine_intros]:
  "refines Q (AppendToFile P V f c) (AppendToFile P W f c)"
  unfolding AppendToFile_def Let_def by (intro refine_intros)

end

section \<open>Listing\<close>

lemma ListFiles_run:
  assumes "order_ok P"
  obtains fs where "ListFiles P s = (Inr fs, if Files (userdata s) = None then s else s\<lparr>tick := Suc (tick s)\<rparr>)"
    and "distinct fs" and "set fs = fset (fmdom (files_of (userdata s)))"
proof (cases "Files (userdata s)")
  case None
  then show thesis
    by (intro that [of "[]"]) (simp_all add: ListFiles_def run_bind files_of_def)
next
  case (Some m)
  let ?ks = "sorted_list_of_fset (fmdom m)"
  have "distinct ?ks" "set ?ks = fset (fmdom m)"
    by (simp_all add: sorted_list_of_fset.rep_eq)
  with assms show thesis
    by (intro that [of "map_order P (tick s) ?ks"])
      (simp_all add: ListFiles_def run_bind run_draw Some files_of_def order_ok_def)
qed

end
