(* ===== verification/InvitationService.thy ===== *)
theory InvitationService
  imports FileService
begin

text \<open>
  \<open>InvitationService\<close> of \<open>internal/client/encryption/service.go\<close>: sharing a file with another
  user, accepting the share, and revoking it. A share gives the recipient a mailbox of their own
  with the file key and the inode's place; the sharer's access record remembers the place and
  key of every mailbox given away, so that a revocation can replace the file key in the
  mailboxes that stay.
\<close>

section \<open>Sharing\<close>

definition CreateInvitation :: "provider \<Rightarrow> 'w Service \<Rightarrow> gostr \<Rightarrow> gostr \<Rightarrow> ('w st, uuid) prog" where
  "CreateInvitation P svc filename recipientUsername =
     bindE (gets userdata) (\<lambda>u.
     bindE (wrapE ''failed to generate access UUID'' (liftE (accessID P (Username u) filename))) (\<lambda>accessUUID.
     bindE (open_record P (storage svc) ''failed to load access metadata''
         (Msg ''file %s not found for user %s'' [filename, Username u])
         (Some ''failed to decrypt access'') (Some ''failed to unmarshal access'')
         accessUUID (getPersonalKey P (MasterKey u) filename) (unmarshal_access P)) (\<lambda>access.
     bindE (open_record P (storage svc) ''failed to load mailbox''
         (Msg ''mailbox not found for file %s'' [filename])
         (Some ''failed to decrypt mailbox'') (Some ''failed to unmarshal mailbox'')
         (MymailboxUUID access) (getMailKeys P (MymailboxKey access)) (unmarshal_mailbox P)) (\<lambda>myMailbox.
     bindE (uuidNew P) (\<lambda>recipientMailboxUUID.
     bindE (wrapE ''failed to generate recipient mailbox key'' (randomBytes P masterKeySize)) (\<lambda>recipientMailboxKey.
     let recipientMailbox = \<lparr>FileKey = FileKey myMailbox, InodeUUID = InodeUUID myMailbox\<rparr> in
     bindE (seal_record P (storage svc) (Some ''failed to encrypt recipient mailbox'')
         ''failed to store recipient mailbox'' recipientMailboxUUID (getMailKeys P recipientMailboxKey)
         (marshal_mailbox P recipientMailbox)) (\<lambda>_.
     bindE (wrapE ''failed to load recipient public key''
         (on_backing (keyStore_Get (keyStore svc) (recipientUsername @ lit ''_enc_pub'')))) (\<lambda>r.
     bindE (someE (Msg ''recipient user %s does not exist'' [recipientUsername]) r) (\<lambda>recipientPubkey.
     let invBytes = marshal_invitation P
           \<lparr>inv_MailboxUUID = recipientMailboxUUID, inv_MailboxKey = recipientMailboxKey\<rparr> in
     bindE (wrapE ''failed to encrypt invitation'' (encryptFor P recipientPubkey invBytes)) (\<lambda>ciphertext.
     bindE (wrapE ''failed to sign invitation'' (liftE (sign P (SigningPrivateKey u) ciphertext))) (\<lambda>signature.
     bindE (uuidNew P) (\<lambda>invRandomPtr.
     bindE (wrapE ''failed to store invitation''
         (on_backing (storage_Set (storage svc) invRandomPtr (ciphertext @ signature)))) (\<lambda>_.
     bindE (someE (Panic ''assignment to entry in nil map'') (Children access)) (\<lambda>children.
     let access' = access\<lparr>Children := Some (fmupd recipientUsername
           \<lparr>ci_MailboxUUID = recipientMailboxUUID, ci_MailboxKey = recipientMailboxKey\<rparr> children)\<rparr> in
     bindE (seal_record P (storage svc) (Some ''failed to encrypt access'')
         ''failed to update access metadata'' accessUUID (getPersonalKey P (MasterKey u) filename)
         (marshal_access P access')) (\<lambda>_.
     ret invRandomPtr)))))))))))))))"

section \<open>Accepting\<close>

definition AcceptInvitation ::
  "provider \<Rightarrow> 'w Service \<Rightarrow> gostr \<Rightarrow> uuid \<Rightarrow> gostr \<Rightarrow> ('w st, unit) prog"
where
  "AcceptInvitation P svc senderUsername invitationPtr filename =
     bindE (gets userdata) (\<lambda>u.
     bindE (wrapE ''failed to load invitation'' (on_backing (storage_Get (storage svc) invitationPtr))) (\<lambda>r.
     bindE (someE (Msg ''invitation %s not found'' [uuid_text P invitationPtr]) r) (\<lambda>invitationPayload.
     bindE (guardE (\<not> length invitationPayload < ed25519_SignatureSize)
         (Msg ''invitation payload too short'' [])) (\<lambda>_.
     let sigOffset = length invitationPayload - ed25519_SignatureSize;
         ciphertext = take sigOffset invitationPayload;
         signature = drop sigOffset invitationPayload in
     bindE (wrapE ''failed to load sender public key''
         (on_backing (keyStore_Get (keyStore svc) (senderUsername @ lit ''_sig_pub'')))) (\<lambda>r.
     bindE (someE (Msg ''sender %s public key not found in keystore'' [senderUsername]) r) (\<lambda>senderVerifyKey.
     bindE (guardE (verify P senderVerifyKey ciphertext signature = Inr ())
         (Msg ''invitation signature verification failed for sender %s'' [senderUsername])) (\<lambda>_.
     bindE (wrapE ''failed to decrypt invitation''
         (liftE (decryptFor P (EncryptionPrivateKey u) ciphertext))) (\<lambda>plaintext.
     bindE (wrapE ''failed to unmarshal invitation'' (liftE (unmarshal_invitation P plaintext))) (\<lambda>getInvitation.
     let receiveAccess = \<lparr>MymailboxUUID = inv_MailboxUUID getInvitation,
           MymailboxKey = inv_MailboxKey getInvitation, Children = Some fmempty\<rparr> in
     bindE (wrapE ''failed to encrypt access''
         (encryptAndMAC P (marshal_access P receiveAccess) (getPersonalKey P (MasterKey u) filename))) (\<lambda>currAccessBytes.
     bindE (wrapE ''failed to generate access UUID'' (liftE (accessID P (Username u) filename))) (\<lambda>accessUUID.
     bindE (wrapE ''failed to store access metadata''
         (on_backing (storage_Set (storage svc) accessUUID currAccessBytes))) (\<lambda>_.
     bindE (set_file filename accessUUID) (\<lambda>_.
     bindE (gets userdata) (\<lambda>u.
     saveUser P (storage svc) u))))))))))))))"

section \<open>Revoking\<close>

text \<open>The first loop of \<open>RevokeAccess\<close>: every block is opened and sealed again in its place.\<close>

fun rekey_blocks ::
  "provider \<Rightarrow> 'w StorageService \<Rightarrow> gostr \<Rightarrow> bytes \<times> bytes \<Rightarrow> bytes \<times> bytes \<Rightarrow> uuid list
   \<Rightarrow> ('w st, unit) prog"
where
  "rekey_blocks P S filename old new [] = ret ()"
| "rekey_blocks P S filename old new (blockUUID # us) =
     bindE (open_record P S ''failed to load data block''
         (Msg ''data block not found for file %s'' [filename])
         (Some ''failed to decrypt block'') None blockUUID old Inr) (\<lambda>blockPlaintext.
     bindE (seal_record P S (Some ''failed to encrypt block'') ''failed to store re-encrypted data block''
         blockUUID new blockPlaintext) (\<lambda>_.
     rekey_blocks P S filename old new us))"

text \<open>The second loop: \<open>for childUsername, childInfo := range access.Children\<close>, in the map's order.\<close>

fun rekey_children ::
  "provider \<Rightarrow> 'w StorageService \<Rightarrow> gostr \<Rightarrow> bytes \<Rightarrow> (gostr \<times> ChildrenInfo) list \<Rightarrow> ('w st, unit) prog"
where
  "rekey_children P S recipientUsername newFileKey [] = ret ()"
| "rekey_children P S recipientUsername newFileKey ((childUsername, childInfo) # cs) =
     (if childUsername = recipientUsername then rekey_children P S recipientUsername newFileKey cs
      else
        bindE (open_record P S (''failed to load shared mailbox for '' @ name_text childUsername)
            (Msg ''shared mailbox for %s not found'' [childUsername])
            (Some (''failed to decrypt shared mailbox for '' @ name_text childUsername))
            (Some (''failed to unmarshal shared mailbox for '' @ name_text childUsername))
            (ci_MailboxUUID childInfo) (getMailKeys P (ci_MailboxKey childInfo)) (unmarshal_mailbox P)) (\<lambda>childMailbox.
        let childMailbox' = childMailbox\<lparr>FileKey := newFileKey\<rparr> in
        bindE (seal_record P S (Some ''failed to encrypt child mailbox'')
            (''failed to update shared mailbox for '' @ name_text childUsername)
            (ci_MailboxUUID childInfo) (getMailKeys P (ci_MailboxKey childInfo))
            (marshal_mailbox P childMailbox')) (\<lambda>_.
        rekey_children P S recipientUsername newFileKey cs)))"

definition children_of :: "Access \<Rightarrow> (gostr, ChildrenInfo) fmap" where
  "children_of access = (case Children access of None \<Rightarrow> fmempty | Some m \<Rightarrow> m)"

definition child_entries :: "(gostr, ChildrenInfo) fmap \<Rightarrow> gostr list \<Rightarrow> (gostr \<times> ChildrenInfo) list" where
  "child_entries m ks = map (\<lambda>k. (k, the (fmlookup m k))) ks"

text \<open>The end of \<open>RevokeAccess\<close>: the access record names the new mailbox and no longer the recipient.\<close>

definition commit_revocation ::
  "provider \<Rightarrow> 'w Service \<Rightarrow> gostr \<Rightarrow> gostr \<Rightarrow> uuid \<Rightarrow> bytes \<times> bytes \<Rightarrow> Access \<Rightarrow> uuid \<Rightarrow> bytes \<Rightarrow> ('w st, unit) prog"
where
  "commit_revocation P svc filename recipientUsername accessUUID pKeys access newMailboxUUID newMailboxKey =
     (let access' = access\<lparr>Children := map_option (fmdrop recipientUsername) (Children access),
                           MymailboxUUID := newMailboxUUID, MymailboxKey := newMailboxKey\<rparr> in
      bindE (seal_record P (storage svc) (Some ''failed to encrypt access'')
          ''failed to update access metadata'' accessUUID pKeys (marshal_access P access')) (\<lambda>_.
      bindE (set_file filename accessUUID) (\<lambda>_.
      bindE (gets userdata) (\<lambda>u.
      saveUser P (storage svc) u))))"

definition RevokeAccess :: "provider \<Rightarrow> 'w Service \<Rightarrow> gostr \<Rightarrow> gostr \<Rightarrow> ('w st, unit) prog" where
  "RevokeAccess P svc filename recipientUsername =
     bindE (gets userdata) (\<lambda>u.
     bindE (wrapE ''failed to generate access UUID'' (liftE (accessID P (Username u) filename))) (\<lambda>accessUUID.
     bindE (open_record P (storage svc) ''failed to load access metadata''
         (Msg ''file %s not found for user %s'' [filename, Username u])
         (Some ''failed to decrypt access'') (Some ''failed to unmarshal access'')
         accessUUID (getPersonalKey P (MasterKey u) filename) (unmarshal_access P)) (\<lambda>access.
     bindE (open_record P (storage svc) ''failed to load mailbox''
         (Msg ''mailbox not found for file %s'' [filename])
         (Some ''failed to decrypt mailbox'') (Some ''failed to unmarshal mailbox'')
         (MymailboxUUID access) (getMailKeys P (MymailboxKey access)) (unmarshal_mailbox P)) (\<lambda>myMailbox.
     bindE (wrapE ''failed to generate replacement file key'' (randomBytes P masterKeySize)) (\<lambda>newFileKey.
     bindE (open_record P (storage svc) ''failed to load inode''
         (Msg ''inode not found for file %s'' [filename])
         (Some ''failed to decrypt inode'') (Some ''failed to unmarshal inode'')
         (InodeUUID myMailbox) (getFileKeys P (FileKey myMailbox)) (unmarshal_inode P)) (\<lambda>inode.
     bindE (rekey_blocks P (storage svc) filename (getFileKeys P (FileKey myMailbox))
         (getFileKeys P newFileKey) (BlockUUIDs inode)) (\<lambda>_.
     bindE (seal_record P (storage svc) (Some ''failed to encrypt inode'') ''failed to store re-encrypted inode''
         (InodeUUID myMailbox) (getFileKeys P newFileKey) (marshal_inode P inode)) (\<lambda>_.
     bindE (wrapE ''failed to generate replacement mailbox key'' (randomBytes P masterKeySize)) (\<lambda>newMailboxKey.
     bindE (uuidNew P) (\<lambda>newMailboxUUID.
     let newMailbox = \<lparr>FileKey = newFileKey, InodeUUID = InodeUUID myMailbox\<rparr> in
     bindE (seal_record P (storage svc) (Some ''failed to encrypt mailbox'') ''failed to store replacement mailbox''
         newMailboxUUID (getMailKeys P newMailboxKey) (marshal_mailbox P newMailbox)) (\<lambda>_.
     bindE (draw (\<lambda>t. map_order P t (sorted_list_of_fset (fmdom (children_of access))))) (\<lambda>names.
     bindE (rekey_children P (storage svc) recipientUsername newFileKey
         (child_entries (children_of access) names)) (\<lambda>_.
     commit_revocation P svc filename recipientUsername accessUUID (getPersonalKey P (MasterKey u) filename)
       access newMailboxUUID newMailboxKey)))))))))))))"

section \<open>A shared file\<close>

lemma reads_at_upd [simp]: "i \<noteq> j \<Longrightarrow> reads_at P (m(j := v)) i keys unm x = reads_at P m i keys unm x"
  by (simp add: reads_at_def)

lemma mailbox_at_upd [simp]: "i \<noteq> j \<Longrightarrow> mailbox_at P (m(j := v)) i k mb = mailbox_at P m i k mb"
  by (simp add: mailbox_at_def)

text \<open>The mailboxes an access record has given away.\<close>

definition child_infos :: "Access \<Rightarrow> ChildrenInfo fset" where
  "child_infos a = fmran (children_of a)"

text \<open>
  \<open>u\<close>'s file \<open>f\<close>, all of its records in different places, and every mailbox given away carrying
  the same file key and inode as \<open>u\<close>'s own.
\<close>

definition shared_file ::
  "provider \<Rightarrow> (uuid \<rightharpoonup> bytes) \<Rightarrow> User \<Rightarrow> gostr \<Rightarrow> Access \<Rightarrow> MailboxNode \<Rightarrow> Inode \<Rightarrow> bytes list \<Rightarrow> bool"
where
  "shared_file P m u f a mb ino bs \<longleftrightarrow>
     file_view P m u f a mb ino bs \<and> wf_access a \<and> wf_mailbox mb \<and> wf_inode ino \<and> Children a \<noteq> None \<and>
     distinct (user_id P (Username u) # view_ids P u f a mb ino) \<and>
     inj_on ci_MailboxUUID (fset (child_infos a)) \<and>
     inj_on (fmlookup (children_of a)) (fset (fmdom (children_of a))) \<and>
     (\<forall>c \<in> fset (child_infos a).
        ci_MailboxUUID c \<notin> set (user_id P (Username u) # view_ids P u f a mb ino) \<and>
        mailbox_at P m (ci_MailboxUUID c) (ci_MailboxKey c) mb)"

text \<open>Every place the records of the file and of its owner take.\<close>

definition footprint :: "provider \<Rightarrow> User \<Rightarrow> gostr \<Rightarrow> Access \<Rightarrow> MailboxNode \<Rightarrow> Inode \<Rightarrow> uuid set" where
  "footprint P u f a mb ino =
     insert (user_id P (Username u)) (set (view_ids P u f a mb ino) \<union> ci_MailboxUUID ` fset (child_infos a))"

lemma shared_file_parts:
  assumes "shared_file P m u f a mb ino bs"
  shows "file_view P m u f a mb ino bs" "wf_access a" "wf_mailbox mb" "wf_inode ino"
    "Children a = Some (children_of a)"
    "distinct (user_id P (Username u) # view_ids P u f a mb ino)"
    "inj_on ci_MailboxUUID (fset (child_infos a))"
    "inj_on (fmlookup (children_of a)) (fset (fmdom (children_of a)))"
    "c \<in> fset (child_infos a) \<Longrightarrow> ci_MailboxUUID c \<notin> set (user_id P (Username u) # view_ids P u f a mb ino)"
    "c \<in> fset (child_infos a) \<Longrightarrow> mailbox_at P m (ci_MailboxUUID c) (ci_MailboxKey c) mb"
  using assms by (auto simp: shared_file_def children_of_def)

lemma mailbox_at_cong: "m' i = m i \<Longrightarrow> mailbox_at P m' i k mb = mailbox_at P m i k mb"
  by (simp add: mailbox_at_def reads_at_def)

lemma shared_file_frame:
  assumes "shared_file P m u f a mb ino bs"
    and "\<And>i. i \<in> footprint P u f a mb ino \<Longrightarrow> i \<noteq> user_id P (Username u) \<Longrightarrow> m' i = m i"
  shows "shared_file P m' u f a mb ino bs"
proof -
  note sh = shared_file_parts [OF assms(1)]
  have "file_view P m' u f a mb ino bs"
    using sh(6) by (intro file_view_frame [OF sh(1)] assms(2)) (auto simp: footprint_def)
  moreover have "mailbox_at P m' (ci_MailboxUUID c) (ci_MailboxKey c) mb" if "c \<in> fset (child_infos a)" for c
    using sh(9,10) [OF that] that assms(2) [of "ci_MailboxUUID c"]
    by (subst mailbox_at_cong [of _ _ m]) (auto simp: footprint_def)
  ultimately show ?thesis
    using assms(1) by (simp add: shared_file_def)
qed

text \<open>A file just stored is a shared file with nobody to share it with.\<close>

lemma StoreFile_shared:
  assumes "provider_ok P" and "length (PasswordSalt (userdata s)) = 16" and "int (length c) < 2 ^ 63"
    and fresh: "fresh_uuids P (tick s) (8 + 2 * length (ByteToBlock c)) used"
    and ids: "access_id P (Username (userdata s)) f \<in> used" "user_id P (Username (userdata s)) \<in> used"
      "access_id P (Username (userdata s)) f \<noteq> user_id P (Username (userdata s))"
    and run: "StoreFile P memory_service f c s = (r, s')"
  shows "shared_file P (store_data (backing s')) (userdata s') f (new_access P (tick s))
      (new_mailbox P (tick s)) (new_inode P (tick s) c) (map block (ByteToBlock c))"
proof -
  note ok = provider_parts [OF assms(1)]
  note v = StoreFile_view [OF assms]
  let ?t = "tick s" and ?k = "length (ByteToBlock c)"
  have "fresh_uuids P (?t + 6) (2 * ?k) {}"
    using fresh by (auto simp: fresh_uuids_def distinct_map inj_on_def)
  then have "distinct (block_ids P (?t + 6) ?k)"
    by (rule fresh_block_ids)
  moreover have "uuid_new P (?t + 1) \<noteq> uuid_new P (?t + 2)"
    using fresh_uuids_D(2) [OF fresh, of "?t + 1" "?t + 2"] by simp
  moreover have "uuid_new P (?t + 1) \<notin> used" "uuid_new P (?t + 2) \<notin> used"
    using fresh_uuids_D(1) [OF fresh] by simp_all
  moreover have "uuid_new P (?t + 1) \<notin> set (block_ids P (?t + 6) ?k)"
      "uuid_new P (?t + 2) \<notin> set (block_ids P (?t + 6) ?k)"
      "i \<in> used \<Longrightarrow> i \<notin> set (block_ids P (?t + 6) ?k)" for i
    using fresh_not_block [OF fresh, of "?t + 6" ?k] by simp_all
  ultimately have "distinct (user_id P (Username (userdata s)) # view_ids P (userdata s) f
      (new_access P ?t) (new_mailbox P ?t) (new_inode P ?t c))"
    using ids by (auto simp: view_ids_def new_access_def new_mailbox_def new_inode_def)
  then show ?thesis
    using v(2,5) new_records_wf [OF ok(7)] assms(3)
    by (auto simp: shared_file_def view_ids_def child_infos_def children_of_def new_access_def)
qed

section \<open>Sharing, in memory\<close>

definition with_child :: "gostr \<Rightarrow> ChildrenInfo \<Rightarrow> Access \<Rightarrow> Access" where
  "with_child r c a = a\<lparr>Children := Some (fmupd r c (children_of a))\<rparr>"

text \<open>The mailbox that a share at draw \<open>t\<close> makes.\<close>

definition shared_child :: "provider \<Rightarrow> nat \<Rightarrow> ChildrenInfo" where
  "shared_child P t = \<lparr>ci_MailboxUUID = uuid_new P t, ci_MailboxKey = rnd P 32 (t + 1)\<rparr>"

definition child_invitation :: "ChildrenInfo \<Rightarrow> Invitation" where
  "child_invitation c = \<lparr>inv_MailboxUUID = ci_MailboxUUID c, inv_MailboxKey = ci_MailboxKey c\<rparr>"

text \<open>
  An invitation that the holder of \<open>sk\<close> can open and that verifies under the public key \<open>pk\<close>.
\<close>

definition invitation_at ::
  "provider \<Rightarrow> (uuid \<rightharpoonup> bytes) \<Rightarrow> uuid \<Rightarrow> bytes \<Rightarrow> bytes \<Rightarrow> Invitation \<Rightarrow> bool"
where
  "invitation_at P m i pk sk v \<longleftrightarrow>
     (\<exists>c g b. m i = Some (c @ g) \<and> length g = 64 \<and> verify P pk c g = Inr () \<and>
        decryptFor P sk c = Inr b \<and> unmarshal_invitation P b = Inr v)"

lemma invitation_atI:
  assumes "m i = Some (c @ g)" and "length g = 64" and "verify P pk c g = Inr ()"
    and "decryptFor P sk c = Inr b" and "unmarshal_invitation P b = Inr v"
  shows "invitation_at P m i pk sk v"
  unfolding invitation_at_def using assms by blast

lemma CreateInvitation_run:
  assumes "provider_ok P" and view: "file_view P (store_data (backing s)) (userdata s) f a mb ino bs"
    and "Children a \<noteq> None" and "length (SigningPrivateKey (userdata s)) = 64"
    and rkey: "store_keys (backing s) (r @ lit ''_enc_pub'') = Some (x25519_public P sk)" "length sk = 32"
  obtains c where "decryptFor P sk c = Inr (marshal_invitation P (child_invitation (shared_child P (tick s))))"
    and "CreateInvitation P memory_service f r s = (Inr (uuid_new P (tick s + 5)),
      write_data s (tick s + 7) ((store_data (backing s))
        (uuid_new P (tick s) \<mapsto> sealed P (tick s + 2) (marshal_mailbox P mb) (getMailKeys P (rnd P 32 (tick s + 1))),
         uuid_new P (tick s + 5) \<mapsto> c @ ed25519_sign P (SigningPrivateKey (userdata s)) c,
         access_id P (Username (userdata s)) f \<mapsto>
           sealed P (tick s + 6) (marshal_access P (with_child r (shared_child P (tick s)) a))
             (getPersonalKey P (MasterKey (userdata s)) f))))"
proof -
  note ok = provider_parts [OF assms(1)]
  define b where "b = marshal_invitation P (child_invitation (shared_child P (tick s)))"
  define s1 where "s1 = write_data s (tick s + 3) ((store_data (backing s))
      (uuid_new P (tick s) \<mapsto> sealed P (tick s + 2) (marshal_mailbox P mb) (getMailKeys P (rnd P 32 (tick s + 1)))))"
  obtain r' s2 where enc: "encryptFor P (x25519_public P sk) b s1 = (r', s2)"
    by fastforce
  from encryptFor_decryptFor [OF assms(1) rkey(2) enc] obtain c
    where c: "r' = Inr c" "decryptFor P sk c = Inr b"
      and s2: "backing s2 = backing s1" "userdata s2 = userdata s1" "tick s2 = tick s1 + 2"
    by blast
  from s2 have s2: "s2 = s1\<lparr>tick := tick s + 5\<rparr>"
    by (intro st.equality) (simp_all add: s1_def)
  have mb: "\<lparr>FileKey = FileKey mb, InodeUUID = InodeUUID mb\<rparr> = mb"
    by simp
  have sg: "sign P (SigningPrivateKey (userdata s)) c = Inr (ed25519_sign P (SigningPrivateKey (userdata s)) c)"
    using assms(4) by (simp add: sign_def ed25519_PrivateKeySize_def)
  have children: "Children a = Some (children_of a)"
    using assms(3) by (auto simp: children_of_def)
  have "CreateInvitation P memory_service f r s = (Inr (uuid_new P (tick s + 5)),
      write_data s (tick s + 7) ((store_data (backing s))
        (uuid_new P (tick s) \<mapsto> sealed P (tick s + 2) (marshal_mailbox P mb) (getMailKeys P (rnd P 32 (tick s + 1))),
         uuid_new P (tick s + 5) \<mapsto> c @ ed25519_sign P (SigningPrivateKey (userdata s)) c,
         access_id P (Username (userdata s)) f \<mapsto>
           sealed P (tick s + 6) (marshal_access P (with_child r (shared_child P (tick s)) a))
             (getPersonalKey P (MasterKey (userdata s)) f))))"
    using enc [unfolded c s2 b_def s1_def] rkey ok sg
    by (simp add: CreateInvitation_def Let_def run_bind run_wrap run_accessID view_opens [OF view]
        run_uuidNew run_randomBytes run_seal_record [OF assms(1)] derived_full_keys masterKeySize_def mb
        memory_runs children with_child_def shared_child_def child_invitation_def write_data_def
        numeral_eq_Suc)
  with c(2) show thesis
    by (intro that) (simp_all add: b_def)
qed

text \<open>The recipient's mailbox is stored before the recipient's key is looked up.\<close>

lemma CreateInvitation_unknown:
  assumes "provider_ok P" and view: "file_view P (store_data (backing s)) (userdata s) f a mb ino bs"
    and "store_keys (backing s) (r @ lit ''_enc_pub'') = None"
  shows "CreateInvitation P memory_service f r s = (Inl (Msg ''recipient user %s does not exist'' [r]),
    write_data s (tick s + 3) ((store_data (backing s))
      (uuid_new P (tick s) \<mapsto> sealed P (tick s + 2) (marshal_mailbox P mb) (getMailKeys P (rnd P 32 (tick s + 1))))))"
proof -
  have mb: "\<lparr>FileKey = FileKey mb, InodeUUID = InodeUUID mb\<rparr> = mb" by simp
  show ?thesis
    using assms(3) provider_parts [OF assms(1)]
    by (simp add: CreateInvitation_def Let_def run_bind run_wrap run_accessID view_opens [OF view]
        run_uuidNew run_randomBytes run_seal_record [OF assms(1)] derived_full_keys masterKeySize_def mb
        memory_runs write_data_def add_small)
qed

lemma in_child_infos: "c \<in> fset (child_infos a) \<longleftrightarrow> (\<exists>n. fmlookup (children_of a) n = Some c)"
  by (simp add: child_infos_def fmlookup_ran_iff)

lemma with_child_simps [simp]:
  "MymailboxUUID (with_child r c a) = MymailboxUUID a" "MymailboxKey (with_child r c a) = MymailboxKey a"
  "children_of (with_child r c a) = fmupd r c (children_of a)" "Children (with_child r c a) \<noteq> None"
  by (simp_all add: with_child_def children_of_def)

lemma wf_with_child:
  assumes "wf_access a" and "Children a = Some (children_of a)" and "utf8_valid r" and "wf_child c"
  shows "wf_access (with_child r c a)"
  using assms by (simp add: wf_access_def with_child_def)

lemma child_infos_with_child:
  "c' \<in> fset (child_infos (with_child r c a)) \<Longrightarrow> c' = c \<or> c' \<in> fset (child_infos a)"
  by (auto simp: in_child_infos split: if_splits)

lemma footprint_with_child:
  "footprint P u f (with_child r c a) mb ino \<subseteq> insert (ci_MailboxUUID c) (footprint P u f a mb ino)"
  using child_infos_with_child by (force simp: footprint_def view_ids_def)

lemma shared_file_with_child:
  assumes "shared_file P m u f a mb ino bs" and "wf_access (with_child r c a)"
    and frame: "\<And>i. i \<in> footprint P u f a mb ino \<Longrightarrow> i \<noteq> access_id P (Username u) f \<Longrightarrow> m' i = m i"
    and "access_at P m' u f (with_child r c a)"
    and "mailbox_at P m' (ci_MailboxUUID c) (ci_MailboxKey c) mb"
    and new: "ci_MailboxUUID c \<notin> footprint P u f a mb ino"
  shows "shared_file P m' u f (with_child r c a) mb ino bs"
proof -
  note sh = shared_file_parts [OF assms(1)]
  have ids: "view_ids P u f (with_child r c a) mb ino = view_ids P u f a mb ino"
    by (simp add: view_ids_def)
  have "mailbox_at P m' (MymailboxUUID a) (MymailboxKey a) mb"
    using sh(1,6) frame [of "MymailboxUUID a"]
    by (subst mailbox_at_cong [of _ _ m]) (auto simp: footprint_def view_ids_def file_view_def)
  moreover have "inode_at P m' mb ino"
    using sh(1,6) frame [of "InodeUUID mb"]
    by (auto simp: inode_at_def reads_at_def footprint_def view_ids_def file_view_def)
  moreover have "blocks_at P m' (FileKey mb) (BlockUUIDs ino) bs"
    using sh(1,6) frame
    by (subst blocks_at_cong [of _ _ m]) (auto simp: footprint_def view_ids_def file_view_def)
  moreover have "mailbox_at P m' (ci_MailboxUUID d) (ci_MailboxKey d) mb"
      "ci_MailboxUUID d \<notin> set (user_id P (Username u) # view_ids P u f a mb ino)"
    if "d \<in> fset (child_infos (with_child r c a))" for d
  proof -
    have "mailbox_at P m' (ci_MailboxUUID d) (ci_MailboxKey d) mb \<and>
        ci_MailboxUUID d \<notin> set (user_id P (Username u) # view_ids P u f a mb ino)"
    proof (cases "d = c")
      case True
      with assms(5) new show ?thesis by (auto simp: footprint_def)
    next
      case False
      with child_infos_with_child [OF that] have d: "d \<in> fset (child_infos a)" by simp
      then show ?thesis
        using sh(9,10) [OF d] frame [of "ci_MailboxUUID d"]
        by (subst mailbox_at_cong [of _ _ m]) (auto simp: footprint_def view_ids_def)
    qed
    then show "mailbox_at P m' (ci_MailboxUUID d) (ci_MailboxKey d) mb"
      "ci_MailboxUUID d \<notin> set (user_id P (Username u) # view_ids P u f a mb ino)" by simp_all
  qed
  moreover have "inj_on ci_MailboxUUID (fset (child_infos (with_child r c a)))"
  proof (rule inj_on_subset)
    show "inj_on ci_MailboxUUID (insert c (fset (child_infos a)))"
      using sh(7) new by (auto simp: footprint_def inj_on_insert)
  qed (use child_infos_with_child in blast)
  moreover have "inj_on (fmlookup (children_of (with_child r c a))) (fset (fmdom (children_of (with_child r c a))))"
  proof -
    have "fmlookup (children_of a) k \<noteq> Some c" for k
      using new in_child_infos [of c a] by (auto simp: footprint_def)
    with sh(8) show ?thesis
      by (auto simp: inj_on_def)
  qed
  ultimately show ?thesis
    using assms(2,4) sh(3,4,6) ids by (simp add: shared_file_def file_view_def)
qed

lemma CreateInvitation_shared:
  assumes "provider_ok P" and shared: "shared_file P (store_data (backing s)) (userdata s) f a mb ino bs"
    and signing: "ed25519_genkey P t0 = Some (pk, SigningPrivateKey (userdata s))"
    and rkey: "store_keys (backing s) (r @ lit ''_enc_pub'') = Some (x25519_public P sk)" "length sk = 32"
    and r: "utf8_valid r"
    and fresh: "fresh_uuids P (tick s) 7 used" and used: "footprint P (userdata s) f a mb ino \<subseteq> used"
    and run: "CreateInvitation P memory_service f r s = (res, s')"
  shows "res = Inr (uuid_new P (tick s + 5))" and "userdata s' = userdata s" and "tick s' = tick s + 7"
    and "store_keys (backing s') = store_keys (backing s)"
    and "shared_file P (store_data (backing s')) (userdata s') f
      (with_child r (shared_child P (tick s)) a) mb ino bs"
    and "invitation_at P (store_data (backing s')) (uuid_new P (tick s + 5)) pk sk
      (child_invitation (shared_child P (tick s)))"
    and "i \<in> used \<Longrightarrow> i \<noteq> access_id P (Username (userdata s)) f \<Longrightarrow>
      store_data (backing s') i = store_data (backing s) i"
proof -
  note ok = provider_parts [OF assms(1)]
  note sh = shared_file_parts [OF shared]
  let ?t = "tick s" and ?u = "userdata s"
  let ?aid = "access_id P (Username ?u) f" and ?c = "shared_child P ?t"
  have "length (SigningPrivateKey ?u) = 64"
    using signing ok(1) unfolding rng_ok_def by (metis option.inject prod.inject)
  then obtain z where z: "decryptFor P sk z = Inr (marshal_invitation P (child_invitation ?c))"
    and "CreateInvitation P memory_service f r s = (Inr (uuid_new P (?t + 5)),
      write_data s (?t + 7) ((store_data (backing s))
        (uuid_new P ?t \<mapsto> sealed P (?t + 2) (marshal_mailbox P mb) (getMailKeys P (rnd P 32 (?t + 1))),
         uuid_new P (?t + 5) \<mapsto> z @ ed25519_sign P (SigningPrivateKey ?u) z,
         ?aid \<mapsto> sealed P (?t + 6) (marshal_access P (with_child r ?c a)) (getPersonalKey P (MasterKey ?u) f))))"
    using CreateInvitation_run [OF assms(1) sh(1) _ _ rkey] sh(5) by blast
  with run have res: "res = Inr (uuid_new P (?t + 5))" and s': "s' = write_data s (?t + 7) ((store_data (backing s))
        (uuid_new P ?t \<mapsto> sealed P (?t + 2) (marshal_mailbox P mb) (getMailKeys P (rnd P 32 (?t + 1))),
         uuid_new P (?t + 5) \<mapsto> z @ ed25519_sign P (SigningPrivateKey ?u) z,
         ?aid \<mapsto> sealed P (?t + 6) (marshal_access P (with_child r ?c a)) (getPersonalKey P (MasterKey ?u) f)))"
    by simp_all
  show "res = Inr (uuid_new P (?t + 5))" "userdata s' = userdata s" "tick s' = tick s + 7"
      "store_keys (backing s') = store_keys (backing s)"
    using res by (simp_all add: s')
  have new: "uuid_new P ?t \<notin> used" "uuid_new P (?t + 5) \<notin> used" "uuid_new P ?t \<noteq> uuid_new P (?t + 5)"
    using fresh_uuids_D(1) [OF fresh] fresh_uuids_D(2) [OF fresh, of ?t "?t + 5"] by simp_all
  show other: "store_data (backing s') i = store_data (backing s) i" if "i \<in> used" "i \<noteq> ?aid" for i
    using that new by (auto simp: s')
  have aid: "?aid \<in> used"
    using used by (auto simp: footprint_def view_ids_def)
  have "store_data (backing s') (uuid_new P (?t + 5)) = Some (z @ ed25519_sign P (SigningPrivateKey ?u) z)"
    using new aid by (auto simp: s')
  moreover have "verify P pk z (ed25519_sign P (SigningPrivateKey ?u) z) = Inr ()"
      "length (ed25519_sign P (SigningPrivateKey ?u) z) = 64"
    using verify_sign [OF ok(1,6) signing, of z] by (auto simp: sign_def split: if_splits)
  moreover have "wf_invitation (child_invitation ?c)"
    using ok(7) by (simp add: wf_invitation_def child_invitation_def shared_child_def uuid_ok_def)
  ultimately show "invitation_at P (store_data (backing s')) (uuid_new P (?t + 5)) pk sk (child_invitation ?c)"
    using invitation_atI [OF _ _ _ z] ok(7) by simp
  have child: "mailbox_at P (store_data (backing s')) (ci_MailboxUUID ?c) (ci_MailboxKey ?c) mb"
    unfolding mailbox_at_def
    by (rule reads_at_sealed [OF assms(1), where t = "?t + 2" and b = "marshal_mailbox P mb"])
      (use ok new aid sh(3) in \<open>auto simp: s' shared_child_def derived_full_keys\<close>)
  have wf: "wf_access (with_child r ?c a)"
    using ok(7) by (intro wf_with_child sh(2,5) r) (simp add: wf_child_def shared_child_def uuid_ok_def)
  have acc: "access_at P (store_data (backing s')) ?u f (with_child r ?c a)"
    unfolding access_at_def
    by (rule reads_at_sealed [OF assms(1), where t = "?t + 6" and b = "marshal_access P (with_child r ?c a)"])
      (use ok wf in \<open>auto simp: s' derived_full_keys\<close>)
  have frame: "store_data (backing s') i = store_data (backing s) i"
    if "i \<in> footprint P ?u f a mb ino" "i \<noteq> ?aid" for i
    using other that used by blast
  have "shared_file P (store_data (backing s')) ?u f (with_child r ?c a) mb ino bs"
    using new(1) used
    by (intro shared_file_with_child [OF shared wf _ acc child] frame) (auto simp: shared_child_def)
  then show "shared_file P (store_data (backing s')) (userdata s') f (with_child r ?c a) mb ino bs"
    by (simp add: s')
qed

section \<open>Accepting, in memory\<close>

definition accepted_access :: "Invitation \<Rightarrow> Access" where
  "accepted_access v = \<lparr>MymailboxUUID = inv_MailboxUUID v, MymailboxKey = inv_MailboxKey v, Children = Some fmempty\<rparr>"

lemma AcceptInvitation_run:
  assumes "provider_ok P"
    and inv: "invitation_at P (store_data (backing s)) i pk (EncryptionPrivateKey (userdata s)) v"
    and pk: "store_keys (backing s) (sender @ lit ''_sig_pub'') = Some pk"
    and files: "Files (userdata s) \<noteq> None" and salt: "length (PasswordSalt (userdata s)) = 16"
  shows "AcceptInvitation P memory_service sender i f s =
    (Inr (), (write_data s (tick s + 2) ((store_data (backing s))
       (access_id P (Username (userdata s)) f \<mapsto> sealed P (tick s) (marshal_access P (accepted_access v))
            (getPersonalKey P (MasterKey (userdata s)) f),
        user_id P (Username (userdata s)) \<mapsto> user_payload P (tick s + 1) (with_file P (userdata s) f))))
       \<lparr>userdata := with_file P (userdata s) f\<rparr>)"
proof -
  note ok = provider_parts [OF assms(1)]
  from inv obtain c g b where *: "store_data (backing s) i = Some (c @ g)" "length g = 64"
      "verify P pk c g = Inr ()" "decryptFor P (EncryptionPrivateKey (userdata s)) c = Inr b"
      "unmarshal_invitation P b = Inr v"
    unfolding invitation_at_def by blast
  from files obtain m where m: "Files (userdata s) = Some m" by blast
  show ?thesis
    using * ok pk salt m
    by (simp add: AcceptInvitation_def Let_def run_bind run_wrap memory_runs run_guard
        ed25519_SignatureSize_def run_encryptAndMAC derived_full_keys run_accessID set_file_def
        run_saveUser passwordSaltSize_def accepted_access_def with_file_def files_of_def write_data_def
        numeral_eq_Suc)
qed

text \<open>The checks of \<open>AcceptInvitation\<close>: nothing is written before the signature has been verified.\<close>

lemma AcceptInvitation_rejects:
  assumes "store_data (backing s) i = Some (c @ g)" and "length g = 64"
    and "store_keys (backing s) (sender @ lit ''_sig_pub'') = Some pk"
    and "verify P pk c g \<noteq> Inr ()"
  shows "AcceptInvitation P memory_service sender i f s =
    (Inl (Msg ''invitation signature verification failed for sender %s'' [sender]), s)"
  using assms
  by (simp add: AcceptInvitation_def Let_def run_bind run_wrap memory_runs run_guard ed25519_SignatureSize_def)

lemma AcceptInvitation_Inr_verified:
  assumes "AcceptInvitation P memory_service sender i f s = (Inr (), s')"
  obtains c g pk b v where "store_data (backing s) i = Some (c @ g)" and "length g = 64"
    and "store_keys (backing s) (sender @ lit ''_sig_pub'') = Some pk" and "verify P pk c g = Inr ()"
    and "decryptFor P (EncryptionPrivateKey (userdata s)) c = Inr b" and "unmarshal_invitation P b = Inr v"
proof -
  from assms obtain p where p: "store_data (backing s) i = Some p"
    by (cases "store_data (backing s) i")
      (simp_all add: AcceptInvitation_def run_bind run_wrap memory_runs)
  from assms p have len: "64 \<le> length p"
    by (rule_tac ccontr)
      (simp add: AcceptInvitation_def run_bind run_wrap memory_runs run_guard ed25519_SignatureSize_def)
  from assms p len obtain pk where pk: "store_keys (backing s) (sender @ lit ''_sig_pub'') = Some pk"
    by (cases "store_keys (backing s) (sender @ lit ''_sig_pub'')")
      (simp_all add: AcceptInvitation_def run_bind run_wrap memory_runs run_guard ed25519_SignatureSize_def Let_def)
  let ?c = "take (length p - 64) p" and ?g = "drop (length p - 64) p"
  have ver: "verify P pk ?c ?g = Inr ()"
    using assms p len pk
    by (rule_tac ccontr)
      (simp add: AcceptInvitation_def run_bind run_wrap memory_runs run_guard ed25519_SignatureSize_def Let_def)
  obtain b where b: "decryptFor P (EncryptionPrivateKey (userdata s)) ?c = Inr b"
    using assms p len pk ver
    by (cases "decryptFor P (EncryptionPrivateKey (userdata s)) ?c")
      (simp_all add: AcceptInvitation_def run_bind run_wrap memory_runs run_guard ed25519_SignatureSize_def Let_def)
  obtain v where "unmarshal_invitation P b = Inr v"
    using assms p len pk ver b
    by (cases "unmarshal_invitation P b")
      (simp_all add: AcceptInvitation_def run_bind run_wrap memory_runs run_guard ed25519_SignatureSize_def Let_def)
  with that [of ?c ?g pk b v] p len pk ver b show thesis
    by simp
qed

text \<open>
  Accepting gives the recipient a view of the owner's file, and leaves the owner's view alone.
  \<open>f\<close> is the name the recipient gives the file, \<open>fo\<close> the owner's.
\<close>

lemma AcceptInvitation_view:
  assumes "provider_ok P"
    and shared: "shared_file P (store_data (backing s)) owner fo a mb ino bs" and c: "c \<in> fset (child_infos a)"
    and inv: "invitation_at P (store_data (backing s)) i pk (EncryptionPrivateKey (userdata s)) (child_invitation c)"
    and pk: "store_keys (backing s) (sender @ lit ''_sig_pub'') = Some pk"
    and files: "Files (userdata s) \<noteq> None" and salt: "length (PasswordSalt (userdata s)) = 16"
    and apart: "access_id P (Username (userdata s)) f \<notin> footprint P owner fo a mb ino"
      "user_id P (Username (userdata s)) \<notin> footprint P owner fo a mb ino"
      "access_id P (Username (userdata s)) f \<noteq> user_id P (Username (userdata s))"
    and run: "AcceptInvitation P memory_service sender i f s = (r, s')"
  shows "r = Inr ()" and "userdata s' = with_file P (userdata s) f" and "tick s' = tick s + 2"
    and "file_view P (store_data (backing s')) (userdata s') f (accepted_access (child_invitation c)) mb ino bs"
    and "shared_file P (store_data (backing s')) owner fo a mb ino bs"
proof -
  note ok = provider_parts [OF assms(1)]
  note sh = shared_file_parts [OF shared]
  let ?u = "userdata s" and ?m = "store_data (backing s)" and ?m' = "store_data (backing s')"
  let ?aid = "access_id P (Username ?u) f" and ?uid = "user_id P (Username ?u)"
  let ?a = "accepted_access (child_invitation c)"
  note res = AcceptInvitation_run [OF assms(1) inv pk files salt, of f, unfolded run, simplified prod.inject]
  have data: "?m' = ?m(?aid \<mapsto> sealed P (tick s) (marshal_access P ?a) (getPersonalKey P (MasterKey ?u) f),
      ?uid \<mapsto> user_payload P (tick s + 1) (with_file P ?u f))"
    using res by simp
  show "r = Inr ()" and "tick s' = tick s + 2" and user: "userdata s' = with_file P ?u f"
    using res by simp_all
  have same: "?m' i = ?m i" if "i \<in> footprint P owner fo a mb ino" for i
    using that apart by (auto simp: data)
  then show "shared_file P ?m' owner fo a mb ino bs"
    by (intro shared_file_frame [OF shared]) simp
  have "wf_access ?a"
    using sh(2) c by (auto simp: wf_access_def accepted_access_def child_invitation_def in_child_infos
        wf_map_def wf_child_def sh(5))
  then have "access_at P ?m' (with_file P ?u f) f ?a"
    unfolding access_at_def
    by (intro reads_at_sealed [OF assms(1), where t = "tick s" and b = "marshal_access P ?a"])
      (use ok apart(3) in \<open>simp_all add: data derived_full_keys\<close>)
  moreover have "mailbox_at P ?m' (ci_MailboxUUID c) (ci_MailboxKey c) mb"
    using sh(10) [OF c] same [of "ci_MailboxUUID c"] c
    by (subst mailbox_at_cong [of _ _ ?m]) (auto simp: footprint_def)
  moreover have "inode_at P ?m' mb ino"
    using sh(1) same [of "InodeUUID mb"]
    by (auto simp: file_view_def inode_at_def reads_at_def footprint_def view_ids_def)
  moreover have "blocks_at P ?m' (FileKey mb) (BlockUUIDs ino) bs"
    using sh(1) same
    by (subst blocks_at_cong [of _ _ ?m]) (auto simp: file_view_def footprint_def view_ids_def)
  ultimately show "file_view P ?m' (userdata s') f ?a mb ino bs"
    by (simp add: file_view_def user accepted_access_def child_invitation_def)
qed

end
