(* ===== verification/Revocation.thy ===== *)
theory Revocation
  imports InvitationService
begin

text \<open>
  What \<open>RevokeAccess\<close> of \<open>internal/client/encryption/service.go\<close> does to a shared file in memory:
  the block and children loops, the new file key, and who can still read the file afterwards.
  The definitions of the program are in \<open>InvitationService\<close>.
\<close>

section \<open>The loops of a revocation, in memory\<close>

fun put_at :: "provider \<Rightarrow> nat \<Rightarrow> bytes \<times> bytes \<Rightarrow> (uuid \<times> bytes) list \<Rightarrow> (uuid \<rightharpoonup> bytes) \<Rightarrow> (uuid \<rightharpoonup> bytes)" where
  "put_at P t keys [] m = m"
| "put_at P t keys ((u, b) # ps) m = put_at P (Suc t) keys ps (m(u \<mapsto> sealed P t b keys))"

lemma put_at_other: "i \<notin> fst ` set ps \<Longrightarrow> put_at P t keys ps m i = m i"
  by (induction P t keys ps m rule: put_at.induct) auto

lemma run_rekey_blocks:
  assumes "provider_ok P" and "full_keys new"
  shows "blocks_at P (store_data (backing s)) k us bs \<Longrightarrow> distinct us \<Longrightarrow>
    rekey_blocks P MemoryStorage f (getFileKeys P k) new us s =
      (Inr (), write_data s (tick s + length us) (put_at P (tick s) new (zip us bs) (store_data (backing s))))"
proof (induction us arbitrary: s bs)
  case Nil
  then show ?case by (simp add: write_data_def)
next
  case (Cons u us)
  then obtain b bs' where bs: "bs = b # bs'"
    and u: "reads_at P (store_data (backing s)) u (getFileKeys P k) Inr b"
    and us: "blocks_at P (store_data (backing s)) k us bs'"
    by (auto simp: blocks_at_def list_all2_Cons1)
  let ?s' = "write_data s (Suc (tick s)) ((store_data (backing s))(u \<mapsto> sealed P (tick s) b new))"
  have "rekey_blocks P MemoryStorage f (getFileKeys P k) new us ?s' = (Inr (),
      write_data ?s' (tick ?s' + length us) (put_at P (tick ?s') new (zip us bs') (store_data (backing ?s'))))"
  proof (rule Cons.IH)
    show "blocks_at P (store_data (backing ?s')) k us bs'"
      using us Cons.prems(2) by simp
  qed (use Cons.prems(2) in simp)
  with u bs show ?case
    by (simp add: run_bind run_open_record run_seal_record [OF assms])
qed

lemma put_at_blocks:
  assumes "provider_ok P"
  shows "length us = length bs \<Longrightarrow> distinct us \<Longrightarrow>
    blocks_at P (put_at P t (getFileKeys P k) (zip us bs) m) k us bs"
proof (induction us bs arbitrary: t m rule: list_induct2)
  case Nil
  then show ?case by (simp add: blocks_at_def)
next
  case (Cons u us b bs)
  let ?m' = "put_at P (Suc t) (getFileKeys P k) (zip us bs) (m(u \<mapsto> sealed P t b (getFileKeys P k)))"
  have "u \<notin> fst ` set (zip us bs)"
    using Cons.prems by (auto dest: set_zip_leftD)
  then have "?m' u = Some (sealed P t b (getFileKeys P k))"
    by (simp add: put_at_other)
  then have "reads_at P ?m' u (getFileKeys P k) Inr b"
    using provider_parts [OF assms] by (intro reads_at_sealed [OF assms]) (simp_all add: derived_full_keys)
  with Cons show ?case
    by (simp add: blocks_at_def)
qed

fun put_children ::
  "provider \<Rightarrow> nat \<Rightarrow> gostr \<Rightarrow> MailboxNode \<Rightarrow> (gostr \<times> ChildrenInfo) list \<Rightarrow> (uuid \<rightharpoonup> bytes) \<Rightarrow> (uuid \<rightharpoonup> bytes)"
where
  "put_children P t r mb [] m = m"
| "put_children P t r mb ((n, c) # cs) m =
     (if n = r then put_children P t r mb cs m
      else put_children P (Suc t) r mb cs
        (m(ci_MailboxUUID c \<mapsto> sealed P t (marshal_mailbox P mb) (getMailKeys P (ci_MailboxKey c)))))"

definition kept :: "gostr \<Rightarrow> (gostr \<times> ChildrenInfo) list \<Rightarrow> ChildrenInfo list" where
  "kept r cs = map snd (filter (\<lambda>(n, c). n \<noteq> r) cs)"

lemma kept_simps [simp]:
  "kept r [] = []"
  "kept r ((n, c) # cs) = (if n = r then kept r cs else c # kept r cs)"
  by (simp_all add: kept_def)

lemma put_children_other:
  "i \<notin> ci_MailboxUUID ` set (kept r cs) \<Longrightarrow> put_children P t r mb cs m i = m i"
  by (induction P t r mb cs m rule: put_children.induct) (auto split: if_splits)

lemma run_rekey_children:
  assumes "provider_ok P"
  shows "\<forall>c \<in> set (kept r cs). mailbox_at P (store_data (backing s)) (ci_MailboxUUID c) (ci_MailboxKey c) mb \<Longrightarrow>
    distinct (map ci_MailboxUUID (kept r cs)) \<Longrightarrow>
    rekey_children P MemoryStorage r k cs s =
      (Inr (), write_data s (tick s + length (kept r cs))
         (put_children P (tick s) r (mb\<lparr>FileKey := k\<rparr>) cs (store_data (backing s))))"
proof (induction cs arbitrary: s)
  case Nil
  then show ?case by (simp add: write_data_def)
next
  case (Cons e cs)
  obtain n c where e: "e = (n, c)"
    by fastforce
  show ?case
  proof (cases "n = r")
    case True
    with Cons e show ?thesis by simp
  next
    case False
    with Cons.prems e have c: "mailbox_at P (store_data (backing s)) (ci_MailboxUUID c) (ci_MailboxKey c) mb"
      and fresh: "ci_MailboxUUID c \<notin> ci_MailboxUUID ` set (kept r cs)"
      by auto
    let ?s' = "write_data s (Suc (tick s)) ((store_data (backing s))(ci_MailboxUUID c \<mapsto>
        sealed P (tick s) (marshal_mailbox P (mb\<lparr>FileKey := k\<rparr>)) (getMailKeys P (ci_MailboxKey c))))"
    have "rekey_children P MemoryStorage r k cs ?s' =
      (Inr (), write_data ?s' (tick ?s' + length (kept r cs))
         (put_children P (tick ?s') r (mb\<lparr>FileKey := k\<rparr>) cs (store_data (backing ?s'))))"
    proof (rule Cons.IH)
      show "\<forall>d \<in> set (kept r cs). mailbox_at P (store_data (backing ?s')) (ci_MailboxUUID d) (ci_MailboxKey d) mb"
      proof
        fix d
        assume d: "d \<in> set (kept r cs)"
        with fresh have "ci_MailboxUUID d \<noteq> ci_MailboxUUID c" by (metis image_eqI)
        with Cons.prems(1) d False e
        show "mailbox_at P (store_data (backing ?s')) (ci_MailboxUUID d) (ci_MailboxKey d) mb"
          by simp
      qed
    qed (use Cons.prems(2) False e in simp)
    with c False e show ?thesis
      using provider_parts [OF assms]
      by (simp add: run_bind run_open_record mailbox_at_def run_seal_record [OF assms] derived_full_keys)
  qed
qed

lemma put_children_mailboxes:
  assumes "provider_ok P" and "wf_mailbox mb"
  shows "distinct (map ci_MailboxUUID (kept r cs)) \<Longrightarrow> c \<in> set (kept r cs) \<Longrightarrow>
    mailbox_at P (put_children P t r mb cs m) (ci_MailboxUUID c) (ci_MailboxKey c) mb"
proof (induction cs arbitrary: t m)
  case (Cons e cs)
  obtain n d where e: "e = (n, d)"
    by fastforce
  show ?case
  proof (cases "n = r \<or> c \<in> set (kept r cs)")
    case True
    with Cons e show ?thesis by (auto split: if_splits)
  next
    case False
    with Cons.prems e have "c = d" and "ci_MailboxUUID d \<notin> ci_MailboxUUID ` set (kept r cs)"
      by auto
    then show ?thesis
      using e False provider_parts [OF assms(1)] assms(2)
      by (auto simp: mailbox_at_def put_children_other derived_full_keys
          intro!: reads_at_sealed [OF assms(1)])
  qed
qed simp

section \<open>Revoking, in memory\<close>

definition revoked_mailbox :: "provider \<Rightarrow> nat \<Rightarrow> MailboxNode \<Rightarrow> MailboxNode" where
  "revoked_mailbox P t mb = mb\<lparr>FileKey := rnd P 32 t\<rparr>"

text \<open>\<open>n\<close> is the number of blocks.\<close>

definition revoked_access :: "provider \<Rightarrow> nat \<Rightarrow> nat \<Rightarrow> gostr \<Rightarrow> Access \<Rightarrow> Access" where
  "revoked_access P t n r a = a\<lparr>Children := Some (fmdrop r (children_of a)),
     MymailboxUUID := uuid_new P (t + n + 3), MymailboxKey := rnd P 32 (t + n + 2)\<rparr>"

definition child_list :: "provider \<Rightarrow> nat \<Rightarrow> Access \<Rightarrow> (gostr \<times> ChildrenInfo) list" where
  "child_list P t a = child_entries (children_of a) (map_order P t (sorted_list_of_fset (fmdom (children_of a))))"

definition rekeyed_file ::
  "provider \<Rightarrow> nat \<Rightarrow> gostr \<Rightarrow> Access \<Rightarrow> MailboxNode \<Rightarrow> Inode \<Rightarrow> bytes list \<Rightarrow> (uuid \<rightharpoonup> bytes) \<Rightarrow> (uuid \<rightharpoonup> bytes)"
where
  "rekeyed_file P t r a mb ino bs m =
     (let n = length (BlockUUIDs ino); nmb = revoked_mailbox P t mb; na = revoked_access P t n r a
      in (put_at P (Suc t) (getFileKeys P (FileKey nmb)) (zip (BlockUUIDs ino) bs) m)
           (InodeUUID mb \<mapsto> sealed P (t + n + 1) (marshal_inode P ino) (getFileKeys P (FileKey nmb)),
            MymailboxUUID na \<mapsto> sealed P (t + n + 4) (marshal_mailbox P nmb) (getMailKeys P (MymailboxKey na))))"

definition revoked_file ::
  "provider \<Rightarrow> nat \<Rightarrow> User \<Rightarrow> gostr \<Rightarrow> gostr \<Rightarrow> Access \<Rightarrow> MailboxNode \<Rightarrow> Inode \<Rightarrow> bytes list \<Rightarrow> (uuid \<rightharpoonup> bytes) \<Rightarrow> (uuid \<rightharpoonup> bytes)"
where
  "revoked_file P t u f r a mb ino bs m =
     (let n = length (BlockUUIDs ino); cs = child_list P (t + n + 5) a; k = length (kept r cs)
      in (put_children P (t + n + 6) r (revoked_mailbox P t mb) cs (rekeyed_file P t r a mb ino bs m))
           (access_id P (Username u) f \<mapsto> sealed P (t + n + 6 + k)
              (marshal_access P (revoked_access P t n r a)) (getPersonalKey P (MasterKey u) f)))"

lemma child_entries_set:
  assumes "set ks = fset (fmdom m)"
  shows "set (child_entries m ks) = {(n, c). fmlookup m n = Some c}"
  using assms by (force simp: child_entries_def fmlookup_dom_iff)

lemma kept_child_list:
  assumes "order_ok P"
  shows "c \<in> set (kept r (child_list P t a)) \<longleftrightarrow> (\<exists>n. n \<noteq> r \<and> fmlookup (children_of a) n = Some c)"
    and "distinct (map fst (child_list P t a))"
proof -
  let ?ks = "sorted_list_of_fset (fmdom (children_of a))"
  have ks: "distinct ?ks" "set ?ks = fset (fmdom (children_of a))"
    by (simp_all add: sorted_list_of_fset.rep_eq)
  then have ord: "distinct (map_order P t ?ks)" "set (map_order P t ?ks) = fset (fmdom (children_of a))"
    using assms by (simp_all add: order_ok_def)
  then show "distinct (map fst (child_list P t a))"
    by (simp add: child_list_def child_entries_def comp_def)
  have "set (kept r (child_list P t a)) = {c. \<exists>n. n \<noteq> r \<and> (n, c) \<in> set (child_list P t a)}"
    by (force simp: kept_def)
  then show "c \<in> set (kept r (child_list P t a)) \<longleftrightarrow> (\<exists>n. n \<noteq> r \<and> fmlookup (children_of a) n = Some c)"
    by (simp add: child_list_def child_entries_set [OF ord(2)])
qed

lemma kept_subset: "order_ok P \<Longrightarrow> c \<in> set (kept r (child_list P t a)) \<Longrightarrow> c \<in> fset (child_infos a)"
  by (auto simp: kept_child_list in_child_infos)

lemma distinct_kept:
  assumes "distinct (map fst cs)" and "inj_on ci_MailboxUUID I"
    and "\<And>n c. (n, c) \<in> set cs \<Longrightarrow> L n = Some c \<and> c \<in> I"
    and "\<And>n n' c. L n = Some c \<Longrightarrow> L n' = Some c \<Longrightarrow> n = n'"
  shows "distinct (map ci_MailboxUUID (kept r cs))"
  using assms(1,3)
proof (induction cs)
  case (Cons e cs)
  obtain n c where e: "e = (n, c)"
    by fastforce
  have "ci_MailboxUUID c \<notin> ci_MailboxUUID ` set (kept r cs)"
  proof
    assume "ci_MailboxUUID c \<in> ci_MailboxUUID ` set (kept r cs)"
    then obtain n' d where d: "(n', d) \<in> set cs" "ci_MailboxUUID c = ci_MailboxUUID d"
      by (auto simp: kept_def)
    have "L n = Some c \<and> c \<in> I" by (rule Cons.prems(2)) (simp add: e)
    moreover have "L n' = Some d \<and> d \<in> I" by (rule Cons.prems(2)) (simp add: d(1))
    ultimately have "c \<in> I" "d \<in> I" "L n = Some c" "L n' = Some d"
      by simp_all
    with assms(2,4) d(2) have "n = n'"
      by (metis inj_onD)
    with Cons.prems(1) e d(1) show False
      by force
  qed
  moreover have "distinct (map ci_MailboxUUID (kept r cs))"
  proof (rule Cons.IH)
    show "L n = Some c \<and> c \<in> I" if "(n, c) \<in> set cs" for n c
      using that by (intro Cons.prems(2)) simp
  qed (use Cons.prems(1) in simp)
  ultimately show ?case
    by (simp add: e)
qed simp

lemma distinct_kept_child_list:
  assumes "order_ok P" and "shared_file P m u f a mb ino bs"
  shows "distinct (map ci_MailboxUUID (kept r (child_list P t a)))"
proof (rule distinct_kept)
  note sh = shared_file_parts [OF assms(2)]
  show "distinct (map fst (child_list P t a))"
    by (rule kept_child_list [OF assms(1)])
  show "inj_on ci_MailboxUUID (fset (child_infos a))"
    by (rule sh)
  have ks: "set (map_order P t (sorted_list_of_fset (fmdom (children_of a)))) = fset (fmdom (children_of a))"
    using assms(1) by (simp add: order_ok_def sorted_list_of_fset.rep_eq)
  show "fmlookup (children_of a) n = Some c \<and> c \<in> fset (child_infos a)" if "(n, c) \<in> set (child_list P t a)" for n c
    using that by (auto simp: child_list_def child_entries_set [OF ks] in_child_infos)
  show "n = n'" if "fmlookup (children_of a) n = Some c" "fmlookup (children_of a) n' = Some c" for n n' c
    using sh(8) that by (auto simp: inj_on_def fmlookup_dom_iff)
qed

lemma rekeyed_file_other:
  assumes "i \<notin> set (BlockUUIDs ino)" and "i \<noteq> InodeUUID mb" and "i \<noteq> uuid_new P (t + length (BlockUUIDs ino) + 3)"
  shows "rekeyed_file P t r a mb ino bs m i = m i"
proof -
  have "i \<notin> fst ` set (zip (BlockUUIDs ino) bs)"
    using assms(1) by (auto dest: set_zip_leftD)
  with assms(2,3) show ?thesis
    by (simp add: rekeyed_file_def Let_def put_at_other revoked_access_def)
qed

lemma RevokeAccess_run:
  assumes "provider_ok P" and shared: "shared_file P (store_data (backing s)) (userdata s) f a mb ino bs"
    and files: "Files (userdata s) \<noteq> None" and salt: "length (PasswordSalt (userdata s)) = 16"
    and n: "n = length (BlockUUIDs ino)" and k: "k = length (kept r (child_list P (tick s + n + 5) a))"
    and new: "uuid_new P (tick s + n + 3) \<notin> footprint P (userdata s) f a mb ino"
  shows "RevokeAccess P memory_service f r s =
    (Inr (), (write_data s (tick s + n + k + 8)
       ((revoked_file P (tick s) (userdata s) f r a mb ino bs (store_data (backing s)))
          (user_id P (Username (userdata s)) \<mapsto> user_payload P (tick s + n + k + 7) (with_file P (userdata s) f))))
       \<lparr>userdata := with_file P (userdata s) f\<rparr>)"
proof -
  note ok = provider_parts [OF assms(1)]
  note sh = shared_file_parts [OF shared]
  let ?m = "store_data (backing s)" and ?u = "userdata s" and ?t = "tick s"
  let ?new = "getFileKeys P (rnd P 32 ?t)" and ?cs = "child_list P (?t + n + 5) a"
  have blocks: "blocks_at P ?m (FileKey mb) (BlockUUIDs ino) bs" and dist: "distinct (BlockUUIDs ino)"
    using sh(1,6) by (simp_all add: file_view_def view_ids_def)
  define s1 where "s1 = write_data s (Suc ?t) ?m"
  have rb: "rekey_blocks P MemoryStorage f (getFileKeys P (FileKey mb)) ?new (BlockUUIDs ino) s1 =
      (Inr (), write_data s1 (Suc ?t + n) (put_at P (Suc ?t) ?new (zip (BlockUUIDs ino) bs) ?m))"
    using run_rekey_blocks [OF assms(1), of ?new s1] blocks dist ok n
    by (simp add: derived_full_keys s1_def)
  define s3 where "s3 = write_data s (?t + n + 6) (rekeyed_file P ?t r a mb ino bs ?m)"
  have rc: "rekey_children P MemoryStorage r (rnd P 32 ?t) ?cs s3 =
      (Inr (), write_data s3 (tick s3 + k) (put_children P (tick s3) r (mb\<lparr>FileKey := rnd P 32 ?t\<rparr>) ?cs
         (store_data (backing s3))))"
    unfolding k
  proof (rule run_rekey_children [OF assms(1)])
    show "distinct (map ci_MailboxUUID (kept r ?cs))"
      by (rule distinct_kept_child_list [OF ok(2) shared])
    show "\<forall>c \<in> set (kept r ?cs). mailbox_at P (store_data (backing s3)) (ci_MailboxUUID c) (ci_MailboxKey c) mb"
    proof
      fix c
      assume "c \<in> set (kept r ?cs)"
      then have c: "c \<in> fset (child_infos a)" by (rule kept_subset [OF ok(2)])
      then have "ci_MailboxUUID c \<in> footprint P ?u f a mb ino" by (simp add: footprint_def)
      with new have "ci_MailboxUUID c \<noteq> uuid_new P (?t + n + 3)" by metis
      then have "store_data (backing s3) (ci_MailboxUUID c) = ?m (ci_MailboxUUID c)"
        using sh(9) [OF c] by (simp add: s3_def rekeyed_file_other view_ids_def n)
      then show "mailbox_at P (store_data (backing s3)) (ci_MailboxUUID c) (ci_MailboxKey c) mb"
        using sh(10) [OF c] by (simp add: mailbox_at_def reads_at_def)
    qed
  qed
  obtain fm where fm: "Files ?u = Some fm"
    using files by blast
  have ch: "map_option (fmdrop r) (Children a) = Some (fmdrop r (children_of a))"
    using sh(5) by (metis option.simps(9))
  have io: "\<And>c1 e c2 c3 t. open_record P MemoryStorage c1 e c2 c3 (InodeUUID mb) (getFileKeys P (FileKey mb))
      (unmarshal_inode P) (write_data s t ?m) = (Inr ino, write_data s t ?m)"
    using sh(1) by (intro run_open_record) (simp add: file_view_def inode_at_def)
  have nm: "\<And>x. \<lparr>FileKey = x, InodeUUID = InodeUUID mb\<rparr> = mb\<lparr>FileKey := x\<rparr>"
    by simp
  have tk: "s\<lparr>tick := Suc ?t\<rparr> = write_data s (Suc ?t) ?m"
      "\<And>t m t'. (write_data s t m)\<lparr>tick := t'\<rparr> = write_data s t' m"
    by (simp_all add: write_data_def)
  have sf: "\<And>i t m. set_file f i (write_data s t m) =
      (Inr (), (write_data s t m)\<lparr>userdata := ?u\<lparr>Files := Some (fmupd f i (files_of ?u))\<rparr>\<rparr>)"
    by (simp add: set_file_def fm files_of_def)
  have sv: "\<And>u' t m. length (PasswordSalt u') = 16 \<Longrightarrow>
      saveUser P MemoryStorage u' ((write_data s t m)\<lparr>userdata := u'\<rparr>) =
      (Inr (), (write_data s (Suc t) (m(user_id P (Username u') \<mapsto> user_payload P t u')))\<lparr>userdata := u'\<rparr>)"
    using ok by (simp add: run_saveUser passwordSaltSize_def write_data_def)
  show ?thesis
    using ok salt rb rc
    by (simp add: RevokeAccess_def commit_revocation_def Let_def run_bind run_wrap run_accessID view_opens [OF sh(1)]
        run_randomBytes run_seal_record [OF assms(1)] derived_full_keys masterKeySize_def run_draw
        run_uuidNew ch io nm tk sf sv with_file_def
        revoked_file_def rekeyed_file_def revoked_mailbox_def revoked_access_def child_list_def
        s1_def s3_def n k add_small)
qed

lemma revoked_simps [simp]:
  "InodeUUID (revoked_mailbox P t mb) = InodeUUID mb" "FileKey (revoked_mailbox P t mb) = rnd P 32 t"
  "wf_mailbox (revoked_mailbox P t mb) = wf_mailbox mb"
  "children_of (revoked_access P t n r a) = fmdrop r (children_of a)"
  "Children (revoked_access P t n r a) \<noteq> None"
  "MymailboxUUID (revoked_access P t n r a) = uuid_new P (t + n + 3)"
  "MymailboxKey (revoked_access P t n r a) = rnd P 32 (t + n + 2)"
  by (simp_all add: revoked_mailbox_def revoked_access_def children_of_def wf_mailbox_def)

lemma wf_revoked_access:
  assumes "uuid_ok P" and "wf_access a" and "Children a = Some (children_of a)"
  shows "wf_access (revoked_access P t n r a)"
  using assms by (simp add: wf_access_def revoked_access_def uuid_ok_def)

lemma child_infos_revoked:
  "c \<in> fset (child_infos (revoked_access P t n r a)) \<longleftrightarrow> (\<exists>x. x \<noteq> r \<and> fmlookup (children_of a) x = Some c)"
  by (auto simp: in_child_infos)

lemma put_at_sealed:
  assumes "u \<in> fst ` set ps"
  shows "\<exists>t' b. put_at P t keys ps m u = Some (sealed P t' b keys)"
  using assms
proof (induction ps arbitrary: t m)
  case (Cons p ps)
  obtain u' b where p: "p = (u', b)"
    by fastforce
  show ?case
  proof (cases "u \<in> fst ` set ps")
    case True
    then show ?thesis unfolding p put_at.simps by (rule Cons.IH)
  next
    case False
    with Cons.prems p show ?thesis by (auto simp: put_at_other)
  qed
qed simp

text \<open>What the records a revocation writes have to do with each other.\<close>

lemma revocation_apart:
  assumes "provider_ok P" and shared: "shared_file P m u f a mb ino bs"
    and "uuid_new P (t + n + 3) \<notin> footprint P u f a mb ino"
  shows "access_id P (Username u) f \<noteq> InodeUUID mb" "access_id P (Username u) f \<notin> set (BlockUUIDs ino)"
    "InodeUUID mb \<notin> set (BlockUUIDs ino)" "uuid_new P (t + n + 3) \<noteq> access_id P (Username u) f"
    "uuid_new P (t + n + 3) \<noteq> InodeUUID mb" "uuid_new P (t + n + 3) \<notin> set (BlockUUIDs ino)"
    "distinct (BlockUUIDs ino)" "length (BlockUUIDs ino) = length bs"
    and "i \<in> insert (uuid_new P (t + n + 3)) (set (user_id P (Username u) # view_ids P u f a mb ino)) \<Longrightarrow>
      i \<notin> ci_MailboxUUID ` set (kept r (child_list P t' a))"
proof -
  note sh = shared_file_parts [OF shared]
  show "access_id P (Username u) f \<noteq> InodeUUID mb" "access_id P (Username u) f \<notin> set (BlockUUIDs ino)"
    "InodeUUID mb \<notin> set (BlockUUIDs ino)" "uuid_new P (t + n + 3) \<noteq> access_id P (Username u) f"
    "uuid_new P (t + n + 3) \<noteq> InodeUUID mb" "uuid_new P (t + n + 3) \<notin> set (BlockUUIDs ino)"
    "distinct (BlockUUIDs ino)"
    using sh(6) assms(3) by (auto simp: view_ids_def footprint_def)
  show "length (BlockUUIDs ino) = length bs"
    using sh(1) by (auto simp: file_view_def blocks_at_def dest: list_all2_lengthD)
  show "i \<notin> ci_MailboxUUID ` set (kept r (child_list P t' a))"
    if "i \<in> insert (uuid_new P (t + n + 3)) (set (user_id P (Username u) # view_ids P u f a mb ino))"
  proof
    assume "i \<in> ci_MailboxUUID ` set (kept r (child_list P t' a))"
    then obtain c where c: "c \<in> set (kept r (child_list P t' a))" "i = ci_MailboxUUID c" by blast
    note ci = kept_subset [OF provider_parts(2) [OF assms(1)] c(1)]
    with sh(9) [OF ci] that c(2) have "i = uuid_new P (t + n + 3)" by blast
    with assms(3) ci c(2) show False by (auto simp: footprint_def)
  qed
qed

text \<open>The record a revocation leaves at an identifier.\<close>

lemma revoked_file_lookup:
  fixes r :: gostr
  assumes "provider_ok P" and shared: "shared_file P m u f a mb ino bs"
    and n: "n = length (BlockUUIDs ino)"
    and new: "uuid_new P (t + n + 3) \<notin> footprint P u f a mb ino"
  defines "m' \<equiv> revoked_file P t u f r a mb ino bs m"
    and "keys \<equiv> getFileKeys P (rnd P 32 t)" and "kids \<equiv> kept r (child_list P (t + n + 5) a)"
  shows "m' (access_id P (Username u) f) = Some (sealed P (t + n + 6 + length kids)
      (marshal_access P (revoked_access P t n r a)) (getPersonalKey P (MasterKey u) f))"
    and "m' (uuid_new P (t + n + 3)) = Some (sealed P (t + n + 4) (marshal_mailbox P (revoked_mailbox P t mb))
      (getMailKeys P (rnd P 32 (t + n + 2))))"
    and "m' (InodeUUID mb) = Some (sealed P (t + n + 1) (marshal_inode P ino) keys)"
    and "i \<in> set (BlockUUIDs ino) \<Longrightarrow> m' i = put_at P (Suc t) keys (zip (BlockUUIDs ino) bs) m i"
    and "i \<noteq> access_id P (Username u) f \<Longrightarrow> m' i = put_children P (t + n + 6) r (revoked_mailbox P t mb)
      (child_list P (t + n + 5) a) (rekeyed_file P t r a mb ino bs m) i"
    and "i \<notin> {access_id P (Username u) f, InodeUUID mb, uuid_new P (t + n + 3)} \<Longrightarrow> i \<notin> set (BlockUUIDs ino) \<Longrightarrow>
      i \<notin> ci_MailboxUUID ` set kids \<Longrightarrow> m' i = m i"
proof -
  note apart = revocation_apart [OF assms(1) shared new]
  have m2: "rekeyed_file P t r a mb ino bs m = (put_at P (Suc t) keys (zip (BlockUUIDs ino) bs) m)
      (InodeUUID mb \<mapsto> sealed P (t + n + 1) (marshal_inode P ino) keys,
       uuid_new P (t + n + 3) \<mapsto> sealed P (t + n + 4) (marshal_mailbox P (revoked_mailbox P t mb))
         (getMailKeys P (rnd P 32 (t + n + 2))))"
    by (simp add: rekeyed_file_def Let_def n keys_def)
  have m': "m' = (put_children P (t + n + 6) r (revoked_mailbox P t mb) (child_list P (t + n + 5) a)
      (rekeyed_file P t r a mb ino bs m))(access_id P (Username u) f \<mapsto>
        sealed P (t + n + 6 + length kids) (marshal_access P (revoked_access P t n r a)) (getPersonalKey P (MasterKey u) f))"
    by (simp add: m'_def revoked_file_def Let_def n kids_def)
  have off: "m' i = rekeyed_file P t r a mb ino bs m i"
    if "i \<noteq> access_id P (Username u) f" "i \<notin> ci_MailboxUUID ` set kids" for i
    using that by (simp add: m' put_children_other kids_def)
  show "m' (access_id P (Username u) f) = Some (sealed P (t + n + 6 + length kids)
      (marshal_access P (revoked_access P t n r a)) (getPersonalKey P (MasterKey u) f))"
    by (simp add: m')
  show "m' (uuid_new P (t + n + 3)) = Some (sealed P (t + n + 4) (marshal_mailbox P (revoked_mailbox P t mb))
      (getMailKeys P (rnd P 32 (t + n + 2))))"
    using apart(4,5) apart(9) [of "uuid_new P (t + n + 3)"] by (subst off) (simp_all add: m2 kids_def)
  show "m' (InodeUUID mb) = Some (sealed P (t + n + 1) (marshal_inode P ino) keys)"
    using apart(1-6) apart(9) [of "InodeUUID mb"] by (subst off) (simp_all add: m2 kids_def view_ids_def)
  show "m' i = put_at P (Suc t) keys (zip (BlockUUIDs ino) bs) m i" if "i \<in> set (BlockUUIDs ino)"
    using apart(1-6) apart(9) [of i] that by (subst off) (auto simp: m2 kids_def view_ids_def)
  show "m' i = put_children P (t + n + 6) r (revoked_mailbox P t mb)
      (child_list P (t + n + 5) a) (rekeyed_file P t r a mb ino bs m) i" if "i \<noteq> access_id P (Username u) f"
    using that by (simp add: m')
  show "m' i = m i" if "i \<notin> {access_id P (Username u) f, InodeUUID mb, uuid_new P (t + n + 3)}"
      "i \<notin> set (BlockUUIDs ino)" "i \<notin> ci_MailboxUUID ` set kids"
    using that by (subst off) (simp_all add: rekeyed_file_other n)
qed

lemma revoked_file_view:
  fixes r :: gostr
  assumes "provider_ok P" and shared: "shared_file P m u f a mb ino bs"
    and n: "n = length (BlockUUIDs ino)"
    and new: "uuid_new P (t + n + 3) \<notin> footprint P u f a mb ino"
  shows "file_view P (revoked_file P t u f r a mb ino bs m) u f (revoked_access P t n r a) (revoked_mailbox P t mb) ino bs"
proof -
  note ok = provider_parts [OF assms(1)]
  note sh = shared_file_parts [OF shared]
  note apart = revocation_apart [OF assms(1) shared new]
  note at = revoked_file_lookup [OF assms, where r = r]
  let ?m' = "revoked_file P t u f r a mb ino bs m" and ?nmb = "revoked_mailbox P t mb"
  have "wf_access (revoked_access P t n r a)"
    by (rule wf_revoked_access [OF ok(7) sh(2,5)])
  then have "access_at P ?m' u f (revoked_access P t n r a)"
    unfolding access_at_def
    by (intro reads_at_sealed [OF assms(1), where b = "marshal_access P (revoked_access P t n r a)"
          and t = "t + n + 6 + length (kept r (child_list P (t + n + 5) a))"])
      (use ok at(1) in \<open>simp_all add: derived_full_keys\<close>)
  moreover have "mailbox_at P ?m' (uuid_new P (t + n + 3)) (rnd P 32 (t + n + 2)) ?nmb"
    unfolding mailbox_at_def
    by (intro reads_at_sealed [OF assms(1), where t = "t + n + 4" and b = "marshal_mailbox P ?nmb"])
      (use ok sh(3) at(2) in \<open>simp_all add: derived_full_keys\<close>)
  moreover have "inode_at P ?m' ?nmb ino"
    unfolding inode_at_def
    by (intro reads_at_sealed [OF assms(1), where t = "t + n + 1" and b = "marshal_inode P ino"])
      (use ok sh(4) at(3) in \<open>simp_all add: derived_full_keys\<close>)
  moreover have "blocks_at P ?m' (rnd P 32 t) (BlockUUIDs ino) bs"
    using put_at_blocks [OF assms(1) apart(8,7)] at(4)
    by (subst blocks_at_cong [of _ _ "put_at P (Suc t) (getFileKeys P (rnd P 32 t)) (zip (BlockUUIDs ino) bs) m"]) auto
  ultimately show ?thesis
    by (simp add: file_view_def)
qed

lemma revoked_file_children:
  fixes r :: gostr
  assumes "provider_ok P" and shared: "shared_file P m u f a mb ino bs"
    and n: "n = length (BlockUUIDs ino)"
    and new: "uuid_new P (t + n + 3) \<notin> footprint P u f a mb ino"
    and "c \<in> fset (child_infos (revoked_access P t n r a))"
  shows "mailbox_at P (revoked_file P t u f r a mb ino bs m) (ci_MailboxUUID c) (ci_MailboxKey c) (revoked_mailbox P t mb)"
proof -
  note ok = provider_parts [OF assms(1)]
  note sh = shared_file_parts [OF shared]
  from assms(5) have c: "c \<in> set (kept r (child_list P (t + n + 5) a))"
    by (simp add: child_infos_revoked kept_child_list [OF ok(2)])
  then have "mailbox_at P (put_children P (t + n + 6) r (revoked_mailbox P t mb) (child_list P (t + n + 5) a)
      (rekeyed_file P t r a mb ino bs m)) (ci_MailboxUUID c) (ci_MailboxKey c) (revoked_mailbox P t mb)"
    using sh(3) by (intro put_children_mailboxes [OF assms(1)] distinct_kept_child_list [OF ok(2) shared]) simp_all
  moreover have "ci_MailboxUUID c \<noteq> access_id P (Username u) f"
    using sh(9) [OF kept_subset [OF ok(2) c]] by (simp add: view_ids_def)
  ultimately show ?thesis
    using revoked_file_lookup(5) [OF assms(1-4), where r = r] by (simp add: mailbox_at_def reads_at_def)
qed

lemma revoked_child_not_kept:
  assumes "provider_ok P" and shared: "shared_file P m u f a mb ino bs" and "fmlookup (children_of a) r = Some c"
  shows "ci_MailboxUUID c \<notin> ci_MailboxUUID ` set (kept r (child_list P t a))"
proof
  note ok = provider_parts [OF assms(1)]
  note sh = shared_file_parts [OF shared]
  assume "ci_MailboxUUID c \<in> ci_MailboxUUID ` set (kept r (child_list P t a))"
  then obtain d where d: "d \<in> set (kept r (child_list P t a))" "ci_MailboxUUID c = ci_MailboxUUID d" by blast
  have "c \<in> fset (child_infos a)" using assms(3) by (auto simp: in_child_infos)
  with d sh(7) kept_subset [OF ok(2)] have "c = d" by (metis inj_onD)
  with d obtain x where "x \<noteq> r" "fmlookup (children_of a) x = Some c"
    by (auto simp: kept_child_list [OF ok(2)])
  with assms(3) sh(8) show False by (auto simp: inj_on_def fmlookup_dom_iff)
qed

text \<open>
  After a revocation by \<open>u\<close>: the file is the same, under a new file key; the mailboxes of the
  children who stay carry that key; the inode and the blocks are sealed under it; and the
  mailbox of the revoked user, like everything else, is as it was.
\<close>

lemma revoked_file_shared:
  fixes r :: gostr
  assumes "provider_ok P" and shared: "shared_file P m u f a mb ino bs"
    and n: "n = length (BlockUUIDs ino)"
    and new: "uuid_new P (t + n + 3) \<notin> footprint P u f a mb ino"
  shows "shared_file P (revoked_file P t u f r a mb ino bs m) u f (revoked_access P t n r a) (revoked_mailbox P t mb) ino bs"
proof -
  note sh = shared_file_parts [OF shared]
  let ?na = "revoked_access P t n r a" and ?nmb = "revoked_mailbox P t mb"
  have sub: "fset (child_infos ?na) \<subseteq> fset (child_infos a)"
    by (auto simp: in_child_infos split: if_splits)
  have "inj_on ci_MailboxUUID (fset (child_infos ?na))"
    using sh(7) sub by (rule inj_on_subset)
  moreover have "inj_on (fmlookup (children_of ?na)) (fset (fmdom (children_of ?na)))"
    using sh(8) by (auto simp: inj_on_def)
  moreover have "distinct (user_id P (Username u) # view_ids P u f ?na ?nmb ino)"
    using sh(6) new by (auto simp: view_ids_def footprint_def)
  moreover have "ci_MailboxUUID c \<notin> set (user_id P (Username u) # view_ids P u f ?na ?nmb ino)"
    if "c \<in> fset (child_infos ?na)" for c
  proof -
    from sub that have c: "c \<in> fset (child_infos a)" by blast
    show ?thesis
      using sh(9) [OF c] imageI [OF c, of ci_MailboxUUID] new by (auto simp: view_ids_def footprint_def)
  qed
  moreover have "wf_access ?na"
    by (rule wf_revoked_access [OF provider_parts(7) [OF assms(1)] sh(2,5)])
  ultimately show ?thesis
    using revoked_file_view [OF assms, where r = r] revoked_file_children [OF assms, where r = r] sh(3,4)
    by (simp add: shared_file_def)
qed

lemma revoked_file_facts:
  fixes r :: gostr
  assumes "provider_ok P" and shared: "shared_file P m u f a mb ino bs"
    and n: "n = length (BlockUUIDs ino)"
    and new: "uuid_new P (t + n + 3) \<notin> footprint P u f a mb ino"
  defines "m' \<equiv> revoked_file P t u f r a mb ino bs m"
  shows "shared_file P m' u f (revoked_access P t n r a) (revoked_mailbox P t mb) ino bs"
    and "i \<in> insert (InodeUUID mb) (set (BlockUUIDs ino)) \<Longrightarrow>
      \<exists>t' b. m' i = Some (sealed P t' b (getFileKeys P (rnd P 32 t)))"
    and "fmlookup (children_of a) r = Some c \<Longrightarrow> m' (ci_MailboxUUID c) = m (ci_MailboxUUID c)"
    and "i \<notin> footprint P u f a mb ino \<Longrightarrow> i \<noteq> uuid_new P (t + n + 3) \<Longrightarrow> m' i = m i"
    and "m' (user_id P (Username u)) = m (user_id P (Username u))"
    and "m' (MymailboxUUID a) = m (MymailboxUUID a)"
proof -
  note ok = provider_parts [OF assms(1)]
  note sh = shared_file_parts [OF shared]
  note at = revoked_file_lookup [OF assms(1-4), where r = r, folded m'_def]
  note apart = revocation_apart [OF assms(1) shared new]
  show "shared_file P m' u f (revoked_access P t n r a) (revoked_mailbox P t mb) ino bs"
    unfolding m'_def by (rule revoked_file_shared [OF assms(1-4)])
  show "m' (user_id P (Username u)) = m (user_id P (Username u))" "m' (MymailboxUUID a) = m (MymailboxUUID a)"
    using sh(6) new apart(9) by (intro at(6); auto simp: view_ids_def footprint_def)+
  show "m' i = m i" if "i \<notin> footprint P u f a mb ino" "i \<noteq> uuid_new P (t + n + 3)"
    using that kept_subset [OF ok(2)] by (intro at(6)) (auto simp: view_ids_def footprint_def)
  show "\<exists>t' b. m' i = Some (sealed P t' b (getFileKeys P (rnd P 32 t)))"
    if "i \<in> insert (InodeUUID mb) (set (BlockUUIDs ino))"
  proof (cases "i = InodeUUID mb")
    case False
    with that have "i \<in> set (BlockUUIDs ino)" by simp
    moreover from this have "i \<in> fst ` set (zip (BlockUUIDs ino) bs)"
      using apart(8) by (metis set_map map_fst_zip)
    ultimately show ?thesis
      using put_at_sealed by (simp add: at(4))
  qed (simp add: at(3), blast)
  show "m' (ci_MailboxUUID c) = m (ci_MailboxUUID c)" if c: "fmlookup (children_of a) r = Some c"
  proof -
    from c have ci: "c \<in> fset (child_infos a)" by (auto simp: in_child_infos)
    have "ci_MailboxUUID c \<noteq> uuid_new P (t + n + 3)"
      using new imageI [OF ci, of ci_MailboxUUID] by (auto simp: footprint_def)
    then show ?thesis
      using sh(9) [OF ci] revoked_child_not_kept [OF assms(1) shared c]
      by (intro at(6)) (auto simp: view_ids_def)
  qed
qed
lemma shared_file_user:
  "shared_file P m (with_file P u f') f a mb ino bs = shared_file P m u f a mb ino bs"
  by (simp add: shared_file_def file_view_def access_at_def view_ids_def)

lemma RevokeAccess_shared:
  fixes r :: gostr
  assumes "provider_ok P" and shared: "shared_file P (store_data (backing s)) (userdata s) f a mb ino bs"
    and files: "Files (userdata s) \<noteq> None" and salt: "length (PasswordSalt (userdata s)) = 16"
    and n: "n = length (BlockUUIDs ino)"
    and new: "uuid_new P (tick s + n + 3) \<notin> footprint P (userdata s) f a mb ino"
    and run: "RevokeAccess P memory_service f r s = (res, s')"
  shows "res = Inr ()" and "userdata s' = with_file P (userdata s) f"
    and "store_keys (backing s') = store_keys (backing s)"
    and "shared_file P (store_data (backing s')) (userdata s') f
      (revoked_access P (tick s) n r a) (revoked_mailbox P (tick s) mb) ino bs"
    and "i \<in> insert (InodeUUID mb) (set (BlockUUIDs ino)) \<Longrightarrow>
      \<exists>t' b. store_data (backing s') i = Some (sealed P t' b (getFileKeys P (rnd P 32 (tick s))))"
    and "fmlookup (children_of a) r = Some c \<Longrightarrow>
      store_data (backing s') (ci_MailboxUUID c) = store_data (backing s) (ci_MailboxUUID c)"
    and "i \<notin> footprint P (userdata s) f a mb ino \<Longrightarrow> i \<noteq> uuid_new P (tick s + n + 3) \<Longrightarrow>
      store_data (backing s') i = store_data (backing s) i"
    and "store_data (backing s') (MymailboxUUID a) = store_data (backing s) (MymailboxUUID a)"
proof -
  note sh = shared_file_parts [OF shared]
  let ?u = "userdata s" and ?m = "store_data (backing s)" and ?m' = "store_data (backing s')"
  let ?uid = "user_id P (Username ?u)" and ?k = "length (kept r (child_list P (tick s + n + 5) a))"
  note res = RevokeAccess_run [OF assms(1) shared files salt n refl new, of r, unfolded run, simplified prod.inject]
  note facts = revoked_file_facts [OF assms(1) shared n new, where r = r]
  have data: "?m' = (revoked_file P (tick s) ?u f r a mb ino bs ?m)
      (?uid \<mapsto> user_payload P (tick s + n + ?k + 7) (with_file P ?u f))"
    using res by simp
  show "res = Inr ()" and user: "userdata s' = with_file P ?u f"
    and "store_keys (backing s') = store_keys (backing s)"
    using res by simp_all
  show "shared_file P ?m' (userdata s') f (revoked_access P (tick s) n r a) (revoked_mailbox P (tick s) mb) ino bs"
    unfolding user shared_file_user
    by (rule shared_file_frame [OF facts(1)]) (simp add: data)
  show "\<exists>t' b. ?m' i = Some (sealed P t' b (getFileKeys P (rnd P 32 (tick s))))"
    if "i \<in> insert (InodeUUID mb) (set (BlockUUIDs ino))"
    using facts(2) [OF that] that sh(6) by (auto simp: data view_ids_def)
  show "?m' (ci_MailboxUUID c) = ?m (ci_MailboxUUID c)" if c: "fmlookup (children_of a) r = Some c"
    using facts(3) [OF c] sh(9) [of c] c by (auto simp: data in_child_infos)
  show "?m' i = ?m i" if "i \<notin> footprint P ?u f a mb ino" "i \<noteq> uuid_new P (tick s + n + 3)"
    using facts(4) [OF that] that by (auto simp: data footprint_def)
  show "?m' (MymailboxUUID a) = ?m (MymailboxUUID a)"
    using facts(6) sh(6) by (auto simp: data view_ids_def)
qed

section \<open>Who can read a shared file\<close>

text \<open>
  A user who holds an access record for one of the mailboxes given away reads the owner's file:
  in particular the recipients of the invitations, before and after a revocation of somebody
  else's access.
\<close>

lemma child_view:
  assumes "shared_file P m owner fo a mb ino bs" and "c \<in> fset (child_infos a)"
    and "access_at P m v f b" and "MymailboxUUID b = ci_MailboxUUID c" and "MymailboxKey b = ci_MailboxKey c"
  shows "file_view P m v f b mb ino bs"
  using assms shared_file_parts(1,10) [OF assms(1)] by (simp add: file_view_def)

text \<open>Sharing and accepting, one after the other.\<close>

lemma share_and_accept:
  assumes "provider_ok P"
    and shared: "shared_file P (store_data (backing s)) (userdata s) f a mb ino bs"
    and signing: "ed25519_genkey P t0 = Some (pk, SigningPrivateKey (userdata s))"
      "store_keys (backing s) (Username (userdata s) @ lit ''_sig_pub'') = Some pk"
    and recipient: "good_user v"
      "store_keys (backing s) (Username v @ lit ''_enc_pub'') = Some (x25519_public P (EncryptionPrivateKey v))"
    and fresh: "fresh_uuids P (tick s) 7 used"
    and used: "insert (access_id P (Username v) g) (insert (user_id P (Username v)) (footprint P (userdata s) f a mb ino)) \<subseteq> used"
    and apart: "access_id P (Username v) g \<notin> footprint P (userdata s) f a mb ino"
      "user_id P (Username v) \<notin> footprint P (userdata s) f a mb ino"
      "access_id P (Username v) g \<noteq> user_id P (Username v)"
    and run: "CreateInvitation P memory_service f (Username v) s = (Inr i, s1)"
      "AcceptInvitation P memory_service (Username (userdata s)) i g (s1\<lparr>userdata := v\<rparr>) = (res, s2)"
  shows "res = Inr ()" and "file_view P (store_data (backing s2)) (userdata s2) g
      (accepted_access (child_invitation (shared_child P (tick s)))) mb ino bs"
    and "shared_file P (store_data (backing s2)) (userdata s) f
      (with_child (Username v) (shared_child P (tick s)) a) mb ino bs"
    and "userdata s2 = with_file P v g" and "tick s2 = tick s + 9"
proof -
  have v: "length (EncryptionPrivateKey v) = 32" "utf8_valid (Username v)" "\<exists>m. Files v = Some m" "length (PasswordSalt v) = 16"
    using recipient(1) by (simp_all add: good_user_def wf_user_def)
  let ?c = "shared_child P (tick s)" and ?a = "with_child (Username v) (shared_child P (tick s)) a"
  have sub: "footprint P (userdata s) f a mb ino \<subseteq> used" using used by simp
  note cr = CreateInvitation_shared [OF assms(1) shared signing(1) recipient(2) v(1,2) fresh sub run(1)]
  have new: "uuid_new P (tick s) \<notin> used"
    using fresh_uuids_D(1) [OF fresh, of "tick s"] by simp
  have foot: "footprint P (userdata s) f ?a mb ino \<subseteq> insert (uuid_new P (tick s)) (footprint P (userdata s) f a mb ino)"
    using footprint_with_child [of P "userdata s" f _ ?c a] by (simp add: shared_child_def)
  have apart': "access_id P (Username v) g \<notin> footprint P (userdata s) f ?a mb ino"
      "user_id P (Username v) \<notin> footprint P (userdata s) f ?a mb ino"
    using foot apart(1,2) new used by auto
  have c: "?c \<in> fset (child_infos ?a)" by (auto simp: in_child_infos)
  have inv: "invitation_at P (store_data (backing s1)) i pk (EncryptionPrivateKey v) (child_invitation ?c)"
    using cr(1,6) by simp
  have key: "store_keys (backing s1) (Username (userdata s) @ lit ''_sig_pub'') = Some pk"
    using cr(4) signing(2) by simp
  note acc = AcceptInvitation_view [where s = "s1\<lparr>userdata := v\<rparr>", simplified, OF assms(1)
      cr(5) [unfolded cr(2)] c inv key v(3,4) apart' apart(3) run(2)]
  show "res = Inr ()" and "userdata s2 = with_file P v g" and "tick s2 = tick s + 9"
    and "shared_file P (store_data (backing s2)) (userdata s) f ?a mb ino bs"
    using acc cr(3) by simp_all
  show "file_view P (store_data (backing s2)) (userdata s2) g (accepted_access (child_invitation ?c)) mb ino bs"
    using acc by simp
qed

text \<open>
  What authenticated encryption is for: a payload sealed under the file keys of \<open>k\<close> does not
  open under those of \<open>k'\<close>. This is an assumption about one pair of keys.
\<close>

definition foreign_key_rejected :: "provider \<Rightarrow> bytes \<Rightarrow> bytes \<Rightarrow> bool" where
  "foreign_key_rejected P k k' \<longleftrightarrow>
     (\<forall>t b. \<exists>e. decryptAndVerify P (sealed P t b (getFileKeys P k)) (getFileKeys P k') = Inl e)"

text \<open>A reader whose mailbox still has an old file key cannot open the inode any more.\<close>

lemma old_key_rejected:
  assumes "provider_ok P" and "access_at P (store_data (backing s)) (userdata s) f b"
    and "mailbox_at P (store_data (backing s)) (MymailboxUUID b) (MymailboxKey b) mb"
    and "store_data (backing s) (InodeUUID mb) = Some (sealed P t x (getFileKeys P k))"
    and "foreign_key_rejected P k (FileKey mb)"
  shows "\<exists>e. LoadFile P memory_service f s = (Inl (Wrap ''failed to decrypt inode'' e), s)"
proof -
  obtain e where "decryptAndVerify P (sealed P t x (getFileKeys P k)) (getFileKeys P (FileKey mb)) = Inl e"
    using assms(5) unfolding foreign_key_rejected_def by blast
  note rejected = open_record_rejected(1) [OF assms(4) this]
  show ?thesis
    using provider_parts [OF assms(1)] assms(2,3)
    by (simp add: LoadFile_def run_bind run_wrap run_accessID run_open_record access_at_def mailbox_at_def
        rejected)
qed

section \<open>Over any backend\<close>

context related_services begin

lemma refines_CreateInvitation [refine_intros]:
  "refines Q (CreateInvitation P V f r) (CreateInvitation P W f r)"
  unfolding CreateInvitation_def Let_def by (intro refine_intros)

lemma refines_AcceptInvitation [refine_intros]:
  "refines Q (AcceptInvitation P V sender i f) (AcceptInvitation P W sender i f)"
  unfolding AcceptInvitation_def Let_def by (intro refine_intros)

lemma refines_rekey_blocks [refine_intros]:
  "refines Q (rekey_blocks P (storage V) f old new us) (rekey_blocks P (storage W) f old new us)"
proof (induction us)
  case Nil
  show ?case unfolding rekey_blocks.simps by (intro refine_intros)
next
  case (Cons u us)
  show ?case unfolding rekey_blocks.simps by (intro refine_intros Cons)
qed

lemma refines_rekey_children [refine_intros]:
  "refines Q (rekey_children P (storage V) r k cs) (rekey_children P (storage W) r k cs)"
proof (induction cs)
  case Nil
  show ?case unfolding rekey_children.simps by (intro refine_intros)
next
  case (Cons c cs)
  then show ?case
    by (cases c) (simp only: rekey_children.simps Let_def, intro refine_intros, assumption+)
qed

lemma refines_RevokeAccess [refine_intros]:
  "refines Q (RevokeAccess P V f r) (RevokeAccess P W f r)"
  unfolding RevokeAccess_def commit_revocation_def Let_def by (intro refine_intros)

end

end
