(* ===== verification/Remote.thy ===== *)
theory Remote
  imports Server Revocation
begin

text \<open>
  The client's side of the storage protocol (\<open>internal/client/remote/store.go\<close>) and the storage
  and key store built on it (\<open>RemoteStorage\<close>, \<open>RemoteKeyStore\<close> of
  \<open>internal/client/encryption/memory.go\<close>). Without an address the package keeps everything in a
  process-local map; with one, every call opens a connection, sends one request and reads one
  response. The network is a parameter that may refuse a connection or break it after any byte.
\<close>

section \<open>Writing and reading\<close>

definition opGet :: byte where "opGet = 1"
definition opSet :: byte where "opSet = 2"
definition opDelete :: byte where "opDelete = 3"
definition statusOK :: byte where "statusOK = 0"
definition statusNotFound :: byte where "statusNotFound = 1"
definition statusError :: byte where "statusError = 2"

text \<open>Client and server number the operations and the statuses alike.\<close>

lemma same_codes:
  "opGet = OpGet" "opSet = OpSet" "opDelete = OpDelete"
  "statusOK = StatusOK" "statusNotFound = StatusNotFound" "statusError = StatusError"
  by (simp_all add: opGet_def opSet_def opDelete_def statusOK_def statusNotFound_def statusError_def
      OpGet_def OpSet_def OpDelete_def StatusOK_def StatusNotFound_def StatusError_def)

definition short_write :: err where
  "short_write = Msg ''short write'' []"

function writeFull :: "bytes \<Rightarrow> ('a conn_scheme, unit) prog" where
  "writeFull p c =
     (if p = [] then (Inr (), c)
      else (case conn_Write p c of ((n, e), c') \<Rightarrow>
        (case e of
           Some e \<Rightarrow> (Inl e, c')
         | None \<Rightarrow> if n = 0 then (Inl short_write, c') else writeFull (drop n p) c')))"
  by pat_completeness auto
termination
  by (relation "measure (\<lambda>(p, c). length p)") auto

declare writeFull.simps [simp del]

definition writeLength :: "32 word \<Rightarrow> ('a conn_scheme, unit) prog" where
  "writeLength n = writeFull (put_uint32 n)"

definition protocol_limit :: err where
  "protocol_limit = Msg ''storage key or value exceeds protocol limit'' []"

text \<open>\<open>uint64(^uint32(0))\<close> is the largest length.\<close>

definition writeOperation :: "byte \<Rightarrow> bytes \<Rightarrow> bytes \<Rightarrow> ('a conn_scheme, unit) prog" where
  "writeOperation op key val =
     bindE (guardE (\<not> (length key > unat (- 1 :: 32 word) \<or> length val > unat (- 1 :: 32 word))) protocol_limit) (\<lambda>_.
     bindE (writeFull [op]) (\<lambda>_.
     bindE (writeLength (of_nat (length key))) (\<lambda>_.
     bindE (writeFull key) (\<lambda>_.
     if op = opSet then
       bindE (writeLength (of_nat (length val))) (\<lambda>_.
       writeFull val)
     else ret ()))))"

definition readStatus :: "('a conn_scheme, byte) prog" where
  "readStatus = bindE (ReadFull 1) (\<lambda>status. ret (status ! 0))"

definition readValue :: "('a conn_scheme, bytes) prog" where
  "readValue = bindE (ReadFull 4) (\<lambda>sz. ReadFull (unat (get_uint32 sz)))"

text \<open>\<open>readServerError\<close> always returns an error.\<close>

definition readServerError :: "byte \<Rightarrow> ('a conn_scheme, 'b) prog" where
  "readServerError status =
     (if status \<noteq> statusError then throw (Msg ''storage server returned status %d'' [byte_text status])
      else
        bindE (wrapE ''storage server error (failed to read message)'' readValue) (\<lambda>message.
        throw (Msg ''storage server: %s'' [message])))"

section \<open>Connections to the server\<close>

text \<open>
  The network, as the calls meet it: whether the \<open>n\<close>-th connection (with or without TLS, to an
  address) is made, and how many bytes it carries to the server and back before it breaks.
\<close>

record network =
  net_dial :: "nat \<Rightarrow> bool \<Rightarrow> gostr \<Rightarrow> err + unit"
  net_up :: "nat \<Rightarrow> nat"
  net_down :: "nat \<Rightarrow> nat"

text \<open>The package variables \<open>address\<close>, \<open>useTLS\<close> and \<open>local\<close>, and the server at the other end.\<close>

record 'd rworld =
  address :: gostr
  useTLS :: bool
  local_map :: "bytes \<rightharpoonup> bytes"
  server_db :: 'd
  dials :: nat

definition Connect :: "gostr \<Rightarrow> bool \<Rightarrow> ('d rworld, unit) prog" where
  "Connect addr tlsEnabled = modify (\<lambda>w. w\<lparr>address := addr, useTLS := tlsEnabled\<rparr>)"

definition Disconnect :: "('d rworld, unit) prog" where
  "Disconnect = modify (\<lambda>w. w\<lparr>address := []\<rparr>)"

definition Reset :: "('d rworld, unit) prog" where
  "Reset = bindE Disconnect (\<lambda>_. modify (\<lambda>w. w\<lparr>local_map := Map.empty\<rparr>))"

text \<open>\<open>None\<close> when no server is configured, otherwise a new connection.\<close>

definition dial :: "network \<Rightarrow> ('d rworld, conn option) prog" where
  "dial N w =
     (if address w = [] then (Inr None, w)
      else
        let w' = w\<lparr>dials := Suc (dials w)\<rparr> in
        case net_dial N (dials w) (useTLS w) (address w) of
          Inl e \<Rightarrow> (Inl (Wrap ''connect to storage server'' e), w')
        | Inr _ \<Rightarrow> (Inr (Some \<lparr>incoming = [], room = net_up N (dials w), outgoing = []\<rparr>), w'))"

text \<open>
  The server's goroutine for the connection runs \<open>handleConn\<close> on what the client has sent; what
  it answers arrives at the client.
\<close>

definition exchange :: "'d badger \<Rightarrow> network \<Rightarrow> conn \<Rightarrow> 'd rworld \<Rightarrow> conn \<times> 'd rworld" where
  "exchange B N c w =
     (case handleConn B \<lparr>incoming = outgoing c, room = net_down N (dials w), outgoing = [], db = server_db w\<rparr>
      of (e, s) \<Rightarrow> (c\<lparr>incoming := outgoing s\<rparr>, w\<lparr>server_db := db s\<rparr>))"

text \<open>A call: one request is written, then the response is read.\<close>

definition call ::
  "'d badger \<Rightarrow> network \<Rightarrow> conn \<Rightarrow> (conn, unit) prog \<Rightarrow> (conn, 'b) prog \<Rightarrow> ('d rworld, 'b) prog"
where
  "call B N c request reader w =
     (case request c of (r, c1) \<Rightarrow>
       case exchange B N c1 w of (c2, w') \<Rightarrow>
         (case r of Inl e \<Rightarrow> (Inl e, w') | Inr _ \<Rightarrow> (fst (reader c2), w')))"

definition remote_Get :: "'d badger \<Rightarrow> network \<Rightarrow> bytes \<Rightarrow> ('d rworld, bytes option) prog" where
  "remote_Get B N key =
     bindE (dial N) (\<lambda>r.
     case r of
       None \<Rightarrow> gets (\<lambda>w. local_map w key)
     | Some conn \<Rightarrow>
         call B N conn (writeOperation opGet key [])
           (bindE readStatus (\<lambda>status.
            if status = statusNotFound then ret None
            else if status = statusOK then bindE readValue (\<lambda>value. ret (Some value))
            else readServerError status)))"

definition remote_Set :: "'d badger \<Rightarrow> network \<Rightarrow> bytes \<Rightarrow> bytes \<Rightarrow> ('d rworld, unit) prog" where
  "remote_Set B N key val =
     bindE (dial N) (\<lambda>r.
     case r of
       None \<Rightarrow> modify (\<lambda>w. w\<lparr>local_map := (local_map w)(key \<mapsto> val)\<rparr>)
     | Some conn \<Rightarrow>
         call B N conn (writeOperation opSet key val)
           (bindE readStatus (\<lambda>status.
            if status \<noteq> statusOK then readServerError status else ret ())))"

definition remote_Delete :: "'d badger \<Rightarrow> network \<Rightarrow> bytes \<Rightarrow> ('d rworld, unit) prog" where
  "remote_Delete B N key =
     bindE (dial N) (\<lambda>r.
     case r of
       None \<Rightarrow> modify (\<lambda>w. w\<lparr>local_map := (local_map w)(key := None)\<rparr>)
     | Some conn \<Rightarrow>
         call B N conn (writeOperation opDelete key [])
           (bindE readStatus (\<lambda>status.
            if status \<noteq> statusOK then readServerError status else ret ())))"

section \<open>\<open>RemoteStorage\<close> and \<open>RemoteKeyStore\<close>\<close>

definition data_name :: "uuid \<Rightarrow> bytes" where
  "data_name key = lit ''data:'' @ key"

definition key_name :: "gostr \<Rightarrow> bytes" where
  "key_name key = lit ''key:'' @ key"

definition RemoteStorage :: "'d badger \<Rightarrow> network \<Rightarrow> 'd rworld StorageService" where
  "RemoteStorage B N =
     \<lparr>storage_Get = (\<lambda>key. remote_Get B N (data_name key)),
      storage_Set = (\<lambda>key val. remote_Set B N (data_name key) val),
      storage_Delete = (\<lambda>key. remote_Delete B N (data_name key))\<rparr>"

definition RemoteKeyStore :: "'d badger \<Rightarrow> network \<Rightarrow> 'd rworld KeyStoreService" where
  "RemoteKeyStore B N =
     \<lparr>keyStore_Get = (\<lambda>key. remote_Get B N (key_name key)),
      keyStore_Set = (\<lambda>key val. remote_Set B N (key_name key) val)\<rparr>"

lemma names_disjoint [simp]:
  "data_name u \<noteq> key_name n" "key_name n \<noteq> data_name u"
  "data_name u = data_name v \<longleftrightarrow> u = v" "key_name n = key_name m \<longleftrightarrow> n = m"
  by (simp_all add: data_name_def key_name_def lit_def)

section \<open>Without a server\<close>

text \<open>The process-local map is a backend of the services, whatever the network is like.\<close>

lemma run_dial_local: "address w = [] \<Longrightarrow> dial N w = (Inr None, w)"
  by (simp add: dial_def)

lemma run_local:
  assumes "address w = []"
  shows "remote_Get B N k w = (Inr (local_map w k), w)"
    and "remote_Set B N k v w = (Inr (), w\<lparr>local_map := (local_map w)(k \<mapsto> v)\<rparr>)"
    and "remote_Delete B N k w = (Inr (), w\<lparr>local_map := (local_map w)(k := None)\<rparr>)"
  using run_dial_local [OF assms]
  by (simp_all add: remote_Get_def remote_Set_def remote_Delete_def run_bind)

text \<open>The services as \<open>ensureServices\<close> of \<open>internal/client/app/app.go\<close> builds them.\<close>

definition remote_service :: "'d badger \<Rightarrow> network \<Rightarrow> 'd rworld Service" where
  "remote_service B N = NewService (RemoteStorage B N) (RemoteKeyStore B N)"

text \<open>A remote world and an in-memory world with the same data and the same keys.\<close>

definition same_offline :: "'d rworld st \<Rightarrow> mworld st \<Rightarrow> bool" where
  "same_offline = as_memory (\<lambda>w. address w = []) (\<lambda>w u. local_map w (data_name u)) (\<lambda>w n. local_map w (key_name n))"

interpretation offline: total_backend "RemoteStorage B N" "RemoteKeyStore B N" "\<lambda>w. address w = []"
  "\<lambda>w u. local_map w (data_name u)" "\<lambda>w n. local_map w (key_name n)"
  by unfold_locales (auto simp: RemoteStorage_def RemoteKeyStore_def run_local fun_eq_iff)

section \<open>With a server\<close>

text \<open>\<open>writes p m\<close>: \<open>m\<close> sends \<open>p\<close>, or as much of it as the connection takes before it breaks.\<close>

definition writes :: "bytes \<Rightarrow> (conn, unit) prog \<Rightarrow> bool" where
  "writes p m \<longleftrightarrow> (\<forall>c. m c =
     (if length p \<le> room c then (Inr (), c\<lparr>room := room c - length p, outgoing := outgoing c @ p\<rparr>)
      else (Inl write_broken, c\<lparr>room := 0, outgoing := outgoing c @ take (room c) p\<rparr>)))"

lemma writes_writeFull: "writes p (writeFull p)"
  by (auto simp: writes_def conn_Write_def writeFull.simps [of p] writeFull.simps [of "[]"])

lemma writes_bind:
  assumes "writes p m" and "\<And>x. writes q (f x)"
  shows "writes (p @ q) (bindE m f)"
  using assms by (auto simp: writes_def run_bind)

lemma writes_ret: "writes [] (ret ())"
  by (simp add: writes_def)

lemma max_length: "\<not> (n > unat (- 1 :: 32 word)) \<longleftrightarrow> n < 2 ^ 32"
proof -
  have "unat (- 1 :: 32 word) = 2 ^ 32 - 1"
    by (simp add: unsigned_minus_1_eq_mask mask_eq_exp_minus_1)
  then show ?thesis by auto
qed

definition request_op :: "request \<Rightarrow> (conn, unit) prog" where
  "request_op q = (case q of RGet k \<Rightarrow> writeOperation opGet k []
     | RSet k v \<Rightarrow> writeOperation opSet k v | RDelete k \<Rightarrow> writeOperation opDelete k [])"

lemma request_op_simps [simp]:
  "request_op (RGet k) = writeOperation opGet k []"
  "request_op (RSet k v) = writeOperation opSet k v"
  "request_op (RDelete k) = writeOperation opDelete k []"
  by (simp_all add: request_op_def)

lemma writes_field:
  assumes "\<And>x. writes q (f x)"
  shows "writes (lv b @ q) (bindE (writeLength (of_nat (length b))) (\<lambda>_. bindE (writeFull b) f))"
  using writes_bind [OF writes_writeFull writes_bind [OF writes_writeFull assms]]
  by (simp add: lv_def writeLength_def)

lemma bind_ret_unit: "bindE m (\<lambda>_. ret ()) = (m :: ('s, unit) prog)"
  by (rule ext) (simp add: bindE_def split: prod.split sum.split)

lemma writes_last_field: "writes (lv b) (bindE (writeLength (of_nat (length b))) (\<lambda>_. writeFull b))"
  using writes_bind [OF writes_writeFull writes_writeFull] by (simp add: lv_def writeLength_def)

lemma request_op_writes: "request_fits q \<Longrightarrow> writes (request_bytes q) (request_op q)"
proof -
  have guard: "bindE (guardE True e) f = f ()" for e and f :: "unit \<Rightarrow> (conn, unit) prog"
    by (rule ext) (simp add: bindE_def guardE_def)
  have first: "writes (op # p) (bindE (writeFull [op]) (\<lambda>_. m))" if "writes p m" for op p m
    using writes_bind [OF writes_writeFull [of "[op]"], of p "\<lambda>_. m"] that by simp
  assume "request_fits q"
  then show ?thesis
    using writes_field [OF writes_ret] writes_field [OF writes_last_field]
    by (cases q) (auto simp: writeOperation_def max_length guard same_codes intro!: first)
qed

lemma request_op_refused: "\<not> request_fits q \<Longrightarrow> request_op q c = (Inl protocol_limit, c)"
  by (cases q) (auto simp: writeOperation_def max_length run_bind run_guard)

definition fresh_conn :: "nat \<Rightarrow> conn" where
  "fresh_conn n = \<lparr>incoming = [], room = n, outgoing = []\<rparr>"

text \<open>The request arrives: the server executes it once and the client reads what gets back.\<close>

lemma call_delivered:
  assumes "request_fits q" and "length (request_bytes q) \<le> n" and "execute B q (server_db w) = (r, d)"
  obtains c where "incoming c = take (net_down N (dials w)) (response_bytes r)"
    and "call B N (fresh_conn n) (request_op q) reader w = (fst (reader c), w\<lparr>server_db := d\<rparr>)"
proof -
  let ?c1 = "\<lparr>incoming = [], room = n - length (request_bytes q), outgoing = request_bytes q\<rparr>"
  let ?s = "\<lparr>incoming = request_bytes q, room = net_down N (dials w), outgoing = [], db = server_db w\<rparr>"
  have "request_op q (fresh_conn n) = (Inr (), ?c1)"
    using request_op_writes [OF assms(1)] assms(2) by (simp add: writes_def fresh_conn_def)
  moreover obtain e s' where "handleConn B ?s = (e, s')" "db s' = d"
      "outgoing s' = take (net_down N (dials w)) (response_bytes r)"
    using handleConn_one [of ?s q B r d] assms(1,3) by auto
  ultimately show thesis
    by (intro that [of "?c1\<lparr>incoming := take (net_down N (dials w)) (response_bytes r)\<rparr>"])
      (simp_all add: call_def exchange_def)
qed

text \<open>The request does not arrive: the call fails and the server has done nothing.\<close>

lemma call_undelivered:
  assumes "\<not> (request_fits q \<and> length (request_bytes q) \<le> n)"
  shows "\<exists>e. call B N (fresh_conn n) (request_op q) reader w = (Inl e, w)"
proof (cases "request_fits q")
  case True
  with assms have short: "n < length (request_bytes q)" by simp
  let ?s = "\<lparr>incoming = take n (request_bytes q), room = net_down N (dials w), outgoing = [], db = server_db w\<rparr>"
  have "request_op q (fresh_conn n) = (Inl write_broken, \<lparr>incoming = [], room = 0, outgoing = take n (request_bytes q)\<rparr>)"
    using request_op_writes [OF True] short by (simp add: writes_def fresh_conn_def)
  moreover have "\<exists>e. handleConn B ?s = (e, ?s\<lparr>incoming := []\<rparr>)"
    using short True by (intro handleConn_cut [of q ?s "drop n (request_bytes q)"]) simp_all
  ultimately show ?thesis
    by (auto simp: call_def exchange_def)
next
  case False
  let ?s = "\<lparr>incoming = [], room = net_down N (dials w), outgoing = [], db = server_db w\<rparr>"
  have "handleConn B ?s = (EOF, ?s)"
    by (simp add: handleConn.simps [of B ?s] Handle_empty)
  with request_op_refused [OF False, of "fresh_conn n"] show ?thesis
    by (simp add: call_def exchange_def fresh_conn_def)
qed

section \<open>Reading responses\<close>

definition get_reader :: "(conn, bytes option) prog" where
  "get_reader = bindE readStatus (\<lambda>status.
     if status = statusNotFound then ret None
     else if status = statusOK then bindE readValue (\<lambda>value. ret (Some value))
     else readServerError status)"

definition done_reader :: "(conn, unit) prog" where
  "done_reader = bindE readStatus (\<lambda>status.
     if status \<noteq> statusOK then readServerError status else ret ())"

lemma readStatus_Inr: "readStatus c = (Inr b, c') \<Longrightarrow> \<exists>rest. incoming c = b # rest \<and> c' = c\<lparr>incoming := rest\<rparr>"
  by (cases "incoming c") (auto simp: readStatus_def ReadFull_def run_bind)

lemma readServerError_fails: "readServerError b c \<noteq> (Inr x, c')"
  by (auto simp: readServerError_def bindE_Inr_iff)

lemma readValue_prefix:
  assumes "readValue c = (Inr v, c')" and "incoming c = take n (lv b)" and "length b < 2 ^ 32"
  shows "v = b"
proof -
  from assms(1) obtain h c1 where 1: "ReadFull 4 c = (Inr h, c1)"
    and 2: "ReadFull (unat (get_uint32 h)) c1 = (Inr v, c')"
    by (auto simp: readValue_def bindE_Inr_iff)
  from ReadFull_Inr [OF 1] have h: "take n (lv b) = h @ incoming c1" "length h = 4"
    using assms(2) by simp_all
  obtain z where "lv b = take n (lv b) @ z"
    by (metis append_take_drop_id)
  with h(1) have "lv b = h @ incoming c1 @ z"
    by (metis append_assoc)
  then have "put_uint32 (of_nat (length b)) @ b = h @ (incoming c1 @ z)"
    by (simp only: lv_def)
  then have "put_uint32 (of_nat (length b)) = h \<and> b = incoming c1 @ z"
    by (rule append_eq_append_conv [THEN iffD1, rotated]) (simp add: h(2))
  then have "h = put_uint32 (of_nat (length b))" and b: "b = incoming c1 @ z"
    by metis+
  then have "unat (get_uint32 h) = length b"
    using unat_of_nat_32 [OF assms(3)] by (metis get_put_uint32)
  with ReadFull_Inr(1,2) [OF 2] b show ?thesis
    by (metis append_eq_append_conv append_Nil2 append_assoc)
qed

lemma take_status:
  assumes "take n (response_bytes r) = b # rest"
  shows "b = hd (response_bytes r)" and "rest = take (n - 1) (tl (response_bytes r))"
  using assms by (cases n; cases r; auto)+

lemma response_hd [simp]:
  "hd (response_bytes Done) = StatusOK" "hd (response_bytes (Value v)) = StatusOK"
  "hd (response_bytes Missing) = StatusNotFound" "hd (response_bytes (Failed m)) = StatusError"
  by simp_all

lemma done_reader_Inr:
  assumes "done_reader c = (Inr (), c')" and "incoming c = take n (response_bytes r)"
  shows "r = Done \<or> (\<exists>v. r = Value v)"
proof -
  from assms(1) obtain rest where "incoming c = statusOK # rest"
    by (auto simp: done_reader_def bindE_Inr_iff readServerError_fails split: if_splits dest: readStatus_Inr)
  with assms(2) take_status(1) [of n r statusOK rest] show ?thesis
    by (cases r) (simp_all add: same_codes)
qed

lemma get_reader_Inr:
  assumes "get_reader c = (Inr x, c')" and "incoming c = take n (response_bytes r)"
    and "\<And>v. r = Value v \<Longrightarrow> length v < 2 ^ 32" and "r \<noteq> Done"
  shows "r = Missing \<and> x = None \<or> (\<exists>v. r = Value v \<and> x = Some v)"
proof -
  from assms(1) obtain b c1 where b: "readStatus c = (Inr b, c1)" and rest: "(if b = statusNotFound then ret None
     else if b = statusOK then bindE readValue (\<lambda>value. ret (Some value)) else readServerError b) c1 = (Inr x, c')"
    by (auto simp: get_reader_def bindE_Inr_iff)
  from readStatus_Inr [OF b] assms(2) obtain tl' where t: "take n (response_bytes r) = b # tl'"
    and c1: "incoming c1 = tl'"
    by auto
  note st = take_status [OF t]
  show ?thesis
  proof (cases r)
    case (Value v)
    with st rest obtain y where "readValue c1 = (Inr y, c')" and "x = Some y"
      by (auto simp: same_codes bindE_Inr_iff)
    moreover from this(1) have "y = v"
      by (rule readValue_prefix [of _ _ _ "n - 1"]) (use Value c1 st(2) assms(3) in simp_all)
    ultimately show ?thesis
      using Value by simp
  qed (use st rest assms(4) in \<open>auto simp: same_codes readServerError_fails\<close>)
qed

section \<open>The server as a backend\<close>

definition over_network :: "'d badger \<Rightarrow> network \<Rightarrow> ('d rworld, 'b) prog \<Rightarrow> request \<Rightarrow> (conn, 'b) prog \<Rightarrow> ('d rworld, 'b) prog" where
  "over_network B N offline q reader =
     bindE (dial N) (\<lambda>r. case r of None \<Rightarrow> offline | Some conn \<Rightarrow> call B N conn (request_op q) reader)"

lemma remote_over_network:
  "remote_Get B N k = over_network B N (gets (\<lambda>w. local_map w k)) (RGet k) get_reader"
  "remote_Set B N k v = over_network B N (modify (\<lambda>w. w\<lparr>local_map := (local_map w)(k \<mapsto> v)\<rparr>)) (RSet k v) done_reader"
  "remote_Delete B N k = over_network B N (modify (\<lambda>w. w\<lparr>local_map := (local_map w)(k := None)\<rparr>)) (RDelete k) done_reader"
  unfolding remote_Get_def remote_Set_def remote_Delete_def over_network_def get_reader_def
    done_reader_def request_op_simps by (rule refl)+

lemma over_network_Inr:
  assumes "over_network B N offline q reader w = (Inr x, w')" and "address w \<noteq> []"
  obtains r d n c c' where "execute B q (server_db w) = (r, d)" and "request_fits q"
    and "incoming c = take n (response_bytes r)" and "reader c = (Inr x, c')"
    and "w' = w\<lparr>dials := Suc (dials w), server_db := d\<rparr>"
proof -
  let ?w = "w\<lparr>dials := Suc (dials w)\<rparr>"
  from assms have run: "call B N (fresh_conn (net_up N (dials w))) (request_op q) reader ?w = (Inr x, w')"
    by (auto simp: over_network_def run_bind dial_def fresh_conn_def Let_def split: sum.splits)
  then have up: "request_fits q" "length (request_bytes q) \<le> net_up N (dials w)"
    using call_undelivered [of q "net_up N (dials w)" B N reader ?w] by auto
  obtain r d where ex: "execute B q (server_db ?w) = (r, d)" by fastforce
  from call_delivered [OF up ex, where N = N and reader = reader] obtain c
    where "incoming c = take (net_down N (dials ?w)) (response_bytes r)"
      and "call B N (fresh_conn (net_up N (dials w))) (request_op q) reader ?w = (fst (reader c), ?w\<lparr>server_db := d\<rparr>)"
    by blast
  with run ex up(1) show thesis
    by (intro that [of r d c "net_down N (dials ?w)" "snd (reader c)"]) (auto simp: prod_eq_iff)
qed

text \<open>
  Whatever the network does, a call reaches the database at most once, and the client's error
  says nothing about whether it did.
\<close>

lemma over_network_once:
  assumes "over_network B N offline q reader w = (x, w')" and "address w \<noteq> []"
  shows "server_db w' = server_db w \<or> server_db w' = snd (execute B q (server_db w))"
proof (cases "net_dial N (dials w) (useTLS w) (address w)")
  case (Inl e)
  with assms show ?thesis by (auto simp: over_network_def run_bind dial_def Let_def)
next
  case (Inr u)
  let ?w = "w\<lparr>dials := Suc (dials w)\<rparr>" and ?n = "net_up N (dials w)"
  from assms Inr have run: "call B N (fresh_conn ?n) (request_op q) reader ?w = (x, w')"
    by (auto simp: over_network_def run_bind dial_def fresh_conn_def Let_def)
  show ?thesis
  proof (cases "request_fits q \<and> length (request_bytes q) \<le> ?n")
    case True
    obtain r d where ex: "execute B q (server_db ?w) = (r, d)" by fastforce
    from True have fits: "request_fits q" "length (request_bytes q) \<le> ?n" by simp_all
    obtain c where "call B N (fresh_conn ?n) (request_op q) reader ?w = (fst (reader c), ?w\<lparr>server_db := d\<rparr>)"
      using call_delivered [OF fits ex, where N = N and reader = reader] by blast
    with run have "w' = ?w\<lparr>server_db := d\<rparr>" by simp
    with ex show ?thesis by simp
  next
    case False
    from call_undelivered [OF this, of B N reader ?w] run show ?thesis by auto
  qed
qed

lemma over_network_local:
  assumes "over_network B N offline q reader w = (x, w')" and "address w \<noteq> []"
  shows "local_map w' = local_map w"
  using assms by (auto simp: over_network_def run_bind dial_def Let_def call_def exchange_def
      split: sum.splits prod.splits)

text \<open>A read changes nothing, whether it succeeds or fails.\<close>

lemma remote_Get_unchanged:
  assumes "remote_Get B N k w = (r, w')"
  shows "server_db w' = server_db w" and "local_map w' = local_map w"
proof -
  have "server_db w' = server_db w \<and> local_map w' = local_map w"
  proof (cases "address w = []")
    case True
    with assms show ?thesis by (simp add: run_local)
  next
    case False
    have "snd (execute B (RGet k) (server_db w)) = server_db w" by (simp split: sum.split)
    with over_network_once [OF assms [unfolded remote_over_network] False]
      over_network_local [OF assms [unfolded remote_over_network] False]
    show ?thesis by simp
  qed
  then show "server_db w' = server_db w" and "local_map w' = local_map w" by simp_all
qed

text \<open>
  A database with a record of the writing transactions it has been asked for, in their order. It
  answers like the database it is made from.
\<close>

definition logged :: "'d badger \<Rightarrow> ('d \<times> request list) badger" where
  "logged B =
     \<lparr>txn_Get = (\<lambda>k (d, log). txn_Get B k d),
      txn_Has = (\<lambda>k (d, log). txn_Has B k d),
      txn_Set = (\<lambda>k v (d, log). case txn_Set B k v d of (r, d') \<Rightarrow> (r, d', log @ [RSet k v])),
      txn_SetEntry = (\<lambda>k v ttl (d, log). case txn_SetEntry B k v ttl d of (r, d') \<Rightarrow> (r, d', log @ [RSet k v])),
      txn_Delete = (\<lambda>k (d, log). case txn_Delete B k d of (r, d') \<Rightarrow> (r, d', log @ [RDelete k]))\<rparr>"

lemma execute_logged:
  "execute (logged B) (RSet k v) (d, log) =
    (fst (execute B (RSet k v) d), snd (execute B (RSet k v) d), log @ [RSet k v])"
  by (simp add: logged_def split: prod.split sum.split)

text \<open>A write that returns without an error has been executed, and the database has accepted it.\<close>

lemma remote_Set_executed:
  assumes "remote_Set B N k v w = (Inr u, w')" and "address w \<noteq> []"
  shows "txn_Set B k v (server_db w) = (Inr (), server_db w')"
proof -
  obtain r d n c c' where ex: "execute B (RSet k v) (server_db w) = (r, d)"
    and c: "incoming c = take n (response_bytes r)" and rd: "done_reader c = (Inr u, c')"
    and w': "w' = w\<lparr>dials := Suc (dials w), server_db := d\<rparr>"
    using assms unfolding remote_over_network by (rule over_network_Inr)
  from done_reader_Inr [OF _ c] rd have "r = Done \<or> (\<exists>v. r = Value v)" by simp
  with ex w' show ?thesis by (auto split: prod.splits sum.splits)
qed

lemma execute_set_contents:
  assumes "badger_ok B contents"
  shows "contents (snd (execute B (RSet k v) d)) = contents d \<or>
    contents (snd (execute B (RSet k v) d)) = (contents d)(k \<mapsto> v)"
  using assms unfolding badger_ok_def by (fastforce split: prod.split sum.split)

definition online :: "('d \<Rightarrow> bytes \<rightharpoonup> bytes) \<Rightarrow> 'd rworld \<Rightarrow> bool" where
  "online contents w \<longleftrightarrow> address w \<noteq> [] \<and> (\<forall>k v. contents (server_db w) k = Some v \<longrightarrow> length v < 2 ^ 32)"

definition same_online :: "('d \<Rightarrow> bytes \<rightharpoonup> bytes) \<Rightarrow> 'd rworld st \<Rightarrow> mworld st \<Rightarrow> bool" where
  "same_online contents = as_memory (online contents) (\<lambda>w u. contents (server_db w) (data_name u))
     (\<lambda>w n. contents (server_db w) (key_name n))"

lemma badger_ok_D:
  assumes "badger_ok B contents"
  shows "txn_Get B k d = Inr v \<Longrightarrow> contents d k = Some v"
    and "txn_Get B k d = Inl ErrKeyNotFound \<Longrightarrow> contents d k = None"
    and "txn_Set B k v d = (Inr u, d') \<Longrightarrow> contents d' = (contents d)(k \<mapsto> v)"
    and "txn_Delete B k d = (Inr u, d') \<Longrightarrow> contents d' = (contents d)(k := None)"
    and "txn_Set B k v d = (Inl e, d') \<Longrightarrow> contents d' = contents d"
    and "txn_Delete B k d = (Inl e, d') \<Longrightarrow> contents d' = contents d"
  using assms unfolding badger_ok_def by (blast, blast, fastforce+)

lemma online_Get:
  assumes "badger_ok B contents" and "online contents w" and "remote_Get B N k w = (Inr x, w')"
  shows "x = contents (server_db w) k" and "server_db w' = server_db w" and "online contents w'"
proof -
  from assms(2) have "address w \<noteq> []" by (simp add: online_def)
  with assms(3) obtain r d n c c' where ex: "execute B (RGet k) (server_db w) = (r, d)"
    and c: "incoming c = take n (response_bytes r)" and rd: "get_reader c = (Inr x, c')"
    and w': "w' = w\<lparr>dials := Suc (dials w), server_db := d\<rparr>"
    unfolding remote_over_network by (rule over_network_Inr)
  have r: "length v < 2 ^ 32" if "r = Value v" for v
  proof -
    from that ex have "txn_Get B k (server_db w) = Inr v" by (auto split: sum.splits if_splits)
    from badger_ok_D(1) [OF assms(1) this] assms(2) show ?thesis unfolding online_def by blast
  qed
  have "r = Missing \<and> x = None \<or> (\<exists>v. r = Value v \<and> x = Some v)"
    by (rule get_reader_Inr [OF rd c r]) (use ex in \<open>auto split: sum.splits if_splits\<close>)
  then show "x = contents (server_db w) k"
    using ex badger_ok_D(1,2) [OF assms(1)] by (auto split: sum.splits if_splits)
  from ex have "d = server_db w" by (auto split: sum.splits)
  with w' assms(2) show "server_db w' = server_db w" and "online contents w'"
    by (simp_all add: online_def)
qed

lemma online_Set:
  assumes "badger_ok B contents" and "online contents w" and "remote_Set B N k v w = (Inr u, w')"
  shows "contents (server_db w') = (contents (server_db w))(k \<mapsto> v)" and "online contents w'"
proof -
  from assms(2) have "address w \<noteq> []" by (simp add: online_def)
  with assms(3) obtain r d n c c' where ex: "execute B (RSet k v) (server_db w) = (r, d)"
    and fits: "request_fits (RSet k v)"
    and c: "incoming c = take n (response_bytes r)" and rd: "done_reader c = (Inr u, c')"
    and w': "w' = w\<lparr>dials := Suc (dials w), server_db := d\<rparr>"
    unfolding remote_over_network by (rule over_network_Inr)
  from done_reader_Inr [OF _ c] rd have "r = Done \<or> (\<exists>v. r = Value v)" by simp
  then show *: "contents (server_db w') = (contents (server_db w))(k \<mapsto> v)"
    using ex badger_ok_D(3) [OF assms(1)] by (auto simp: w' split: prod.splits sum.splits)
  show "online contents w'"
    using assms(2) fits w' * by (auto simp: online_def)
qed

lemma online_Delete:
  assumes "badger_ok B contents" and "online contents w" and "remote_Delete B N k w = (Inr u, w')"
  shows "contents (server_db w') = (contents (server_db w))(k := None)" and "online contents w'"
proof -
  from assms(2) have "address w \<noteq> []" by (simp add: online_def)
  with assms(3) obtain r d n c c' where ex: "execute B (RDelete k) (server_db w) = (r, d)"
    and c: "incoming c = take n (response_bytes r)" and rd: "done_reader c = (Inr u, c')"
    and w': "w' = w\<lparr>dials := Suc (dials w), server_db := d\<rparr>"
    unfolding remote_over_network by (rule over_network_Inr)
  from done_reader_Inr [OF _ c] rd have "r = Done \<or> (\<exists>v. r = Value v)" by simp
  then show *: "contents (server_db w') = (contents (server_db w))(k := None)"
    using ex badger_ok_D(4) [OF assms(1)] by (auto simp: w' split: prod.splits sum.splits)
  show "online contents w'"
    using assms(2) w' * by (auto simp: online_def split: if_splits)
qed

theorem online_backend:
  assumes "badger_ok B contents"
  shows "backend (RemoteStorage B N) (RemoteKeyStore B N) (online contents)
    (\<lambda>w u. contents (server_db w) (data_name u)) (\<lambda>w n. contents (server_db w) (key_name n))"
proof (unfold_locales, unfold RemoteStorage_def RemoteKeyStore_def StorageService.simps KeyStoreService.simps)
  fix w w' :: "'a rworld" and k :: uuid and n :: gostr and r u v
  assume on: "online contents w"
  show "r = contents (server_db w) (data_name k) \<and>
      (\<lambda>u. contents (server_db w') (data_name u)) = (\<lambda>u. contents (server_db w) (data_name u)) \<and> online contents w'"
      "(\<lambda>n. contents (server_db w') (key_name n)) = (\<lambda>n. contents (server_db w) (key_name n))"
    if "remote_Get B N (data_name k) w = (Inr r, w')"
    using online_Get [OF assms on that] by simp_all
  show "r = contents (server_db w) (key_name n) \<and>
      (\<lambda>n. contents (server_db w') (key_name n)) = (\<lambda>n. contents (server_db w) (key_name n)) \<and> online contents w'"
      "(\<lambda>u. contents (server_db w') (data_name u)) = (\<lambda>u. contents (server_db w) (data_name u))"
    if "remote_Get B N (key_name n) w = (Inr r, w')"
    using online_Get [OF assms on that] by simp_all
  show "(\<lambda>u. contents (server_db w') (data_name u)) = (\<lambda>u. contents (server_db w) (data_name u))(k \<mapsto> v) \<and> online contents w'"
      "(\<lambda>n. contents (server_db w') (key_name n)) = (\<lambda>n. contents (server_db w) (key_name n))"
    if "remote_Set B N (data_name k) v w = (Inr u, w')"
    using online_Set [OF assms on that] by (simp_all add: fun_eq_iff)
  show "(\<lambda>n. contents (server_db w') (key_name n)) = (\<lambda>n. contents (server_db w) (key_name n))(n \<mapsto> v) \<and> online contents w'"
      "(\<lambda>u. contents (server_db w') (data_name u)) = (\<lambda>u. contents (server_db w) (data_name u))"
    if "remote_Set B N (key_name n) v w = (Inr u, w')"
    using online_Set [OF assms on that] by (simp_all add: fun_eq_iff)
  show "(\<lambda>u. contents (server_db w') (data_name u)) = (\<lambda>u. contents (server_db w) (data_name u))(k := None) \<and> online contents w'"
      "(\<lambda>n. contents (server_db w') (key_name n)) = (\<lambda>n. contents (server_db w) (key_name n))"
    if "remote_Delete B N (data_name k) w = (Inr u, w')"
    using online_Delete [OF assms on that] by (simp_all add: fun_eq_iff)
qed

end
