(* ===== verification/Examples.thy ===== *)
theory Examples
  imports Remote
begin

text \<open>
  A concrete provider, network and database for the example runs: they satisfy the documented
  behaviour the theorems assume, and nothing else is claimed of them. The digests, ciphers and
  signatures here are toys that show the assumptions can hold together; the program never runs
  with them.
\<close>

section \<open>A provider\<close>

definition pad :: "nat \<Rightarrow> bytes \<Rightarrow> bytes" where
  "pad n b = take n (b @ replicate n 0)"

lemma length_pad [simp]: "length (pad n b) = n"
  by (simp add: pad_def)

lemma pad_id: "length b = n \<Longrightarrow> pad n b = b"
  by (simp add: pad_def)

definition hex_digit :: "nat \<Rightarrow> byte" where
  "hex_digit n = of_nat (48 + n)"

fun hex_text :: "bytes \<Rightarrow> gostr" where
  "hex_text [] = []"
| "hex_text (b # bs) = hex_digit (unat b div 16) # hex_digit (unat b mod 16) # hex_text bs"

fun hex_parse :: "gostr \<Rightarrow> bytes option" where
  "hex_parse [] = Some []"
| "hex_parse [x] = None"
| "hex_parse (x # y # r) =
     map_option ((#) (of_nat ((unat x - 48) * 16 + (unat y - 48)))) (hex_parse r)"

lemma unat_hex_digit: "n < 16 \<Longrightarrow> unat (hex_digit n) = 48 + n"
  unfolding hex_digit_def by (rule unat_byte_of_nat) simp

lemma hex_parse_text: "hex_parse (hex_text b) = Some b"
proof (induction b)
  case (Cons x b)
  have "unat x div 16 < 16" "unat x mod 16 < 16"
    using unat_byte_less [of x] by (simp_all add: less_mult_imp_div_less)
  with Cons show ?case
    by (simp add: unat_hex_digit div_mult_mod_eq [of "unat x" 16])
qed simp

lemma hex_parse_length: "hex_parse s = Some b \<Longrightarrow> length s = 2 * length b"
  by (induction s arbitrary: b rule: hex_parse.induct) auto

lemma length_hex_text [simp]: "length (hex_text b) = 2 * length b"
  by (induction b) simp_all

lemma hex_text_ascii: "c \<in> set (hex_text b) \<Longrightarrow> c < 128"
proof (induction b)
  case (Cons x b)
  have "unat x div 16 < 16" "unat x mod 16 < 16"
    using unat_byte_less [of x] by (simp_all add: less_mult_imp_div_less)
  with Cons show ?case
    by (auto simp: byte_less_iff_unat unat_hex_digit)
qed simp

definition P0 :: provider where
  "P0 = \<lparr>
     rand_read = (\<lambda>t n. Some (pad n [of_nat t])),
     uuid_new = (\<lambda>t. replicate 14 255 @ [of_nat (t div 256), of_nat t]),
     map_order = (\<lambda>t ks. ks),
     sha512 = (\<lambda>m. pad 64 (rev m)),
     hmac_sha256 = (\<lambda>k m. pad 32 (k @ m)),
     gcm_seal = (\<lambda>k n m a. m @ take 16 k),
     gcm_open = (\<lambda>k n c a. if drop (length c - 16) c = take 16 k then Some (take (length c - 16) c) else None),
     x25519_genkey = (\<lambda>t. Some (pad 32 [of_nat t])),
     x25519_public = pad 32,
     x25519_ecdh = (\<lambda>k p. Some (map2 (+) k p)),
     ed25519_genkey = (\<lambda>t. Some (pad 32 [of_nat t], pad 64 [of_nat t])),
     ed25519_sign = (\<lambda>k m. take 32 k @ pad 32 m),
     ed25519_verify = (\<lambda>p m g. g = p @ pad 32 m),
     argon2_id = (\<lambda>p s t m h n. pad n (p @ s)),
     uuid_from_bytes = (\<lambda>b. if length b = 16 then Inr b else Inl (Msg ''invalid UUID'' [])),
     uuid_text = hex_text,
     uuid_parse = (\<lambda>s. if length s = 32 then hex_parse s else None)\<rparr>"

lemma map2_add_commute: "map2 (+) xs ys = map2 (+) ys (xs :: byte list)"
  by (induction xs ys rule: list_induct2') (auto simp: add.commute)

lemma P0_ok: "provider_ok P0"
  unfolding provider_ok_def
proof (intro conjI)
  show "rng_ok P0" "order_ok P0" "digest_ok P0" "gcm_ok P0"
    by (simp_all add: P0_def rng_ok_def order_ok_def digest_ok_def gcm_ok_def)
  show "dh_ok P0"
    by (auto simp: P0_def dh_ok_def pad_id map2_add_commute)
  show "sig_ok P0"
    by (auto simp: P0_def sig_ok_def pad_def)
  show "uuid_ok P0"
    by (auto simp: P0_def uuid_ok_def hex_parse_text dest: hex_text_ascii hex_parse_length split: if_splits)
qed

text \<open>The first 65536 UUIDs are different from each other and from every digest of a short name.\<close>

lemma P0_uuid_new: "uuid_new P0 t = replicate 14 255 @ [of_nat (t div 256), of_nat t]"
  by (simp add: P0_def)

lemma P0_uuid_inj:
  assumes "t < 65536" "t' < 65536" and "uuid_new P0 t = uuid_new P0 t'"
  shows "t = t'"
proof -
  from assms(3) have "(of_nat (t div 256) :: byte) = of_nat (t' div 256)" "(of_nat t :: byte) = of_nat t'"
    by (simp_all add: P0_uuid_new)
  then have "t div 256 mod 256 = t' div 256 mod 256" "t mod 256 = t' mod 256"
    by (simp_all add: word_unat_eq_iff unat_of_nat)
  moreover have "t div 256 < 256" "t' div 256 < 256"
    using assms(1,2) by (simp_all add: less_mult_imp_div_less)
  ultimately have "t div 256 = t' div 256" "t mod 256 = t' mod 256" by simp_all
  then show ?thesis
    by (metis div_mult_mod_eq)
qed

lemma P0_uuid_eq: "t < 65536 \<Longrightarrow> t' < 65536 \<Longrightarrow> uuid_new P0 t = uuid_new P0 t' \<longleftrightarrow> t = t'"
  using P0_uuid_inj by blast

lemma P0_fresh:
  assumes "t + n < 65536"
    and "\<And>u. u \<in> used \<Longrightarrow> hd u \<noteq> 255 \<or> (\<exists>i. i < t \<and> u = uuid_new P0 i)"
  shows "fresh_uuids P0 t n used"
  unfolding fresh_uuids_def
proof
  show "distinct (map (uuid_new P0) [t..<t + n])"
    using assms(1) P0_uuid_inj by (auto simp: distinct_map inj_on_def)
  show "\<forall>i\<in>{t..<t + n}. uuid_new P0 i \<notin> used"
  proof (intro ballI notI)
    fix i
    assume i: "i \<in> {t..<t + n}" "uuid_new P0 i \<in> used"
    have "hd (uuid_new P0 i) = 255"
      by (simp add: P0_uuid_new)
    with assms(2) [OF i(2)] obtain j where "j < t" "uuid_new P0 i = uuid_new P0 j"
      by auto
    with P0_uuid_inj [of i j] i(1) assms(1) show False by simp
  qed
qed

section \<open>A network\<close>

text \<open>A network that carries whole messages, except on every third connection.\<close>

definition N0 :: network where
  "N0 = \<lparr>net_dial = (\<lambda>n tls addr. Inr ()), net_up = (\<lambda>n. if n mod 3 = 2 then 7 else 100000),
     net_down = (\<lambda>n. 100000)\<rparr>"

section \<open>Two users and a file\<close>

abbreviation (input) alice :: gostr where "alice \<equiv> lit ''alice''"
abbreviation (input) bob :: gostr where "bob \<equiv> lit ''bob''"
abbreviation (input) file_f :: gostr where "file_f \<equiv> lit ''f''"
abbreviation (input) file_g :: gostr where "file_g \<equiv> lit ''g''"

definition nobody :: User where
  "nobody = \<lparr>Username = [], EncryptionPrivateKey = [], SigningPrivateKey = [], MasterKey = [],
     PasswordSalt = [], Files = None\<rparr>"

definition start :: "mworld st" where
  "start = \<lparr>backing = new_memory, tick = 0, userdata = nobody\<rparr>"

lemma P0_access_id_hd: "f \<noteq> [] \<Longrightarrow> hd (access_id P0 n f) = last f"
  by (simp add: access_id_def hash_def P0_def pad_def access_input_def hd_rev last_append flip: hd_take)
    (simp add: hd_append hd_rev)

lemma P0_user_id_hd: "n \<noteq> [] \<Longrightarrow> hd (user_id P0 n) = last n"
  by (simp add: user_id_def hash_def P0_def pad_def) (simp add: hd_append hd_rev)

lemma last_lit [simp]: "s \<noteq> [] \<Longrightarrow> last (lit s) = of_char (last s)"
  by (simp add: lit_def last_map)

lemma P0_hds [simp]:
  "hd (access_id P0 n file_f) = of_char (CHR ''f'')" "hd (access_id P0 n file_g) = of_char (CHR ''g'')"
  "hd (user_id P0 alice) = of_char (CHR ''e'')" "hd (user_id P0 bob) = of_char (CHR ''b'')"
  by (simp_all add: P0_access_id_hd P0_user_id_hd)

lemma of_char_literals [simp]:
  "(of_char (CHR ''f'') :: byte) = 102" "(of_char (CHR ''g'') :: byte) = 103"
  "(of_char (CHR ''e'') :: byte) = 101" "(of_char (CHR ''b'') :: byte) = 98"
  by (simp_all add: of_char_def)

lemma apart_by_hd: "hd u \<noteq> hd v \<Longrightarrow> u \<noteq> v"
  by auto

definition sample :: bytes where
  "sample = [1, 2, 3]"

lemma sample_blocks: "map block (ByteToBlock sample) = [sample]" "length (ByteToBlock sample) = 1"
  by (simp_all add: ByteToBlock_def BlockSize_def sample_def)

text \<open>Two accounts in an empty storage.\<close>

lemma two_users:
  obtains s :: "mworld st" and ua ub pa where "good_user ua" "Username ua = alice" "Files ua = Some fmempty"
    and "good_user ub" "Username ub = bob" "Files ub = Some fmempty"
    and "account_at P0 (store_data (backing s)) (lit ''pw'') ua"
    and "account_at P0 (store_data (backing s)) (lit ''pw'') ub"
    and "ed25519_genkey P0 2 = Some (pa, SigningPrivateKey ua)"
    and "store_keys (backing s) (alice @ lit ''_sig_pub'') = Some pa"
    and "store_keys (backing s) (bob @ lit ''_enc_pub'') = Some (x25519_public P0 (EncryptionPrivateKey ub))"
    and "tick s = 8" and "dom (store_data (backing s)) = {user_id P0 alice, user_id P0 bob}"
proof -
  have ids: "user_id P0 bob \<noteq> user_id P0 alice"
    by (rule apart_by_hd) simp
  have "utf8_valid alice" "utf8_valid bob" by (simp_all del: utf8_valid_lit add: utf8_valid_lit)
  obtain ua s1 pa where a: "InitUser P0 memory_service alice (lit ''pw'') start = (Inr ua, s1)"
      "good_user ua" "Username ua = alice" "Files ua = Some fmempty"
      "account_at P0 (store_data (backing s1)) (lit ''pw'') ua"
      "store_data (backing s1) = (store_data (backing start))(user_id P0 alice \<mapsto> user_payload P0 (tick start + 3) ua)"
      "store_keys (backing s1) = (store_keys (backing start))
         (alice @ lit ''_enc_pub'' \<mapsto> x25519_public P0 (EncryptionPrivateKey ua), alice @ lit ''_sig_pub'' \<mapsto> pa)"
      "ed25519_genkey P0 (tick start + 2) = Some (pa, SigningPrivateKey ua)" "tick s1 = tick start + 4"
    by (rule InitUser_run [OF P0_ok, of start alice "lit ''pw''"])
      (simp_all add: start_def new_memory_def \<open>utf8_valid alice\<close>)
  obtain ub s2 pb where b: "InitUser P0 memory_service bob (lit ''pw'') s1 = (Inr ub, s2)"
      "good_user ub" "Username ub = bob" "Files ub = Some fmempty"
      "account_at P0 (store_data (backing s2)) (lit ''pw'') ub"
      "store_data (backing s2) = (store_data (backing s1))(user_id P0 bob \<mapsto> user_payload P0 (tick s1 + 3) ub)"
      "store_keys (backing s2) = (store_keys (backing s1))
         (bob @ lit ''_enc_pub'' \<mapsto> x25519_public P0 (EncryptionPrivateKey ub), bob @ lit ''_sig_pub'' \<mapsto> pb)"
      "tick s2 = tick s1 + 4"
    by (rule InitUser_run [OF P0_ok, of s1 bob "lit ''pw''"])
      (use ids a(6) in \<open>simp_all add: start_def new_memory_def \<open>utf8_valid bob\<close>\<close>)
  have neq: "alice @ lit ''_sig_pub'' \<noteq> bob @ lit ''_enc_pub''" "alice @ lit ''_sig_pub'' \<noteq> bob @ lit ''_sig_pub''"
    by (simp_all add: lit_def of_char_byte_inj)
  show thesis
    using a b ids neq
    by (intro that [of ua ub s2 pa])
      (auto simp: start_def new_memory_def account_at_def numeral_2_eq_2)
qed

text \<open>Alice has stored a file; Bob has an account.\<close>

definition sample_shared :: "mworld st \<Rightarrow> bool" where
  "sample_shared s \<longleftrightarrow>
     shared_file P0 (store_data (backing s)) (userdata s) file_f (new_access P0 8) (new_mailbox P0 8)
       (new_inode P0 8 sample) [sample] \<and>
     good_user (userdata s) \<and> Username (userdata s) = alice \<and> tick s = 18"

lemma sample_footprint:
  "footprint P0 u file_f (new_access P0 8) (new_mailbox P0 8) (new_inode P0 8 sample) =
    {user_id P0 (Username u), access_id P0 (Username u) file_f, uuid_new P0 9, uuid_new P0 10, uuid_new P0 14}"
  by (auto simp: footprint_def view_ids_def child_infos_def children_of_def new_access_def new_mailbox_def
      new_inode_def sample_blocks)

lemma stored_sample:
  obtains s :: "mworld st" and ub pa where "sample_shared s" and "good_user ub" and "Username ub = bob"
    and "ed25519_genkey P0 2 = Some (pa, SigningPrivateKey (userdata s))"
    and "store_keys (backing s) (alice @ lit ''_sig_pub'') = Some pa"
    and "store_keys (backing s) (bob @ lit ''_enc_pub'') = Some (x25519_public P0 (EncryptionPrivateKey ub))"
    and "account_at P0 (store_data (backing s)) (lit ''pw'') (userdata s)"
proof -
  obtain s0 :: "mworld st" and ua ub pa where u: "good_user ua" "Username ua = alice" "Files ua = Some fmempty"
      "good_user ub" "Username ub = bob" "Files ub = Some fmempty"
      "account_at P0 (store_data (backing s0)) (lit ''pw'') ua"
      "account_at P0 (store_data (backing s0)) (lit ''pw'') ub"
      "ed25519_genkey P0 2 = Some (pa, SigningPrivateKey ua)"
      "store_keys (backing s0) (alice @ lit ''_sig_pub'') = Some pa"
      "store_keys (backing s0) (bob @ lit ''_enc_pub'') = Some (x25519_public P0 (EncryptionPrivateKey ub))"
      "tick s0 = 8" "dom (store_data (backing s0)) = {user_id P0 alice, user_id P0 bob}"
    by (rule two_users)
  define s1 where "s1 = s0\<lparr>userdata := ua\<rparr>"
  obtain r s2 where run: "StoreFile P0 memory_service file_f sample s1 = (r, s2)" by fastforce
  have salt: "length (PasswordSalt (userdata s1)) = 16" using u(1) by (simp add: good_user_def s1_def)
  have len: "int (length sample) < 2 ^ 63" by (simp add: sample_def)
  have fresh: "fresh_uuids P0 (tick s1) (8 + 2 * length (ByteToBlock sample)) {access_id P0 alice file_f, user_id P0 alice}"
    by (rule P0_fresh) (auto simp: s1_def u(12) sample_blocks)
  have ids: "access_id P0 (Username (userdata s1)) file_f \<in> {access_id P0 alice file_f, user_id P0 alice}"
      "user_id P0 (Username (userdata s1)) \<in> {access_id P0 alice file_f, user_id P0 alice}"
      "access_id P0 (Username (userdata s1)) file_f \<noteq> user_id P0 (Username (userdata s1))"
    using u(2) apart_by_hd [of "access_id P0 alice file_f" "user_id P0 alice"] by (simp_all add: s1_def)
  note st = StoreFile_shared [OF P0_ok salt len fresh ids run] StoreFile_view [OF P0_ok salt len fresh ids run]
  have t: "tick s1 = 8" using u(12) by (simp add: s1_def)
  have ud: "userdata s2 = with_file P0 ua file_f" using st(3) by (simp add: s1_def)
  have "good_user (userdata s2)"
    unfolding ud using provider_parts [OF P0_ok] u(1) by (intro good_user_with_file) simp_all
  then have "sample_shared s2"
    using st(1,4) t u(2) ud by (simp add: sample_shared_def sample_blocks)
  moreover have "store_keys (backing s2) = store_keys (backing s0)"
    using st(5) by (simp add: s1_def)
  moreover have "account_at P0 (store_data (backing s2)) (lit ''pw'') (userdata s2)"
    using st(7) u(2,7) ud by (auto simp: account_at_def s1_def)
  ultimately show thesis
    using u ud by (intro that [of s2 ub pa]) simp_all
qed

text \<open>The places of Bob's records, and the UUIDs still to be drawn, are apart from Alice's file.\<close>

definition sample_used :: "uuid set" where
  "sample_used = {access_id P0 bob file_g, user_id P0 bob, user_id P0 alice, access_id P0 alice file_f,
     uuid_new P0 9, uuid_new P0 10, uuid_new P0 14}"

lemma sample_fresh: "18 \<le> t \<Longrightarrow> t + n < 65536 \<Longrightarrow> fresh_uuids P0 t n sample_used"
proof (rule P0_fresh)
  fix u
  assume "18 \<le> t" and "u \<in> sample_used"
  moreover have "\<exists>j. j < t \<and> uuid_new P0 i = uuid_new P0 j" if "i < 18" for i
    using that \<open>18 \<le> t\<close> by (intro exI [of _ i]) simp
  ultimately show "hd u \<noteq> 255 \<or> (\<exists>i. i < t \<and> u = uuid_new P0 i)"
    unfolding sample_used_def by (elim insertE emptyE) auto
qed

lemma hd_uuid_new [simp]: "hd (uuid_new P0 t) = 255"
  by (simp add: P0_uuid_new)

lemma sample_apart:
  "access_id P0 bob file_g \<notin> {user_id P0 alice, access_id P0 alice file_f, uuid_new P0 i, uuid_new P0 j, uuid_new P0 k}"
  "user_id P0 bob \<notin> {user_id P0 alice, access_id P0 alice file_f, uuid_new P0 i, uuid_new P0 j, uuid_new P0 k}"
  "access_id P0 bob file_g \<noteq> user_id P0 bob"
  by (auto dest!: arg_cong [where f = hd])

lemma sample_footprint':
  assumes "sample_shared s"
  shows "footprint P0 (userdata s) file_f (new_access P0 8) (new_mailbox P0 8) (new_inode P0 8 sample) =
    {user_id P0 alice, access_id P0 alice file_f, uuid_new P0 9, uuid_new P0 10, uuid_new P0 14}"
  using assms by (simp add: sample_footprint sample_shared_def)

lemma sample_sharing:
  assumes "sample_shared s" and "good_user v" and "Username v = bob"
  shows "fresh_uuids P0 (tick s) 7 sample_used"
    and "insert (access_id P0 (Username v) file_g) (insert (user_id P0 (Username v))
      (footprint P0 (userdata s) file_f (new_access P0 8) (new_mailbox P0 8) (new_inode P0 8 sample))) \<subseteq> sample_used"
    and "access_id P0 (Username v) file_g \<notin>
      footprint P0 (userdata s) file_f (new_access P0 8) (new_mailbox P0 8) (new_inode P0 8 sample)"
    and "user_id P0 (Username v) \<notin>
      footprint P0 (userdata s) file_f (new_access P0 8) (new_mailbox P0 8) (new_inode P0 8 sample)"
    and "access_id P0 (Username v) file_g \<noteq> user_id P0 (Username v)"
proof -
  show "fresh_uuids P0 (tick s) 7 sample_used"
    using assms(1) by (intro sample_fresh) (simp_all add: sample_shared_def)
qed (simp_all only: sample_footprint' [OF assms(1)] assms(3) sample_apart sample_used_def, auto)

text \<open>Alice has shared the file with Bob, who has accepted it as \<open>g\<close>.\<close>

lemma shared_sample:
  obtains s s1 s2 :: "mworld st" and ub pa i where "sample_shared s" and "good_user ub" and "Username ub = bob"
    and "ed25519_genkey P0 2 = Some (pa, SigningPrivateKey (userdata s))"
    and "store_keys (backing s) (alice @ lit ''_sig_pub'') = Some pa"
    and "store_keys (backing s) (bob @ lit ''_enc_pub'') = Some (x25519_public P0 (EncryptionPrivateKey ub))"
    and "CreateInvitation P0 memory_service file_f bob s = (Inr i, s1)"
    and "AcceptInvitation P0 memory_service alice i file_g (s1\<lparr>userdata := ub\<rparr>) = (Inr (), s2)"
    and "file_view P0 (store_data (backing s2)) (userdata s2) file_g
      (accepted_access (child_invitation (shared_child P0 18))) (new_mailbox P0 8) (new_inode P0 8 sample) [sample]"
    and "shared_file P0 (store_data (backing s2)) (userdata s) file_f
      (with_child bob (shared_child P0 18) (new_access P0 8)) (new_mailbox P0 8) (new_inode P0 8 sample) [sample]"
    and "userdata s2 = with_file P0 ub file_g" and "tick s2 = 27"
proof -
  obtain s :: "mworld st" and ub pa where s: "sample_shared s" "good_user ub" "Username ub = bob"
      "ed25519_genkey P0 2 = Some (pa, SigningPrivateKey (userdata s))"
      "store_keys (backing s) (alice @ lit ''_sig_pub'') = Some pa"
      "store_keys (backing s) (bob @ lit ''_enc_pub'') = Some (x25519_public P0 (EncryptionPrivateKey ub))"
    by (rule stored_sample)
  have sh: "shared_file P0 (store_data (backing s)) (userdata s) file_f (new_access P0 8) (new_mailbox P0 8)
      (new_inode P0 8 sample) [sample]" and name: "Username (userdata s) = alice" and t: "tick s = 18"
    using s(1) by (simp_all add: sample_shared_def)
  note hyps = sample_sharing [OF s(1-3)]
  obtain r s1 where "CreateInvitation P0 memory_service file_f bob s = (r, s1)" by fastforce
  moreover have "length (EncryptionPrivateKey ub) = 32" "utf8_valid bob" "footprint P0 (userdata s) file_f
      (new_access P0 8) (new_mailbox P0 8) (new_inode P0 8 sample) \<subseteq> sample_used"
    using s(2) hyps(2) by (simp_all add: good_user_def)
  ultimately obtain i where cr: "CreateInvitation P0 memory_service file_f bob s = (Inr i, s1)"
    using CreateInvitation_shared(1) [OF P0_ok sh s(4,6) _ _ hyps(1)] by blast
  obtain res s2 where ac: "AcceptInvitation P0 memory_service alice i file_g (s1\<lparr>userdata := ub\<rparr>) = (res, s2)"
    by fastforce
  note both = share_and_accept [OF P0_ok sh s(4) _ s(2) _ hyps, unfolded name s(3), OF s(5,6) cr ac]
  from both ac cr s t show thesis
    by (intro that [of s ub pa i s1 s2]) simp_all
qed

lemma sample_fresh': "27 \<le> t \<Longrightarrow> t + n < 65536 \<Longrightarrow> fresh_uuids P0 t n (insert (uuid_new P0 18) sample_used)"
proof (rule P0_fresh)
  fix u
  assume "27 \<le> t" and "u \<in> insert (uuid_new P0 18) sample_used"
  moreover have "\<exists>j. j < t \<and> uuid_new P0 i = uuid_new P0 j" if "i < 27" for i
    using that \<open>27 \<le> t\<close> by (intro exI [of _ i]) simp
  ultimately show "hd u \<noteq> 255 \<or> (\<exists>i. i < t \<and> u = uuid_new P0 i)"
    unfolding sample_used_def by (elim insertE emptyE) auto
qed

lemma P0_getFileKeys: "length k = 32 \<Longrightarrow> getFileKeys P0 k = (k, k)"
  by (simp add: getFileKeys_def deriveKey_def P0_def pad_def)

lemma P0_data_key: "length k = 32 \<Longrightarrow> data_key P0 k k = k"
  by (simp add: data_key_def deriveKey_def P0_def pad_def)

lemma P0_rnd: "rnd P0 n t = pad n [of_nat t]"
  by (simp add: rnd_def P0_def)

text \<open>In this provider the first 256 file keys are different, and a wrong key is noticed.\<close>

lemma P0_other_key:
  assumes "length k = 32" "length k' = 32" and "take 16 k \<noteq> take 16 k'"
  shows "\<exists>e. decryptAndVerify P0 (sealed P0 n b (k, k)) (k', k') = Inl e"
proof -
  have "gcm_open P0 k' (rnd P0 12 n) (b @ take 16 k) [] = None"
    using assms by (simp add: P0_def)
  moreover have "gcm_seal P0 k (rnd P0 12 n) b [] = b @ take 16 k"
    by (simp add: P0_def)
  moreover have "length (rnd P0 12 n) = 12" by (simp add: P0_rnd)
  moreover have "k' \<noteq> []" using assms(2) by auto
  ultimately show ?thesis
    using assms(1,2) by (simp add: decryptAndVerify_def sealed_def P0_data_key aes_NewCipher_def
        gcm_nonce_size_def gcm_overhead_def)
qed

lemma P0_foreign_key:
  assumes "t < 256" "t' < 256" and "t \<noteq> t'"
  shows "foreign_key_rejected P0 (rnd P0 32 t) (rnd P0 32 t')"
proof -
  let ?k = "rnd P0 32 t" and ?k' = "rnd P0 32 t'"
  have neq: "(of_nat t :: byte) \<noteq> of_nat t'"
    using assms by (simp add: word_unat_eq_iff unat_of_nat)
  have len: "length ?k = 32" "length ?k' = 32" by (simp_all add: P0_rnd)
  have "take 16 ?k \<noteq> take 16 ?k'"
    using neq by (simp add: P0_rnd pad_def)
  from P0_other_key [OF len this] show ?thesis
    by (simp add: foreign_key_rejected_def P0_getFileKeys len)
qed

text \<open>The state of \<open>shared_sample\<close> with Alice logged in, and what the theorems ask of it.\<close>

lemma shared_sample_alice:
  obtains s :: "mworld st" and v a where
    "shared_file P0 (store_data (backing s)) (userdata s) file_f a (new_mailbox P0 8) (new_inode P0 8 sample) [sample]"
    and "fmlookup (children_of a) bob = Some (shared_child P0 18)"
    and "footprint P0 (userdata s) file_f a (new_mailbox P0 8) (new_inode P0 8 sample) \<subseteq> insert (uuid_new P0 18) sample_used"
    and "access_id P0 bob file_g \<notin> footprint P0 (userdata s) file_f a (new_mailbox P0 8) (new_inode P0 8 sample)"
    and "uuid_new P0 31 \<notin> footprint P0 (userdata s) file_f a (new_mailbox P0 8) (new_inode P0 8 sample)"
    and "good_user (userdata s)" and "Username (userdata s) = alice" and "tick s = 27"
    and "file_view P0 (store_data (backing s)) v file_g
      (accepted_access (child_invitation (shared_child P0 18))) (new_mailbox P0 8) (new_inode P0 8 sample) [sample]"
    and "Username v = bob" and "good_user v" and "MymailboxUUID a = uuid_new P0 10"
proof -
  obtain s s1 s2 :: "mworld st" and ub pa i where s: "sample_shared s" "good_user ub" "Username ub = bob"
    and v: "file_view P0 (store_data (backing s2)) (userdata s2) file_g
      (accepted_access (child_invitation (shared_child P0 18))) (new_mailbox P0 8) (new_inode P0 8 sample) [sample]"
    and sh: "shared_file P0 (store_data (backing s2)) (userdata s) file_f
      (with_child bob (shared_child P0 18) (new_access P0 8)) (new_mailbox P0 8) (new_inode P0 8 sample) [sample]"
    and u: "userdata s2 = with_file P0 ub file_g" and t: "tick s2 = 27"
    by (rule shared_sample)
  let ?a = "with_child bob (shared_child P0 18) (new_access P0 8)"
  have name: "Username (userdata s) = alice" and good: "good_user (userdata s)"
    using s(1) by (simp_all add: sample_shared_def)
  have foot: "footprint P0 (userdata s) file_f ?a (new_mailbox P0 8) (new_inode P0 8 sample) \<subseteq>
      {user_id P0 alice, access_id P0 alice file_f, uuid_new P0 9, uuid_new P0 10, uuid_new P0 14, uuid_new P0 18}"
    by (auto simp: footprint_def view_ids_def child_infos_def children_of_def new_access_def new_mailbox_def
        new_inode_def sample_blocks name with_child_def shared_child_def fmlookup_ran_iff split: if_splits)
  have "good_user (with_file P0 ub file_g)"
    using provider_parts [OF P0_ok] s(2) by (intro good_user_with_file) simp_all
  moreover have "access_id P0 bob file_g \<notin>
      {user_id P0 alice, access_id P0 alice file_f, uuid_new P0 9, uuid_new P0 10, uuid_new P0 14, uuid_new P0 18}"
    by (auto dest!: arg_cong [where f = hd])
  moreover have "uuid_new P0 31 \<notin>
      {user_id P0 alice, access_id P0 alice file_f, uuid_new P0 9, uuid_new P0 10, uuid_new P0 14, uuid_new P0 18}"
    by (simp add: P0_uuid_eq) (auto dest!: arg_cong [where f = hd])
  ultimately show thesis
    using sh foot good name t v u s(3)
    by (intro that [of "s2\<lparr>userdata := userdata s\<rparr>" ?a "userdata s2"]) (auto simp: sample_used_def new_access_def)
qed

text \<open>Bob's side of the shared file: a file he could share on, and revoke.\<close>

lemma sample_of_bob:
  assumes "file_view P0 m v file_g (accepted_access (child_invitation (shared_child P0 18)))
      (new_mailbox P0 8) (new_inode P0 8 sample) [sample]"
    and "Username v = bob"
  shows "shared_file P0 m v file_g (accepted_access (child_invitation (shared_child P0 18)))
      (new_mailbox P0 8) (new_inode P0 8 sample) [sample]"
    and "footprint P0 v file_g (accepted_access (child_invitation (shared_child P0 18)))
      (new_mailbox P0 8) (new_inode P0 8 sample) =
      {user_id P0 bob, access_id P0 bob file_g, uuid_new P0 18, uuid_new P0 9, uuid_new P0 14}"
proof -
  let ?b = "accepted_access (child_invitation (shared_child P0 18))"
  have ok: "uuid_ok P0" using provider_parts [OF P0_ok] by simp
  have ids: "view_ids P0 v file_g ?b (new_mailbox P0 8) (new_inode P0 8 sample) =
      [access_id P0 bob file_g, uuid_new P0 18, uuid_new P0 9, uuid_new P0 14]"
    by (simp add: view_ids_def assms(2) accepted_access_def child_invitation_def shared_child_def
        new_mailbox_def new_inode_def sample_blocks)
  have kids: "child_infos ?b = {||}" "children_of ?b = fmempty" "Children ?b \<noteq> None"
    by (simp_all add: child_infos_def children_of_def accepted_access_def)
  have "distinct (user_id P0 bob # view_ids P0 v file_g ?b (new_mailbox P0 8) (new_inode P0 8 sample))"
    unfolding ids by (simp add: P0_uuid_eq) (auto dest!: arg_cong [where f = hd])
  moreover have "wf_access ?b" "wf_inode (new_inode P0 8 sample)"
    using ok new_records_wf(3) [OF ok, of sample 8]
    by (simp_all add: wf_access_def accepted_access_def child_invitation_def shared_child_def uuid_ok_def sample_def)
  ultimately show "shared_file P0 m v file_g ?b (new_mailbox P0 8) (new_inode P0 8 sample) [sample]"
    using assms new_records_wf(1) [OF ok] kids by (simp add: shared_file_def)
  show "footprint P0 v file_g ?b (new_mailbox P0 8) (new_inode P0 8 sample) =
      {user_id P0 bob, access_id P0 bob file_g, uuid_new P0 18, uuid_new P0 9, uuid_new P0 14}"
    by (auto simp: footprint_def ids kids assms(2))
qed

end
