(* ===== verification/Os.thy ===== *)
theory Os
  imports Prelude
begin

text \<open>
  What the command-line programs use of the operating system: environment variables, the
  lexical path functions of Go's package \<open>path\<close> (and \<open>filepath\<close>, which is the same on Unix),
  and files. The file system is a map from the files' places to their contents and a set of
  directories; which place a path names (working directory, links) and which operations fail
  (permissions, a full disk) is the \<open>disk\<close> parameter.
\<close>

section \<open>Paths\<close>

abbreviation slash :: byte where "slash \<equiv> 47"

abbreviation dot :: gostr where "dot \<equiv> [46]"

abbreviation dotdot :: gostr where "dotdot \<equiv> [46, 46]"

text \<open>\<open>strings.Split\<close> at one byte, and back.\<close>

fun split_on :: "byte \<Rightarrow> bytes \<Rightarrow> bytes list" where
  "split_on c [] = [[]]"
| "split_on c (b # bs) =
     (if b = c then [] # split_on c bs
      else (case split_on c bs of [] \<Rightarrow> [[b]] | w # ws \<Rightarrow> (b # w) # ws))"

fun join_with :: "byte \<Rightarrow> bytes list \<Rightarrow> bytes" where
  "join_with c [] = []"
| "join_with c [w] = w"
| "join_with c (w # v # ws) = w @ c # join_with c (v # ws)"

text \<open>One element of a path, given the elements before it in reverse.\<close>

definition clean_elem :: "bool \<Rightarrow> gostr list \<Rightarrow> gostr \<Rightarrow> gostr list" where
  "clean_elem rooted acc e =
     (if e = [] \<or> e = dot then acc
      else if e = dotdot then
        (case acc of [] \<Rightarrow> if rooted then [] else [e] | a # as \<Rightarrow> if a = dotdot then e # acc else as)
      else e # acc)"

definition path_Clean :: "gostr \<Rightarrow> gostr" where
  "path_Clean p =
     (if p = [] then dot
      else
        let rooted = (hd p = slash);
            es = rev (foldl (clean_elem rooted) [] (split_on slash p));
            body = join_with slash es
        in if rooted then slash # body else if es = [] then dot else body)"

definition path_Join :: "gostr list \<Rightarrow> gostr" where
  "path_Join es =
     (let ne = filter (\<lambda>e. e \<noteq> []) es in if ne = [] then [] else path_Clean (join_with slash ne))"

definition path_Dir :: "gostr \<Rightarrow> gostr" where
  "path_Dir p = path_Clean (rev (dropWhile (\<lambda>b. b \<noteq> slash) (rev p)))"

definition path_Base :: "gostr \<Rightarrow> gostr" where
  "path_Base p =
     (if p = [] then dot
      else
        let q = dropWhile (\<lambda>b. b = slash) (rev p);
            b = rev (takeWhile (\<lambda>b. b \<noteq> slash) q)
        in if b = [] then [slash] else b)"

lemma path_Base_one_element: "slash \<notin> set (path_Base p) \<or> path_Base p = [slash]"
  using set_takeWhileD [of slash "\<lambda>b. b \<noteq> slash"] by (auto simp: path_Base_def Let_def)

lemma path_Base_not_Nil [simp]: "path_Base p \<noteq> []"
  by (simp add: path_Base_def Let_def)

lemma path_Base_plain:
  assumes "f \<noteq> []" and "slash \<notin> set f"
  shows "path_Base (d @ slash # f) = f" and "path_Base f = f"
proof -
  have t: "takeWhile (\<lambda>b. b \<noteq> slash) (rev f @ slash # rev d) = rev f"
      "takeWhile (\<lambda>b. b \<noteq> slash) (rev f) = rev f"
    using assms(2) by (auto simp: takeWhile_eq_all_conv)
  have "hd (rev f) \<noteq> slash"
    using assms by (metis hd_in_set rev_is_Nil_conv set_rev)
  then have d: "dropWhile (\<lambda>b. b = slash) (rev f @ r) = rev f @ r" for r
    using assms(1) by (cases "rev f") auto
  have "dropWhile (\<lambda>b. b = slash) (rev f) = rev f"
    using d [of "[]"] by simp
  then show "path_Base (d @ slash # f) = f" and "path_Base f = f"
    using assms(1) by (simp_all add: path_Base_def Let_def t d)
qed

section \<open>Files and the environment\<close>

record os =
  os_env :: "gostr \<rightharpoonup> gostr"
  os_files :: "gostr \<rightharpoonup> bytes"
  os_dirs :: "gostr set"

text \<open>
  \<open>place\<close> is the file a path names. A fault is the error an operation on a path ends with;
  a fault of a write says how many bytes have been written before.
\<close>

record disk =
  place :: "gostr \<Rightarrow> gostr"
  stat_fault :: "gostr \<Rightarrow> err option"
  open_fault :: "gostr \<Rightarrow> err option"
  write_fault :: "gostr \<Rightarrow> bytes \<Rightarrow> (nat \<times> err) option"
  mkdir_fault :: "gostr \<Rightarrow> err option"
  remove_fault :: "gostr \<Rightarrow> err option"

text \<open>\<open>os.ErrNotExist\<close>, wrapped in a \<open>PathError\<close> with the path.\<close>

definition not_exist :: "gostr \<Rightarrow> err" where
  "not_exist p = Msg ''file does not exist'' [p]"

definition IsNotExist :: "err \<Rightarrow> bool" where
  "IsNotExist e = (case e of Msg f args \<Rightarrow> f = ''file does not exist'' | _ \<Rightarrow> False)"

lemma IsNotExist_not_exist [simp]: "IsNotExist (not_exist p)"
  by (simp add: IsNotExist_def not_exist_def)

definition is_directory :: "gostr \<Rightarrow> err" where
  "is_directory p = Msg ''is a directory'' [p]"

definition not_directory :: "gostr \<Rightarrow> err" where
  "not_directory p = Msg ''not a directory'' [p]"

lemma not_IsNotExist [simp]: "\<not> IsNotExist (is_directory p)"
  by (simp add: IsNotExist_def is_directory_def)

definition os_Getenv :: "gostr \<Rightarrow> os \<Rightarrow> gostr" where
  "os_Getenv k s = (case os_env s k of None \<Rightarrow> [] | Some v \<Rightarrow> v)"

text \<open>\<open>os.UserHomeDir\<close> on Unix.\<close>

definition os_UserHomeDir :: "os \<Rightarrow> err + gostr" where
  "os_UserHomeDir s =
     (let h = os_Getenv (lit ''HOME'') s in if h = [] then Inl (Msg ''$HOME is not defined'' []) else Inr h)"

text \<open>\<open>os.Stat\<close>, of which the program uses only whether there is an error.\<close>

definition os_Stat_ok :: "disk \<Rightarrow> gostr \<Rightarrow> os \<Rightarrow> bool" where
  "os_Stat_ok D p s \<longleftrightarrow>
     stat_fault D p = None \<and> (os_files s (place D p) \<noteq> None \<or> place D p \<in> os_dirs s)"

definition os_ReadFile :: "disk \<Rightarrow> gostr \<Rightarrow> (os, bytes) prog" where
  "os_ReadFile D p s =
     (case open_fault D p of
        Some e \<Rightarrow> (Inl e, s)
      | None \<Rightarrow>
          if place D p \<in> os_dirs s then (Inl (is_directory p), s)
          else (case os_files s (place D p) of None \<Rightarrow> (Inl (not_exist p), s) | Some b \<Rightarrow> (Inr b, s)))"

text \<open>\<open>os.OpenFile\<close> for writing with \<open>O_CREATE\<close> and \<open>O_TRUNC\<close>, and a write to the file.\<close>

definition os_Create :: "disk \<Rightarrow> gostr \<Rightarrow> (os, unit) prog" where
  "os_Create D p s =
     (case open_fault D p of
        Some e \<Rightarrow> (Inl e, s)
      | None \<Rightarrow>
          if place D p \<in> os_dirs s then (Inl (is_directory p), s)
          else if place D (path_Dir p) \<notin> os_dirs s then (Inl (not_exist p), s)
          else (Inr (), s\<lparr>os_files := (os_files s)(place D p \<mapsto> [])\<rparr>))"

definition os_Append :: "disk \<Rightarrow> gostr \<Rightarrow> bytes \<Rightarrow> (os, unit) prog" where
  "os_Append D p b s =
     (let old = (case os_files s (place D p) of None \<Rightarrow> [] | Some x \<Rightarrow> x) in
      case write_fault D p b of
        None \<Rightarrow> (Inr (), s\<lparr>os_files := (os_files s)(place D p \<mapsto> old @ b)\<rparr>)
      | Some (n, e) \<Rightarrow> (Inl e, s\<lparr>os_files := (os_files s)(place D p \<mapsto> old @ take n b)\<rparr>))"

definition os_WriteFile :: "disk \<Rightarrow> gostr \<Rightarrow> bytes \<Rightarrow> (os, unit) prog" where
  "os_WriteFile D p b = bindE (os_Create D p) (\<lambda>_. os_Append D p b)"

text \<open>A directory and the directories it is in.\<close>

definition ancestors :: "gostr \<Rightarrow> gostr list" where
  "ancestors p =
     filter (\<lambda>q. q \<noteq> []) (map (\<lambda>i. take i p)
       (filter (\<lambda>i. i = length p \<or> p ! i = slash) [0..<Suc (length p)]))"

definition os_MkdirAll :: "disk \<Rightarrow> gostr \<Rightarrow> (os, unit) prog" where
  "os_MkdirAll D p s =
     (case mkdir_fault D p of
        Some e \<Rightarrow> (Inl e, s)
      | None \<Rightarrow>
          if \<exists>q \<in> set (ancestors p). os_files s (place D q) \<noteq> None then (Inl (not_directory p), s)
          else (Inr (), s\<lparr>os_dirs := os_dirs s \<union> set (map (place D) (ancestors p))\<rparr>))"

text \<open>\<open>os.Remove\<close>, which the program calls on a file only.\<close>

definition os_Remove :: "disk \<Rightarrow> gostr \<Rightarrow> (os, unit) prog" where
  "os_Remove D p s =
     (case remove_fault D p of
        Some e \<Rightarrow> (Inl e, s)
      | None \<Rightarrow>
          if os_files s (place D p) = None then (Inl (not_exist p), s)
          else (Inr (), s\<lparr>os_files := (os_files s)(place D p := None)\<rparr>))"

section \<open>Reading and writing\<close>

lemma self_ancestor: "p \<noteq> [] \<Longrightarrow> p \<in> set (ancestors p)"
proof -
  assume "p \<noteq> []"
  then have "take (length p) p \<in> set (ancestors p)"
    unfolding ancestors_def set_filter set_map by (intro CollectI conjI imageI) auto
  then show ?thesis by simp
qed

lemma Create_Inr:
  "os_Create D p s = (Inr u, s') \<Longrightarrow>
     place D p \<notin> os_dirs s \<and> s' = s\<lparr>os_files := (os_files s)(place D p \<mapsto> [])\<rparr>"
  by (auto simp: os_Create_def split: option.splits if_splits)

lemma WriteFile_Inr:
  assumes "os_WriteFile D p b s = (Inr u, s')"
  shows "s' = s\<lparr>os_files := (os_files s)(place D p \<mapsto> b)\<rparr>" and "place D p \<notin> os_dirs s"
    and "open_fault D p = None"
proof -
  obtain u' t where "os_Create D p s = (Inr u', t)" and a: "os_Append D p b t = (Inr u, s')"
    using assms by (auto simp: os_WriteFile_def elim: bindE_InrE)
  from this(1) have t: "place D p \<notin> os_dirs s \<and> t = s\<lparr>os_files := (os_files s)(place D p \<mapsto> [])\<rparr>"
      and "open_fault D p = None"
    by (auto dest: Create_Inr) (auto simp: os_Create_def split: option.splits)
  then show "s' = s\<lparr>os_files := (os_files s)(place D p \<mapsto> b)\<rparr>" "place D p \<notin> os_dirs s" "open_fault D p = None"
    using a by (auto simp: os_Append_def split: option.splits)
qed

text \<open>What has been written is read; a write that fails leaves a part of the new content.\<close>

lemma ReadFile_WriteFile:
  assumes "os_WriteFile D p b s = (Inr u, s')"
  shows "os_ReadFile D p s' = (Inr b, s')"
  using WriteFile_Inr [OF assms] by (simp add: os_ReadFile_def)

lemma WriteFile_torn:
  assumes "os_Create D p s = (Inr u, t)" and "write_fault D p b = Some (n, e)"
  shows "os_WriteFile D p b s = (Inl e, s\<lparr>os_files := (os_files s)(place D p \<mapsto> take n b)\<rparr>)"
  using assms Create_Inr [OF assms(1)] by (simp add: os_WriteFile_def run_bind os_Append_def)

lemma os_unchanged [simp]:
  "os_ReadFile D p s = (r, s') \<Longrightarrow> s' = s"
  by (auto simp: os_ReadFile_def split: option.splits if_splits)

text \<open>Making the directory of a file and writing the file, as the configuration package does.\<close>

lemma mkdir_write_Inr:
  assumes "bindE (os_MkdirAll D d) (\<lambda>_. os_WriteFile D p b) s = (Inr u, s')"
  shows "os_env s' = os_env s" and "os_files s' = (os_files s)(place D p \<mapsto> b)"
    and "os_dirs s' = os_dirs s \<union> set (map (place D) (ancestors d))"
    and "os_ReadFile D p s' = (Inr b, s')"
proof -
  obtain u' t where m: "os_MkdirAll D d s = (Inr u', t)" and w: "os_WriteFile D p b t = (Inr u, s')"
    using assms by (auto elim: bindE_InrE)
  from m have t: "t = s\<lparr>os_dirs := os_dirs s \<union> set (map (place D) (ancestors d))\<rparr>"
    by (auto simp: os_MkdirAll_def split: option.splits if_splits)
  from WriteFile_Inr [OF w] ReadFile_WriteFile [OF w]
  show "os_env s' = os_env s" "os_files s' = (os_files s)(place D p \<mapsto> b)"
    "os_dirs s' = os_dirs s \<union> set (map (place D) (ancestors d))" "os_ReadFile D p s' = (Inr b, s')"
    by (simp_all add: t)
qed

text \<open>A disk without links or faults, for examples.\<close>

definition plain_disk :: disk where
  "plain_disk = \<lparr>place = (\<lambda>p. p), stat_fault = (\<lambda>_. None), open_fault = (\<lambda>_. None),
     write_fault = (\<lambda>_ _. None), mkdir_fault = (\<lambda>_. None), remove_fault = (\<lambda>_. None)\<rparr>"

lemma plain_disk_simps [simp]:
  "place plain_disk p = p" "stat_fault plain_disk p = None" "open_fault plain_disk p = None"
  "write_fault plain_disk p b = None" "mkdir_fault plain_disk p = None" "remove_fault plain_disk p = None"
  by (simp_all add: plain_disk_def)

end
