(* ===== verification/Config.thy ===== *)
theory Config
  imports Codec Os
begin

text \<open>
  \<open>internal/client/config/config.go\<close>: the table of named servers kept in \<open>.hosts\<close>, and the
  session kept in \<open>.session\<close> (user name and password, base64 in a JSON object), both in the
  configuration directory.
\<close>

section \<open>Where the files are\<close>

definition config_env :: gostr where
  "config_env = lit ''SHARELOCK_CONFIG_DIR''"

definition hosts_primary :: "gostr \<Rightarrow> gostr" where
  "hosts_primary home = path_Join [home, lit ''.config'', lit ''sharelock'', lit ''.hosts'']"

definition configPath :: "disk \<Rightarrow> os \<Rightarrow> gostr" where
  "configPath D s =
     (let p = os_Getenv config_env s in
      if p \<noteq> [] then path_Join [p, lit ''.hosts'']
      else (case os_UserHomeDir s of
          Inl _ \<Rightarrow> lit ''.hosts''
        | Inr home \<Rightarrow>
            let primary = hosts_primary home in
            if os_Stat_ok D primary s then primary else path_Join [home, lit ''.hosts'']))"

definition session_primary :: "gostr \<Rightarrow> gostr" where
  "session_primary home = path_Join [home, lit ''.config'', lit ''sharelock'', lit ''.session'']"

definition sessionPath :: "disk \<Rightarrow> os \<Rightarrow> gostr" where
  "sessionPath D s =
     (let p = os_Getenv config_env s in
      if p \<noteq> [] then path_Join [p, lit ''.session'']
      else (case os_UserHomeDir s of
          Inl _ \<Rightarrow> lit ''.session''
        | Inr home \<Rightarrow>
            let primary = session_primary home in
            if os_Stat_ok D (path_Dir primary) s then primary else path_Join [home, lit ''.session'']))"

section \<open>The server table\<close>

record HostEntry =
  Addr :: gostr
  TLS :: bool

record Config =
  Hosts :: "(gostr, HostEntry) fmap"
  cfg_path :: gostr

fun dec_bool :: "bool decoder" where
  "dec_bool (JBool b) old = Some b"
| "dec_bool JNull old = Some old"
| "dec_bool _ old = None"

definition host_zero :: HostEntry where
  "host_zero = \<lparr>Addr = [], TLS = False\<rparr>"

definition enc_host :: "HostEntry \<Rightarrow> json" where
  "enc_host h = JObj [(lit ''Addr'', JStr (Addr h)), (lit ''TLS'', JBool (TLS h))]"

definition dec_host :: "HostEntry decoder" where
  "dec_host j old = dec_struct host_zero (\<lambda>fs.
     case (field ''Addr'' dec_string [] fs, field ''TLS'' dec_bool False fs) of
       (Some a, Some t) \<Rightarrow> Some \<lparr>Addr = a, TLS = t\<rparr> | _ \<Rightarrow> None) j"

text \<open>The anonymous structs of \<open>Load\<close> and \<open>Save\<close>, with one field \<open>hosts\<close>.\<close>

definition enc_hosts :: "(gostr, HostEntry) fmap \<Rightarrow> json" where
  "enc_hosts hs = JObj [(lit ''hosts'', enc_map enc_host (Some hs))]"

definition dec_hosts :: "json \<Rightarrow> (gostr, HostEntry) fmap option option" where
  "dec_hosts = dec_struct None (field ''hosts'' (dec_map host_zero dec_host) None)"

definition config_Load :: "disk \<Rightarrow> (os, Config) prog" where
  "config_Load D s =
     (let p = configPath D s in
      case os_ReadFile D p s of
        (Inl e, s') \<Rightarrow> if IsNotExist e then (Inr \<lparr>Hosts = fmempty, cfg_path = p\<rparr>, s') else (Inl e, s')
      | (Inr data, s') \<Rightarrow>
          (case unmarshal dec_hosts data of
             Inl e \<Rightarrow> (Inl e, s')
           | Inr raw \<Rightarrow>
               (Inr \<lparr>Hosts = (case raw of None \<Rightarrow> fmempty | Some hs \<Rightarrow> hs), cfg_path = p\<rparr>, s')))"

definition config_Save :: "disk \<Rightarrow> Config \<Rightarrow> (os, unit) prog" where
  "config_Save D c =
     bindE (os_MkdirAll D (path_Dir (cfg_path c))) (\<lambda>_.
     os_WriteFile D (cfg_path c) (json_indent 0 (enc_hosts (Hosts c))))"

definition config_Default :: "Config \<Rightarrow> gostr \<times> bool" where
  "config_Default c =
     (let h = (case fmlookup (Hosts c) (lit ''default'') of None \<Rightarrow> host_zero | Some h \<Rightarrow> h) in (Addr h, TLS h))"

definition config_Get :: "Config \<Rightarrow> gostr \<Rightarrow> HostEntry option" where
  "config_Get c name = fmlookup (Hosts c) name"

definition config_Set :: "gostr \<Rightarrow> gostr \<Rightarrow> bool \<Rightarrow> Config \<Rightarrow> Config" where
  "config_Set name addr tls c = c\<lparr>Hosts := fmupd name \<lparr>Addr = addr, TLS = tls\<rparr> (Hosts c)\<rparr>"

definition config_Remove :: "gostr \<Rightarrow> Config \<Rightarrow> Config" where
  "config_Remove name c = c\<lparr>Hosts := fmdrop name (Hosts c)\<rparr>"

definition config_List :: "Config \<Rightarrow> (gostr, HostEntry) fmap" where
  "config_List c = Hosts c"

section \<open>The session\<close>

record Session =
  sess_Username :: gostr
  sess_Password :: gostr

definition enc_session :: "Session \<Rightarrow> json" where
  "enc_session s = JObj [(lit ''username'', JStr (sess_Username s)), (lit ''password'', JStr (sess_Password s))]"

definition dec_session :: "json \<Rightarrow> Session option" where
  "dec_session = dec_struct \<lparr>sess_Username = [], sess_Password = []\<rparr> (\<lambda>fs.
     case (field ''username'' dec_string [] fs, field ''password'' dec_string [] fs) of
       (Some u, Some p) \<Rightarrow> Some \<lparr>sess_Username = u, sess_Password = p\<rparr> | _ \<Rightarrow> None)"

definition SaveSession :: "disk \<Rightarrow> gostr \<Rightarrow> gostr \<Rightarrow> (os, unit) prog" where
  "SaveSession D username password =
     bindE (gets (sessionPath D)) (\<lambda>p.
     bindE (os_MkdirAll D (path_Dir p)) (\<lambda>_.
     os_WriteFile D p (json_text (enc_session
       \<lparr>sess_Username = b64_encode username, sess_Password = b64_encode password\<rparr>))))"

text \<open>\<open>None\<close> is the result \<open>"", "", false\<close>.\<close>

definition LoadSession :: "disk \<Rightarrow> os \<Rightarrow> (gostr \<times> gostr) option" where
  "LoadSession D s =
     (case fst (os_ReadFile D (sessionPath D s) s) of
        Inl _ \<Rightarrow> None
      | Inr data \<Rightarrow>
          (case unmarshal dec_session data of
             Inl _ \<Rightarrow> None
           | Inr x \<Rightarrow>
               (case b64_decode (sess_Username x) of
                  None \<Rightarrow> None
                | Some u \<Rightarrow> (case b64_decode (sess_Password x) of None \<Rightarrow> None | Some pw \<Rightarrow> Some (u, pw)))))"

definition ClearSession :: "disk \<Rightarrow> (os, unit) prog" where
  "ClearSession D = bindE (gets (sessionPath D)) (os_Remove D)"

section \<open>Round trips\<close>

definition wf_hosts :: "(gostr, HostEntry) fmap \<Rightarrow> bool" where
  "wf_hosts hs \<longleftrightarrow> wf_map (\<lambda>h. utf8_valid (Addr h)) (Some hs)"

lemma dec_enc_host: "dec_host (enc_host h) z = Some h"
  by (simp add: dec_host_def enc_host_def dec_struct_def)

lemma hosts_roundtrip:
  assumes "wf_hosts hs"
  shows "unmarshal dec_hosts (json_indent 0 (enc_hosts hs)) = Inr (Some hs)"
proof -
  have "dec_map host_zero dec_host (enc_map enc_host (Some hs)) None = Some (Some hs)"
    using assms by (intro dec_enc_map) (simp_all add: wf_hosts_def dec_enc_host)
  then have "dec_hosts (enc_hosts hs) = Some (Some hs)"
    by (simp add: dec_hosts_def enc_hosts_def dec_struct_def)
  moreover have "wf_json (enc_map enc_host (Some hs))"
    using assms unfolding wf_hosts_def by (rule wf_enc_map) (simp add: enc_host_def)
  then have "wf_json (enc_hosts hs)"
    by (simp add: enc_hosts_def)
  ultimately show ?thesis
    by (simp add: unmarshal_def)
qed

lemma session_fields [simp]:
  "fold_name (lit ''password'') \<noteq> fold_name (lit ''username'')"
  "fold_name (lit ''username'') \<noteq> fold_name (lit ''password'')"
  by (simp_all add: fold_name_def lit_def lower_byte_def)

lemma session_text_roundtrip:
  "unmarshal dec_session (json_text (enc_session \<lparr>sess_Username = b64_encode u, sess_Password = b64_encode p\<rparr>)) =
    Inr \<lparr>sess_Username = b64_encode u, sess_Password = b64_encode p\<rparr>"
proof -
  have "dec_session (enc_session x) = Some x" for x
    by (simp add: enc_session_def dec_session_def dec_struct_def)
  moreover have "wf_json (enc_session \<lparr>sess_Username = b64_encode u, sess_Password = b64_encode p\<rparr>)"
    by (simp add: enc_session_def)
  ultimately show ?thesis
    by (simp add: unmarshal_text del: json_text.simps)
qed

text \<open>
  The files stay where they are when they are written: the choice of the directory depends on
  the environment and on whether \<open>~/.config/sharelock\<close> exists. \<open>settled D q p s\<close>: creating the
  file \<open>p\<close> in its directory does not create \<open>q\<close>.
\<close>

definition settled :: "disk \<Rightarrow> gostr \<Rightarrow> gostr \<Rightarrow> os \<Rightarrow> bool" where
  "settled D q p s \<longleftrightarrow> os_Stat_ok D q s \<or> place D q \<notin> place D ` insert p (set (ancestors (path_Dir p)))"

lemma Stat_ok_settled:
  assumes "settled D q p s"
    and "os_files s' = (os_files s)(place D p \<mapsto> b)"
    and "os_dirs s' = os_dirs s \<union> set (map (place D) (ancestors (path_Dir p)))"
  shows "os_Stat_ok D q s' = os_Stat_ok D q s"
  using assms by (auto simp: settled_def os_Stat_ok_def)

lemma sessionPath_stable:
  assumes "os_env s' = os_env s"
    and "\<And>home. os_UserHomeDir s = Inr home \<Longrightarrow>
      os_Stat_ok D (path_Dir (session_primary home)) s' = os_Stat_ok D (path_Dir (session_primary home)) s"
  shows "sessionPath D s' = sessionPath D s"
  using assms by (simp add: sessionPath_def Let_def os_Getenv_def os_UserHomeDir_def split: sum.split)

lemma configPath_stable:
  assumes "os_env s' = os_env s"
    and "\<And>home. os_UserHomeDir s = Inr home \<Longrightarrow>
      os_Stat_ok D (hosts_primary home) s' = os_Stat_ok D (hosts_primary home) s"
  shows "configPath D s' = configPath D s"
  using assms by (simp add: configPath_def Let_def os_Getenv_def os_UserHomeDir_def split: sum.split)

lemma Load_Save:
  assumes "config_Save D c s = (Inr u, s')" and "wf_hosts (Hosts c)" and "cfg_path c = configPath D s"
    and "\<And>home. os_UserHomeDir s = Inr home \<Longrightarrow> settled D (hosts_primary home) (configPath D s) s"
  shows "config_Load D s' = (Inr c, s')"
proof -
  note w = mkdir_write_Inr [OF assms(1) [unfolded config_Save_def]]
  have p: "configPath D s' = configPath D s"
    using assms(4) w(1-3) by (intro configPath_stable Stat_ok_settled) (simp_all add: assms(3))
  show ?thesis
    using w(4) assms(3) hosts_roundtrip [OF assms(2)] by (simp add: config_Load_def Let_def p)
qed

lemma LoadSession_SaveSession:
  assumes "SaveSession D u pw s = (Inr x, s')"
    and "\<And>home. os_UserHomeDir s = Inr home \<Longrightarrow> settled D (path_Dir (session_primary home)) (sessionPath D s) s"
  shows "LoadSession D s' = Some (u, pw)"
proof -
  have "bindE (os_MkdirAll D (path_Dir (sessionPath D s))) (\<lambda>_. os_WriteFile D (sessionPath D s)
      (json_text (enc_session \<lparr>sess_Username = b64_encode u, sess_Password = b64_encode pw\<rparr>))) s = (Inr x, s')"
    using assms(1) by (simp add: SaveSession_def run_bind)
  note w = mkdir_write_Inr [OF this]
  have "sessionPath D s' = sessionPath D s"
    using assms(2) w(1-3) by (intro sessionPath_stable Stat_ok_settled) simp_all
  then show ?thesis
    using w(4) by (simp add: LoadSession_def session_text_roundtrip)
qed

lemma LoadSession_ClearSession:
  assumes "ClearSession D s = (Inr x, s')"
    and "\<And>home. os_UserHomeDir s = Inr home \<Longrightarrow>
      place D (path_Dir (session_primary home)) \<noteq> place D (sessionPath D s)"
  shows "LoadSession D s' = None"
proof -
  have s': "s' = s\<lparr>os_files := (os_files s)(place D (sessionPath D s) := None)\<rparr>"
    using assms(1) by (auto simp: ClearSession_def run_bind os_Remove_def split: option.splits if_splits)
  have "sessionPath D s' = sessionPath D s"
    using assms(2) by (intro sessionPath_stable) (auto simp: s' os_Stat_ok_def)
  then show ?thesis
    by (auto simp: LoadSession_def os_ReadFile_def s' split: option.split)
qed

section \<open>Properties\<close>

text \<open>C33. The session file: any user name and password, whatever bytes they are, come back from it exactly as
  they were saved, until \<open>ClearSession\<close>, after which nobody is logged in.\<close>

theorem saved_session_is_loaded:
  assumes "SaveSession D u pw s = (Inr x, s')" and "ClearSession D s' = (Inr y, s'')"
    and "\<And>home. os_UserHomeDir s = Inr home \<Longrightarrow> settled D (path_Dir (session_primary home)) (sessionPath D s) s"
    and "\<And>home. os_UserHomeDir s' = Inr home \<Longrightarrow>
      place D (path_Dir (session_primary home)) \<noteq> place D (sessionPath D s')"
  shows "LoadSession D s' = Some (u, pw) \<and> LoadSession D s'' = None"
  using LoadSession_SaveSession [OF assms(1,3)] LoadSession_ClearSession [OF assms(2,4)] by simp

definition bare_os :: os where
  "bare_os = \<lparr>os_env = Map.empty, os_files = Map.empty, os_dirs = {dot}\<rparr>"

theorem saved_session_is_loaded_witness:
  "\<exists>s' s''. SaveSession plain_disk [255] [0, 10] bare_os = (Inr (), s') \<and> LoadSession plain_disk s' = Some ([255], [0, 10]) \<and>
    ClearSession plain_disk s' = (Inr (), s'') \<and> LoadSession plain_disk s'' = None"
proof -
  have path: "sessionPath plain_disk s = lit ''.session''" if "os_env s = Map.empty" for s
    using that by (simp add: sessionPath_def os_Getenv_def os_UserHomeDir_def Let_def)
  have dir: "path_Dir (lit ''.session'') = dot" "ancestors dot = [dot]" "lit ''.session'' \<noteq> dot"
    by (simp_all add: path_Dir_def path_Clean_def lit_def ancestors_def)
  obtain s' where save: "SaveSession plain_disk [255] [0, 10] bare_os = (Inr (), s')" and env: "os_env s' = Map.empty"
      and written: "os_files s' (lit ''.session'') \<noteq> None"
    using dir path [of bare_os]
    by (simp add: SaveSession_def run_bind os_MkdirAll_def os_WriteFile_def os_Create_def os_Append_def bare_os_def Let_def)
  obtain s'' where clear: "ClearSession plain_disk s' = (Inr (), s'')"
    using path [OF env] written by (simp add: ClearSession_def run_bind os_Remove_def)
  have home: "os_UserHomeDir s \<noteq> Inr h" if "os_env s = Map.empty" for s h
    using that by (simp add: os_UserHomeDir_def os_Getenv_def)
  have "os_env bare_os = Map.empty" by (simp add: bare_os_def)
  with saved_session_is_loaded [OF save clear] home env save clear show ?thesis by simp
qed

end
