(* ===== verification/Flags.thy ===== *)
theory Flags
  imports Prelude
begin

text \<open>
  The part of Go's package \<open>flag\<close> both programs use: a flag set with string and boolean flags,
  parsed with \<open>ExitOnError\<close>, and \<open>strconv.ParseBool\<close>.
\<close>

datatype flag_kind = StringFlag | BoolFlag

datatype flag_value = FStr gostr | FBool bool

type_synonym flag_set = "(gostr \<times> flag_kind) list"

text \<open>The values assigned, in the order of the arguments, and the arguments left over.\<close>

type_synonym assignments = "(gostr \<times> flag_value) list"

datatype parse_result =
    Parsed assignments "gostr list"
  | FlagHelp
  | FlagError string gostr

definition ParseBool :: "gostr \<Rightarrow> bool option" where
  "ParseBool s =
     (if s \<in> set (map lit [''1'', ''t'', ''T'', ''TRUE'', ''true'', ''True'']) then Some True
      else if s \<in> set (map lit [''0'', ''f'', ''F'', ''FALSE'', ''false'', ''False'']) then Some False
      else None)"

abbreviation minus_sign :: byte where "minus_sign \<equiv> 45"

abbreviation equals_sign :: byte where "equals_sign \<equiv> 61"

text \<open>An argument as a flag: the name and the value after the first \<open>=\<close>, if there is one.\<close>

definition flag_parts :: "gostr \<Rightarrow> (gostr \<times> gostr option) option" where
  "flag_parts s =
     (let name = (if s ! 1 = minus_sign then drop 2 s else drop 1 s) in
      if name = [] \<or> hd name = minus_sign \<or> hd name = equals_sign then None
      else
        let n = takeWhile (\<lambda>b. b \<noteq> equals_sign) name in
        Some (n, if equals_sign \<in> set name then Some (drop (Suc (length n)) name) else None))"

fun parse_flags :: "flag_set \<Rightarrow> gostr list \<Rightarrow> assignments \<Rightarrow> parse_result" where
  "parse_flags fs [] acc = Parsed acc []"
| "parse_flags fs (s # args) acc =
     (if length s < 2 \<or> hd s \<noteq> minus_sign then Parsed acc (s # args)
      else if s = [minus_sign, minus_sign] then Parsed acc args
      else
        (case flag_parts s of
           None \<Rightarrow> FlagError ''bad flag syntax'' s
         | Some (name, val) \<Rightarrow>
             (case map_of fs name of
                None \<Rightarrow>
                  if name = lit ''help'' \<or> name = lit ''h'' then FlagHelp
                  else FlagError ''flag provided but not defined'' name
              | Some BoolFlag \<Rightarrow>
                  (case val of
                     None \<Rightarrow> parse_flags fs args (acc @ [(name, FBool True)])
                   | Some v \<Rightarrow>
                       (case ParseBool v of
                          None \<Rightarrow> FlagError ''invalid boolean value'' name
                        | Some b \<Rightarrow> parse_flags fs args (acc @ [(name, FBool b)])))
              | Some StringFlag \<Rightarrow>
                  (case val of
                     Some v \<Rightarrow> parse_flags fs args (acc @ [(name, FStr v)])
                   | None \<Rightarrow>
                       (case args of
                          [] \<Rightarrow> FlagError ''flag needs an argument'' name
                        | v # args' \<Rightarrow> parse_flags fs args' (acc @ [(name, FStr v)]))))))"

text \<open>The value of a flag after parsing: the last one assigned, or the default.\<close>

definition string_flag :: "assignments \<Rightarrow> string \<Rightarrow> gostr \<Rightarrow> gostr" where
  "string_flag acc name d = (case map_of (rev acc) (lit name) of Some (FStr v) \<Rightarrow> v | _ \<Rightarrow> d)"

definition bool_flag :: "assignments \<Rightarrow> string \<Rightarrow> bool \<Rightarrow> bool" where
  "bool_flag acc name d = (case map_of (rev acc) (lit name) of Some (FBool b) \<Rightarrow> b | _ \<Rightarrow> d)"

text \<open>\<open>fs.Parse(args)\<close> with \<open>ExitOnError\<close>.\<close>

definition flag_Parse :: "flag_set \<Rightarrow> gostr list \<Rightarrow> ('s, assignments) prog" where
  "flag_Parse fs args =
     (case parse_flags fs args [] of
        Parsed acc rest \<Rightarrow> ret acc
      | FlagHelp \<Rightarrow> throw (Exit 0)
      | FlagError m n \<Rightarrow> throw (Exit 2))"

section \<open>Parsing\<close>

text \<open>The spellings \<open>-name=v\<close>, \<open>--name=v\<close>, \<open>-name v\<close> and \<open>--name v\<close> are the same.\<close>

lemma takeWhile_all: "equals_sign \<notin> set n \<Longrightarrow> takeWhile (\<lambda>b. b \<noteq> equals_sign) n = n"
  by (auto simp: takeWhile_eq_all_conv)

lemma flag_parts_spelled:
  assumes "n \<noteq> []" and "hd n \<noteq> minus_sign" and "equals_sign \<notin> set n"
  shows "flag_parts (minus_sign # n @ equals_sign # v) = Some (n, Some v)"
    and "flag_parts (minus_sign # minus_sign # n @ equals_sign # v) = Some (n, Some v)"
    and "flag_parts (minus_sign # n) = Some (n, None)"
    and "flag_parts (minus_sign # minus_sign # n) = Some (n, None)"
proof -
  have h: "hd n \<noteq> equals_sign" "hd (n @ t) = hd n" "(n @ t) ! 0 = hd n" "n ! 0 = hd n" for t
    using assms(1,3) by (auto simp: hd_conv_nth nth_append in_set_conv_nth)
  then show "flag_parts (minus_sign # n @ equals_sign # v) = Some (n, Some v)"
    "flag_parts (minus_sign # minus_sign # n @ equals_sign # v) = Some (n, Some v)"
    "flag_parts (minus_sign # n) = Some (n, None)"
    "flag_parts (minus_sign # minus_sign # n) = Some (n, None)"
    using assms by (auto simp: flag_parts_def takeWhile_all)
qed

lemma string_flag_append:
  "string_flag (acc @ [(lit n, FStr v)]) m d = (if n = m then v else string_flag acc m d)"
  by (simp add: string_flag_def)

lemma string_flag_bool:
  "n \<noteq> m \<Longrightarrow> string_flag (acc @ [(lit n, FBool v)]) m d = string_flag acc m d"
  by (simp add: string_flag_def)

lemma bool_flag_append:
  "bool_flag (acc @ [(lit n, FBool v)]) m d = (if n = m then v else bool_flag acc m d)"
  "n \<noteq> m \<Longrightarrow> bool_flag (acc @ [(lit n, FStr w)]) m d = bool_flag acc m d"
  by (simp_all add: bool_flag_def)

lemma flags_Nil [simp]: "string_flag [] m d = d" "bool_flag [] m b = b"
  by (simp_all add: string_flag_def bool_flag_def)

end
