(* ===== verification/ServerConfig.thy ===== *)
theory ServerConfig
  imports Flags Os
begin

text \<open>
  The server program: its configuration (\<open>cmd/sharelock-server/config.go\<close>), the checks of its
  \<open>main\<close>, and the start of the server in \<open>internal/server/server.go\<close> up to the accept loop.
  \<open>godotenv\<close>, the database files, the certificates and the listening socket are parameters.
\<close>

section \<open>Configuration\<close>

record options =
  opt_addr :: gostr
  opt_dir :: gostr
  opt_cert :: gostr
  opt_key :: gostr
  opt_tlsEnabled :: bool

definition getenv :: "string \<Rightarrow> gostr \<Rightarrow> os \<Rightarrow> gostr" where
  "getenv key d s = (let v = os_Getenv (lit key) s in if v \<noteq> [] then v else d)"

text \<open>\<open>log.Fatalf\<close> exits with status 1.\<close>

definition getBoolEnv :: "string \<Rightarrow> bool \<Rightarrow> (os, bool) prog" where
  "getBoolEnv key d s =
     (let v = os_Getenv (lit key) s in
      if v = [] then (Inr d, s)
      else (case ParseBool v of None \<Rightarrow> (Inl (Exit 1), s) | Some b \<Rightarrow> (Inr b, s)))"

fun env_scan :: "gostr list \<Rightarrow> gostr \<Rightarrow> gostr" where
  "env_scan [] path = path"
| "env_scan (a # args) path =
     (if take 5 a = lit ''-env='' then drop 5 a
      else if (a = lit ''-env'' \<or> a = lit ''--env'') \<and> args \<noteq> [] then hd args
      else env_scan args path)"

definition envFilePath :: "gostr list \<Rightarrow> os \<Rightarrow> gostr" where
  "envFilePath args s = env_scan args (getenv ''SHARELOCK_ENV_FILE'' (lit ''.env'') s)"

text \<open>\<open>godotenv.Load\<close>: it sets variables from a file and leaves those alone that are set.\<close>

type_synonym godotenv = "gostr \<Rightarrow> (os, unit) prog"

definition godotenv_ok :: "godotenv \<Rightarrow> bool" where
  "godotenv_ok G \<longleftrightarrow> (\<forall>p s r s' k v. G p s = (r, s') \<longrightarrow> os_env s k = Some v \<longrightarrow> os_env s' k = Some v)"

definition loadDotEnv :: "godotenv \<Rightarrow> gostr \<Rightarrow> (os, unit) prog" where
  "loadDotEnv G path s =
     (if path = [] then (Inr (), s)
      else (case G path s of
          (Inr u, s') \<Rightarrow> (Inr (), s')
        | (Inl e, s') \<Rightarrow> if IsNotExist e then (Inr (), s') else (Inl (Exit 1), s')))"

definition server_flags :: flag_set where
  "server_flags =
     [(lit ''address'', StringFlag), (lit ''dir'', StringFlag), (lit ''cert'', StringFlag),
      (lit ''key'', StringFlag), (lit ''tls'', BoolFlag), (lit ''env'', StringFlag)]"

definition loadConfig :: "godotenv \<Rightarrow> gostr list \<Rightarrow> (os, options) prog" where
  "loadConfig G args =
     bindE (gets (envFilePath args)) (\<lambda>path.
     bindE (loadDotEnv G path) (\<lambda>_.
     bindE (gets (getenv ''SHARELOCK_ADDRESS'' (lit ''localhost:8080''))) (\<lambda>addr.
     bindE (gets (getenv ''SHARELOCK_DIR'' (lit ''./data''))) (\<lambda>dir.
     bindE (gets (getenv ''SHARELOCK_CERT'' [])) (\<lambda>cert.
     bindE (gets (getenv ''SHARELOCK_KEY'' [])) (\<lambda>key.
     bindE (getBoolEnv ''SHARELOCK_TLS'' True) (\<lambda>tlsEnabled.
     bindE (flag_Parse server_flags args) (\<lambda>acc.
     ret \<lparr>opt_addr = string_flag acc ''address'' addr, opt_dir = string_flag acc ''dir'' dir,
          opt_cert = string_flag acc ''cert'' cert, opt_key = string_flag acc ''key'' key,
          opt_tlsEnabled = bool_flag acc ''tls'' tlsEnabled\<rparr>))))))))"

section \<open>Starting\<close>

record server_config =
  sc_Addr :: gostr
  sc_DataDir :: gostr
  sc_Cert :: gostr
  sc_Key :: gostr
  sc_TLSEnabled :: bool

text \<open>What the start needs from outside: \<open>None\<close> is success.\<close>

record server_env =
  badger_Open :: "gostr \<Rightarrow> err option"
  badger_Close :: "gostr \<Rightarrow> err option"
  LoadX509KeyPair :: "gostr \<Rightarrow> gostr \<Rightarrow> err option"
  net_Listen :: "bool \<Rightarrow> gostr \<Rightarrow> err option"

text \<open>The process: \<open>sw_open\<close> are the directories of the databases that are open and not yet closed.\<close>

record server_world =
  sw_os :: os
  sw_open :: "gostr list"

definition on_server_os :: "(os, 'a) prog \<Rightarrow> (server_world, 'a) prog" where
  "on_server_os m w = (case m (sw_os w) of (r, s) \<Rightarrow> (r, w\<lparr>sw_os := s\<rparr>))"

definition try_open :: "err option \<Rightarrow> ('s, unit) prog" where
  "try_open r = (case r of None \<Rightarrow> ret () | Some e \<Rightarrow> throw e)"

text \<open>\<open>store.Open\<close> and \<open>Close\<close>; the handle of an open database is its directory.\<close>

record Options =
  Options_Dir :: gostr

record Store =
  Store_db :: gostr

definition Store_Open :: "server_env \<Rightarrow> Options \<Rightarrow> (server_world, Store) prog" where
  "Store_Open E opts =
     bindE (try_open (badger_Open E (Options_Dir opts))) (\<lambda>_.
     bindE (modify (\<lambda>w. w\<lparr>sw_open := Options_Dir opts # sw_open w\<rparr>)) (\<lambda>_.
     ret \<lparr>Store_db = Options_Dir opts\<rparr>))"

definition Store_Close :: "server_env \<Rightarrow> Store \<Rightarrow> (server_world, unit) prog" where
  "Store_Close E st =
     bindE (modify (\<lambda>w. w\<lparr>sw_open := remove1 (Store_db st) (sw_open w)\<rparr>)) (\<lambda>_.
     try_open (badger_Close E (Store_db st)))"

record Handler =
  Handler_store :: Store

definition handler_New :: "Store \<Rightarrow> Handler" where
  "handler_New s = \<lparr>Handler_store = s\<rparr>"

record ServerObject =
  srv_store :: Store
  srv_handler :: Handler
  srv_config :: server_config

definition server_New :: "server_env \<Rightarrow> server_config \<Rightarrow> (server_world, ServerObject) prog" where
  "server_New E cfg =
     bindE (Store_Open E \<lparr>Options_Dir = sc_DataDir cfg\<rparr>) (\<lambda>s.
     ret \<lparr>srv_store = s, srv_handler = handler_New s, srv_config = cfg\<rparr>)"

text \<open>
  \<open>Run\<close> until the accept loop, whose configuration is the value; the loop itself never returns and
  is in \<open>Concurrency\<close>. An earlier return runs the deferred \<open>Close\<close>, whose error is dropped.
\<close>

definition server_listen :: "server_env \<Rightarrow> server_config \<Rightarrow> (server_world, unit) prog" where
  "server_listen E cfg =
     (if sc_TLSEnabled cfg
      then bindE (try_open (LoadX509KeyPair E (sc_Cert cfg) (sc_Key cfg))) (\<lambda>_.
           try_open (net_Listen E True (sc_Addr cfg)))
      else try_open (net_Listen E False (sc_Addr cfg)))"

definition server_Run :: "server_env \<Rightarrow> ServerObject \<Rightarrow> (server_world, server_config) prog" where
  "server_Run E srv w =
     (case server_listen E (srv_config srv) w of
        (Inl e, w') \<Rightarrow> (Inl e, snd (Store_Close E (srv_store srv) w'))
      | (Inr _, w') \<Rightarrow> (Inr (srv_config srv), w'))"

text \<open>Every \<open>log.Fatal\<close> of \<open>main\<close> exits with status 1.\<close>

definition fatal :: "('s, 'a) prog \<Rightarrow> ('s, 'a) prog" where
  "fatal m s = (case m s of (Inl e, s') \<Rightarrow> (Inl (Exit 1), s') | (Inr x, s') \<Rightarrow> (Inr x, s'))"

definition server_main :: "godotenv \<Rightarrow> server_env \<Rightarrow> gostr list \<Rightarrow> (server_world, server_config) prog" where
  "server_main G E args =
     bindE (on_server_os (loadConfig G args)) (\<lambda>cfg.
     bindE (guardE (\<not> (opt_tlsEnabled cfg \<and> (opt_cert cfg = [] \<or> opt_key cfg = []))) (Exit 1)) (\<lambda>_.
     bindE (fatal (server_New E \<lparr>sc_Addr = opt_addr cfg, sc_DataDir = opt_dir cfg, sc_Cert = opt_cert cfg,
       sc_Key = opt_key cfg, sc_TLSEnabled = opt_tlsEnabled cfg\<rparr>)) (\<lambda>srv.
     fatal (server_Run E srv))))"

lemma run_try_open [run_simps]: "try_open r s = (case r of None \<Rightarrow> (Inr (), s) | Some e \<Rightarrow> (Inl e, s))"
  by (simp add: try_open_def split: option.split)

lemma run_server_New:
  "server_New E cfg w =
     (case badger_Open E (sc_DataDir cfg) of
        Some e \<Rightarrow> (Inl e, w)
      | None \<Rightarrow> (Inr \<lparr>srv_store = \<lparr>Store_db = sc_DataDir cfg\<rparr>, srv_handler = \<lparr>Handler_store = \<lparr>Store_db = sc_DataDir cfg\<rparr>\<rparr>,
            srv_config = cfg\<rparr>, w\<lparr>sw_open := sc_DataDir cfg # sw_open w\<rparr>))"
  by (simp add: server_New_def Store_Open_def handler_New_def run_bind run_try_open split: option.split)

lemma server_listen_state: "server_listen E cfg w = (r, w') \<Longrightarrow> w' = w"
  by (auto simp: server_listen_def run_bind run_try_open split: if_splits option.splits)

lemma server_listen_Inr:
  "server_listen E cfg w = (Inr u, w') \<longleftrightarrow> w' = w \<and> net_Listen E (sc_TLSEnabled cfg) (sc_Addr cfg) = None \<and>
     (sc_TLSEnabled cfg \<longrightarrow> LoadX509KeyPair E (sc_Cert cfg) (sc_Key cfg) = None)"
  by (auto simp: server_listen_def run_bind run_try_open split: option.splits)

text \<open>Opening the database and listening: when the second fails the first is undone.\<close>

lemma open_and_listen:
  assumes "bindE (fatal (server_New E cfg)) (\<lambda>srv. fatal (server_Run E srv)) w = (r, w')"
  shows "(case r of
      Inl e \<Rightarrow> e = Exit 1 \<and> w' = w
    | Inr c \<Rightarrow> c = cfg \<and> w' = w\<lparr>sw_open := sc_DataDir cfg # sw_open w\<rparr> \<and> badger_Open E (sc_DataDir cfg) = None \<and>
        net_Listen E (sc_TLSEnabled cfg) (sc_Addr cfg) = None \<and>
        (sc_TLSEnabled cfg \<longrightarrow> LoadX509KeyPair E (sc_Cert cfg) (sc_Key cfg) = None))"
proof (cases "badger_Open E (sc_DataDir cfg)")
  case None
  let ?w = "w\<lparr>sw_open := sc_DataDir cfg # sw_open w\<rparr>"
  obtain q w1 where l: "server_listen E cfg ?w = (q, w1)" by fastforce
  note state = server_listen_state [OF l]
  show ?thesis
  proof (cases q)
    case (Inl e)
    have close: "snd (Store_Close E \<lparr>Store_db = sc_DataDir cfg\<rparr> ?w) = w"
      by (simp add: Store_Close_def run_bind run_try_open split: option.split)
    show ?thesis
      using assms l state Inl close
      by (auto simp: run_bind fatal_def run_server_New None server_Run_def)
  next
    case (Inr u)
    with l state server_listen_Inr [of E cfg ?w u w1] assms show ?thesis
      by (auto simp: run_bind fatal_def run_server_New None server_Run_def)
  qed
qed (use assms in \<open>auto simp: run_bind fatal_def run_server_New\<close>)

section \<open>Where a setting comes from\<close>

lemma loadDotEnv_keeps:
  assumes "godotenv_ok G" and "loadDotEnv G p s = (r, s')" and "os_env s k = Some v"
  shows "os_env s' k = Some v"
  using assms unfolding godotenv_ok_def loadDotEnv_def
  by (auto split: if_splits prod.splits sum.splits)

text \<open>The documented order, for a setting with a flag value, a variable and a default.\<close>

definition setting :: "gostr option \<Rightarrow> string \<Rightarrow> gostr \<Rightarrow> os \<Rightarrow> os \<Rightarrow> gostr" where
  "setting flag key d s s' =
     (case flag of
        Some v \<Rightarrow> v
      | None \<Rightarrow>
          if os_Getenv (lit key) s \<noteq> [] then os_Getenv (lit key) s
          else if os_env s (lit key) = None \<and> os_Getenv (lit key) s' \<noteq> [] then os_Getenv (lit key) s' else d)"

definition given :: "assignments \<Rightarrow> string \<Rightarrow> gostr option" where
  "given acc name = (case map_of (rev acc) (lit name) of Some (FStr v) \<Rightarrow> Some v | _ \<Rightarrow> None)"

lemma string_flag_given: "string_flag acc n d = (case given acc n of None \<Rightarrow> d | Some v \<Rightarrow> v)"
  by (auto simp: string_flag_def given_def split: option.split flag_value.split)

lemma getenv_setting:
  assumes "\<And>v. os_env s (lit key) = Some v \<Longrightarrow> os_env s' (lit key) = Some v"
  shows "(case flag of None \<Rightarrow> getenv key d s' | Some v \<Rightarrow> v) = setting flag key d s s'"
  using assms
  by (auto simp: setting_def getenv_def Let_def os_Getenv_def split: option.split)

lemma getBoolEnv_state: "getBoolEnv k d s = (r, s') \<Longrightarrow> s' = s"
  by (auto simp: getBoolEnv_def Let_def split: if_splits option.splits)

lemma flag_Parse_Inr:
  "flag_Parse fs args s = (Inr acc, s') \<longleftrightarrow> s' = s \<and> (\<exists>rest. parse_flags fs args [] = Parsed acc rest)"
  by (auto simp: flag_Parse_def split: parse_result.splits)

lemma loadConfig_Inr:
  assumes "loadConfig G args s = (Inr opts, s')"
  obtains acc rest b where "parse_flags server_flags args [] = Parsed acc rest"
    and "loadDotEnv G (envFilePath args s) s = (Inr (), s')"
    and "getBoolEnv ''SHARELOCK_TLS'' True s' = (Inr b, s')"
    and "opts = \<lparr>opt_addr = string_flag acc ''address'' (getenv ''SHARELOCK_ADDRESS'' (lit ''localhost:8080'') s'),
      opt_dir = string_flag acc ''dir'' (getenv ''SHARELOCK_DIR'' (lit ''./data'') s'),
      opt_cert = string_flag acc ''cert'' (getenv ''SHARELOCK_CERT'' [] s'),
      opt_key = string_flag acc ''key'' (getenv ''SHARELOCK_KEY'' [] s'),
      opt_tlsEnabled = bool_flag acc ''tls'' b\<rparr>"
proof -
  obtain s1 b s2 acc where l: "loadDotEnv G (envFilePath args s) s = (Inr (), s1)"
      and b: "getBoolEnv ''SHARELOCK_TLS'' True s1 = (Inr b, s2)"
      and f: "flag_Parse server_flags args s2 = (Inr acc, s')"
      and o: "opts = \<lparr>opt_addr = string_flag acc ''address'' (getenv ''SHARELOCK_ADDRESS'' (lit ''localhost:8080'') s1),
      opt_dir = string_flag acc ''dir'' (getenv ''SHARELOCK_DIR'' (lit ''./data'') s1),
      opt_cert = string_flag acc ''cert'' (getenv ''SHARELOCK_CERT'' [] s1),
      opt_key = string_flag acc ''key'' (getenv ''SHARELOCK_KEY'' [] s1),
      opt_tlsEnabled = bool_flag acc ''tls'' b\<rparr>"
    using assms by (auto simp: loadConfig_def bindE_Inr_iff)
  have "s2 = s1" "s' = s1" using getBoolEnv_state [OF b] f by (auto simp: flag_Parse_Inr)
  moreover obtain rest where "parse_flags server_flags args [] = Parsed acc rest"
    using f by (auto simp: flag_Parse_Inr)
  ultimately show thesis
    using l b o by (intro that) simp_all
qed

lemma loadConfig_run:
  assumes "parse_flags server_flags args [] = Parsed acc rest"
    and "loadDotEnv G (envFilePath args s) s = (Inr u, s')"
    and "getBoolEnv ''SHARELOCK_TLS'' True s' = (Inr b, s')"
  shows "loadConfig G args s = (Inr
     \<lparr>opt_addr = string_flag acc ''address'' (getenv ''SHARELOCK_ADDRESS'' (lit ''localhost:8080'') s'),
      opt_dir = string_flag acc ''dir'' (getenv ''SHARELOCK_DIR'' (lit ''./data'') s'),
      opt_cert = string_flag acc ''cert'' (getenv ''SHARELOCK_CERT'' [] s'),
      opt_key = string_flag acc ''key'' (getenv ''SHARELOCK_KEY'' [] s'),
      opt_tlsEnabled = bool_flag acc ''tls'' b\<rparr>, s')"
proof -
  have "flag_Parse server_flags args s' = (Inr acc, s')"
    using assms(1) by (simp add: flag_Parse_Inr)
  with assms(2,3) show ?thesis
    by (simp add: loadConfig_def run_bind)
qed

section \<open>Properties\<close>

text \<open>C31. The documented precedence: each setting is the command-line flag when given, else the variable of
  the process when set, else the one of the \<open>.env\<close> file, else the default; TLS is on unless a
  flag or a variable turns it off.\<close>

theorem settings_follow_precedence:
  assumes "godotenv_ok G" and "loadConfig G args s = (Inr opts, s')"
    and flags: "parse_flags server_flags args [] = Parsed acc rest"
  shows "opt_addr opts = setting (given acc ''address'') ''SHARELOCK_ADDRESS'' (lit ''localhost:8080'') s s' \<and>
    opt_dir opts = setting (given acc ''dir'') ''SHARELOCK_DIR'' (lit ''./data'') s s' \<and>
    opt_cert opts = setting (given acc ''cert'') ''SHARELOCK_CERT'' [] s s' \<and>
    opt_key opts = setting (given acc ''key'') ''SHARELOCK_KEY'' [] s s' \<and>
    (\<exists>b. opt_tlsEnabled opts = bool_flag acc ''tls'' b \<and>
      (case os_Getenv (lit ''SHARELOCK_TLS'') s' of [] \<Rightarrow> b | v \<Rightarrow> ParseBool v = Some b))"
proof -
  obtain acc' rest' b where c: "parse_flags server_flags args [] = Parsed acc' rest'"
      "loadDotEnv G (envFilePath args s) s = (Inr (), s')" "getBoolEnv ''SHARELOCK_TLS'' True s' = (Inr b, s')"
      "opts = \<lparr>opt_addr = string_flag acc' ''address'' (getenv ''SHARELOCK_ADDRESS'' (lit ''localhost:8080'') s'),
      opt_dir = string_flag acc' ''dir'' (getenv ''SHARELOCK_DIR'' (lit ''./data'') s'),
      opt_cert = string_flag acc' ''cert'' (getenv ''SHARELOCK_CERT'' [] s'),
      opt_key = string_flag acc' ''key'' (getenv ''SHARELOCK_KEY'' [] s'),
      opt_tlsEnabled = bool_flag acc' ''tls'' b\<rparr>"
    using assms(2) by (rule loadConfig_Inr)
  have acc: "acc' = acc" using c(1) flags by simp
  have keeps: "os_env s' k = Some v" if "os_env s k = Some v" for k v
    using loadDotEnv_keeps [OF assms(1) c(2) that] .
  have tls: "case os_Getenv (lit ''SHARELOCK_TLS'') s' of [] \<Rightarrow> b | v \<Rightarrow> ParseBool v = Some b"
    using c(3) by (auto simp: getBoolEnv_def Let_def split: if_splits option.splits list.split)
  show ?thesis
    using tls by (simp add: c(4) acc string_flag_given getenv_setting [OF keeps]) blast
qed

definition sample_godotenv :: godotenv where
  "sample_godotenv p s = (Inr (), s\<lparr>os_env := (\<lambda>k. case os_env s k of Some v \<Rightarrow> Some v
     | None \<Rightarrow> map_of [(lit ''SHARELOCK_DIR'', lit ''/srv''), (lit ''SHARELOCK_ADDRESS'', lit '':1'')] k)\<rparr>)"

definition sample_env :: os where
  "sample_env = \<lparr>os_env = [lit ''SHARELOCK_ADDRESS'' \<mapsto> lit '':2''], os_files = Map.empty, os_dirs = {}\<rparr>"

lemma sample_godotenv_ok: "godotenv_ok sample_godotenv"
  by (auto simp: godotenv_ok_def sample_godotenv_def)

theorem settings_follow_precedence_witness:
  "\<exists>opts s'. loadConfig sample_godotenv [lit ''-cert=c'', lit ''--tls=false''] sample_env = (Inr opts, s') \<and>
    opt_addr opts = lit '':2'' \<and> opt_dir opts = lit ''/srv'' \<and> opt_cert opts = lit ''c'' \<and> opt_key opts = [] \<and>
    \<not> opt_tlsEnabled opts"
proof -
  let ?acc = "[(lit ''cert'', FStr (lit ''c'')), (lit ''tls'', FBool False)]"
  have p: "parse_flags server_flags [lit ''-cert=c'', lit ''--tls=false''] [] = Parsed ?acc []"
    by code_simp
  obtain s' where dot: "loadDotEnv sample_godotenv (lit ''.env'') sample_env = (Inr (), s')"
      and s': "s' = snd (sample_godotenv [] sample_env)"
    by (simp add: loadDotEnv_def sample_godotenv_def lit_def)
  have path: "envFilePath [lit ''-cert=c'', lit ''--tls=false''] sample_env = lit ''.env''"
    by code_simp
  have tls: "getBoolEnv ''SHARELOCK_TLS'' True s' = (Inr True, s')"
    by (simp add: s' sample_godotenv_def sample_env_def getBoolEnv_def os_Getenv_def)
  obtain opts where run: "loadConfig sample_godotenv [lit ''-cert=c'', lit ''--tls=false''] sample_env = (Inr opts, s')"
    using loadConfig_run [OF p _ tls] dot path by simp
  from settings_follow_precedence [OF sample_godotenv_ok run p] run show ?thesis
    by (auto simp: s' setting_def given_def bool_flag_def sample_godotenv_def sample_env_def os_Getenv_def)
qed

text \<open>C32. The server reaches its accept loop only with an open database, and with TLS on only with a
  certificate and a key that load; what it then listens on is what was configured. When it ends
  before, no database it has opened stays open.\<close>

theorem server_starts_secured:
  assumes "server_main G E args w = (r, w')"
  shows "case r of
      Inl e \<Rightarrow> sw_open w' = sw_open w
    | Inr cfg \<Rightarrow>
        (\<exists>opts. loadConfig G args (sw_os w) = (Inr opts, sw_os w') \<and> sc_Addr cfg = opt_addr opts \<and>
          sc_TLSEnabled cfg = opt_tlsEnabled opts \<and> sc_DataDir cfg = opt_dir opts) \<and>
        badger_Open E (sc_DataDir cfg) = None \<and> sw_open w' = sc_DataDir cfg # sw_open w \<and>
        net_Listen E (sc_TLSEnabled cfg) (sc_Addr cfg) = None \<and>
        (\<not> sc_TLSEnabled cfg \<or> sc_Cert cfg \<noteq> [] \<and> sc_Key cfg \<noteq> [] \<and>
          LoadX509KeyPair E (sc_Cert cfg) (sc_Key cfg) = None)"
proof -
  obtain q s where c: "loadConfig G args (sw_os w) = (q, s)" by fastforce
  show ?thesis
  proof (cases q)
    case (Inl e)
    with assms c show ?thesis by (auto simp: server_main_def run_bind on_server_os_def)
  next
    case (Inr opts)
    let ?cfg = "\<lparr>sc_Addr = opt_addr opts, sc_DataDir = opt_dir opts, sc_Cert = opt_cert opts,
       sc_Key = opt_key opts, sc_TLSEnabled = opt_tlsEnabled opts\<rparr>"
    show ?thesis
    proof (cases "opt_tlsEnabled opts \<and> (opt_cert opts = [] \<or> opt_key opts = [])")
      case True
      with assms c Inr show ?thesis by (auto simp: server_main_def run_bind run_guard on_server_os_def)
    next
      case False
      with assms c Inr have "bindE (fatal (server_New E ?cfg)) (\<lambda>srv. fatal (server_Run E srv)) (w\<lparr>sw_os := s\<rparr>) = (r, w')"
        by (simp add: server_main_def run_bind [of "on_server_os m" for m] run_bind [of "guardE b e" for b e]
            run_guard on_server_os_def)
      from open_and_listen [OF this] c Inr False show ?thesis
        by (auto split: sum.splits)
    qed
  qed
qed

definition sample_server :: server_env where
  "sample_server = \<lparr>badger_Open = (\<lambda>_. None), badger_Close = (\<lambda>_. None), LoadX509KeyPair = (\<lambda>_ _. None),
     net_Listen = (\<lambda>_ _. None)\<rparr>"

theorem server_starts_secured_witness:
  "\<exists>cfg w. server_main sample_godotenv sample_server [lit ''-cert=c'', lit ''-key=k'']
      \<lparr>sw_os = sample_env, sw_open = []\<rparr> = (Inr cfg, w) \<and>
    sc_TLSEnabled cfg \<and> sc_Cert cfg \<noteq> [] \<and> sw_open w = [sc_DataDir cfg]"
proof -
  have p: "parse_flags server_flags [lit ''-cert=c'', lit ''-key=k''] [] =
      Parsed [(lit ''cert'', FStr (lit ''c'')), (lit ''key'', FStr (lit ''k''))] []"
    by code_simp
  obtain s' where dot: "loadDotEnv sample_godotenv (lit ''.env'') sample_env = (Inr (), s')"
      and s': "s' = snd (sample_godotenv [] sample_env)"
    by (simp add: loadDotEnv_def sample_godotenv_def lit_def)
  have path: "envFilePath [lit ''-cert=c'', lit ''-key=k''] sample_env = lit ''.env''"
    by code_simp
  have tls: "getBoolEnv ''SHARELOCK_TLS'' True s' = (Inr True, s')"
    by (simp add: s' sample_godotenv_def sample_env_def getBoolEnv_def os_Getenv_def)
  have "loadDotEnv sample_godotenv (envFilePath [lit ''-cert=c'', lit ''-key=k''] sample_env) sample_env = (Inr (), s')"
    using dot path by simp
  note lc = loadConfig_run [OF p this tls]
  obtain cfg w where run: "server_main sample_godotenv sample_server [lit ''-cert=c'', lit ''-key=k'']
      \<lparr>sw_os = sample_env, sw_open = []\<rparr> = (Inr cfg, w)" and tls: "sc_TLSEnabled cfg"
    by (simp add: server_main_def run_bind [of "on_server_os m" for m] on_server_os_def lc)
      (simp add: run_bind run_guard string_flag_def bool_flag_def run_try_open
        fatal_def run_server_New server_Run_def server_listen_def sample_server_def)
  from server_starts_secured [OF run] run tls show ?thesis by auto
qed

text \<open>The \<open>.env\<close> path is found by a scan of its own, which disagrees with the flag package: a path
  given as \<open>--env=p\<close> is parsed as the flag and ignored by the scan, and of two \<open>-env\<close> flags the
  parser takes the last and the scan the first.\<close>

lemma env_flag_scan_disagrees:
  "parse_flags server_flags [lit ''--env='' @ p] [] = Parsed [(lit ''env'', FStr p)] [] \<and>
    envFilePath [lit ''--env='' @ p] s = getenv ''SHARELOCK_ENV_FILE'' (lit ''.env'') s \<and>
    parse_flags server_flags [lit ''-env'', a, lit ''-env'', b] [] =
      Parsed [(lit ''env'', FStr a), (lit ''env'', FStr b)] [] \<and>
    string_flag [(lit ''env'', FStr a), (lit ''env'', FStr b)] ''env'' d = b \<and>
    envFilePath [lit ''-env'', a, lit ''-env'', b] s = a"
proof -
  have parts: "flag_parts (lit ''--env='' @ p) = Some (lit ''env'', Some p)" "flag_parts (lit ''-env'') = Some (lit ''env'', None)"
    using flag_parts_spelled(2) [of "lit ''env''" p] flag_parts_spelled(3) [of "lit ''env''"] by (simp_all add: lit_def)
  have shape: "length (lit ''--env='' @ p) \<ge> 2" "hd (lit ''--env='' @ p) = minus_sign" "lit ''--env='' @ p \<noteq> [minus_sign, minus_sign]"
    "length (lit ''-env'') \<ge> 2" "hd (lit ''-env'') = minus_sign" "lit ''-env'' \<noteq> [minus_sign, minus_sign]"
    by (simp_all add: lit_def)
  have kind: "map_of server_flags (lit ''env'') = Some StringFlag"
    by (simp add: server_flags_def)
  show ?thesis
    using parts shape kind by (simp add: envFilePath_def string_flag_def) (simp add: lit_def)
qed

end
