(* ===== verification/Concurrency.thy ===== *)
theory Concurrency
  imports Server
begin

text \<open>
  The accept loop of \<open>internal/server/server.go\<close>: every connection has a goroutine that runs
  \<open>handleConn\<close>, and all of them share one database. A call of \<open>Handle\<close> reads its own connection,
  uses the database in one transaction and writes to its own connection, so it is one step (\<open>Interleaving\<close> justifies this); bytes
  arrive and connections are made and closed in between, in any order.
\<close>

section \<open>One message\<close>

text \<open>What a client may send: a request, or an operation the server does not know.\<close>

datatype message = Request request | Unknown byte bytes

fun message_bytes :: "message \<Rightarrow> bytes" where
  "message_bytes (Request q) = request_bytes q"
| "message_bytes (Unknown op k) = op # lv k"

fun message_fits :: "message \<Rightarrow> bool" where
  "message_fits (Request q) = request_fits q"
| "message_fits (Unknown op k) = (op \<notin> {OpGet, OpSet, OpDelete} \<and> length k < 2 ^ 32)"

fun perform :: "'d badger \<Rightarrow> message \<Rightarrow> 'd \<Rightarrow> response \<times> 'd" where
  "perform B (Request q) d = execute B q d"
| "perform B (Unknown op k) d = (Failed (lit ''unknown op: '' @ byte_text op), d)"

lemma Handle_message:
  assumes "incoming s = message_bytes m @ rest" and "message_fits m"
  shows "Handle B s = (case perform B m (db s) of (r, d) \<Rightarrow>
    send (response_bytes r) (s\<lparr>incoming := rest, db := d\<rparr>))"
proof (cases m)
  case (Request q)
  with assms show ?thesis by (simp add: Handle_request)
next
  case (Unknown op k)
  with assms have "Handle B s = dispatch B op k (s\<lparr>incoming := rest\<rparr>)"
    by (intro Handle_header) simp_all
  moreover have "s\<lparr>incoming := rest, db := db s\<rparr> = s\<lparr>incoming := rest\<rparr>"
    by simp
  ultimately show ?thesis
    using Unknown assms(2) by (simp add: dispatch_def writeError_def lv_def)
qed

text \<open>The bytes at the front are a complete message.\<close>

definition complete :: "bytes \<Rightarrow> bool" where
  "complete p = (case p of [] \<Rightarrow> False
     | op # q \<Rightarrow> has_field q \<and> (op = OpSet \<longrightarrow> has_field (after_field q)))"

lemma complete_message:
  assumes "complete p"
  obtains m rest where "p = message_bytes m @ rest" and "message_fits m"
proof -
  obtain op q where p: "p = op # q" and q: "has_field q" and v: "op = OpSet \<longrightarrow> has_field (after_field q)"
    using assms by (auto simp: complete_def split: list.splits)
  obtain k where k: "q = lv k @ after_field q" "length k < 2 ^ 32"
    using has_field_lv [OF q] by blast
  consider "op = OpGet" | "op = OpDelete" | "op = OpSet" | "op \<notin> {OpGet, OpSet, OpDelete}"
    by blast
  then show thesis
  proof cases
    case 1
    show thesis
      by (rule that [of "Request (RGet k)" "after_field q"]) (use p k 1 in simp_all)
  next
    case 2
    show thesis
      by (rule that [of "Request (RDelete k)" "after_field q"]) (use p k 2 in simp_all)
  next
    case 3
    with v have "has_field (after_field q)" by simp
    then obtain w where w: "after_field q = lv w @ after_field (after_field q)" "length w < 2 ^ 32"
      by (rule has_field_lv)
    show thesis
      by (rule that [of "Request (RSet k w)" "after_field (after_field q)"]) (use p k w 3 in simp_all)
  next
    case 4
    show thesis
      by (rule that [of "Unknown op k" "after_field q"]) (use p k 4 in simp_all)
  qed
qed

lemma message_complete: "message_fits m \<Longrightarrow> complete (message_bytes m @ rest)"
proof (cases m)
  case (Request q)
  assume "message_fits m"
  with Request show ?thesis by (cases q) (simp_all add: complete_def lv_has_field)
qed (simp add: complete_def lv_has_field)

text \<open>Anything else makes \<open>Handle\<close> fail once the input has ended, before the database is used.\<close>

lemma Handle_incomplete:
  assumes "\<not> complete (incoming s)"
  shows "\<exists>e. Handle B s = (Inl e, s\<lparr>incoming := []\<rparr>)"
proof (cases "incoming s")
  case Nil
  then have "s\<lparr>incoming := []\<rparr> = s" by simp
  with Handle_empty [OF Nil, of B] show ?thesis by auto
next
  case (Cons op q)
  let ?s = "s\<lparr>incoming := q\<rparr>"
  have r1: "ReadFull 1 s = (Inr [op], ?s)"
    using Cons by (intro run_ReadFull) simp_all
  show ?thesis
  proof (cases "has_field q")
    case False
    then have "\<not> has_field (incoming ?s)" by simp
    from no_field_fails [OF this] r1 show ?thesis
      by (simp add: Handle_def run_bind [of "ReadFull (Suc 0)"] Let_def)
  next
    case True
    then obtain k where k: "q = lv k @ after_field q" "length k < 2 ^ 32"
      by (rule has_field_lv)
    have op: "op = OpSet" and "\<not> has_field (after_field q)"
      using assms Cons True by (auto simp: complete_def)
    then have "\<not> has_field (incoming (s\<lparr>incoming := after_field q\<rparr>))" by simp
    from no_field_fails [OF this] have "\<exists>e. handleSet B k (s\<lparr>incoming := after_field q\<rparr>) = (Inl e, s\<lparr>incoming := []\<rparr>)"
      unfolding handleSet_def Let_def by fastforce
    moreover have "Handle B s = dispatch B op k (s\<lparr>incoming := after_field q\<rparr>)"
      using Cons k by (intro Handle_header) simp_all
    ultimately show ?thesis
      by (simp add: op dispatch_def)
  qed
qed

section \<open>The server as a step relation\<close>

text \<open>
  A connection: what it has received so far (a history variable), whether the peer has stopped
  sending, and whether its goroutine is still running.
\<close>

record link = conn +
  received :: bytes
  finished :: bool
  live :: bool

record 'd server_state =
  shared_db :: 'd
  links :: "link list"

definition new_link :: "nat \<Rightarrow> link" where
  "new_link n = \<lparr>incoming = [], room = n, outgoing = [], received = [], finished = False, live = True\<rparr>"

definition as_sconn :: "link \<Rightarrow> 'd \<Rightarrow> 'd sconn" where
  "as_sconn l d = \<lparr>incoming = incoming l, room = room l, outgoing = outgoing l, db = d\<rparr>"

definition put_sconn :: "link \<Rightarrow> err + unit \<Rightarrow> 'd sconn \<Rightarrow> link" where
  "put_sconn l r s = l\<lparr>incoming := incoming s, room := room s, outgoing := outgoing s, live := (r = Inr ())\<rparr>"

datatype event =
    Accepted nat
  | Arrived nat bytes
  | Ended nat
  | Handled nat message response
  | HungUp nat

text \<open>
  \<open>Accept\<close> makes a connection, bytes arrive (also when nobody will read them any more), the peer
  stops sending, \<open>Handle\<close> runs on a complete message, and \<open>Handle\<close> fails at the end of the input.
\<close>

inductive server_step :: "'d badger \<Rightarrow> 'd server_state \<Rightarrow> event \<Rightarrow> 'd server_state \<Rightarrow> bool" for B where
  accept: "server_step B h (Accepted n) (h\<lparr>links := links h @ [new_link n]\<rparr>)"
| arrive: "i < length (links h) \<Longrightarrow> links h ! i = l \<Longrightarrow> \<not> finished l \<Longrightarrow>
    server_step B h (Arrived i b)
      (h\<lparr>links := (links h)[i := l\<lparr>incoming := incoming l @ b, received := received l @ b\<rparr>]\<rparr>)"
| close: "i < length (links h) \<Longrightarrow> links h ! i = l \<Longrightarrow>
    server_step B h (Ended i) (h\<lparr>links := (links h)[i := l\<lparr>finished := True\<rparr>]\<rparr>)"
| handle: "i < length (links h) \<Longrightarrow> links h ! i = l \<Longrightarrow> live l \<Longrightarrow>
    incoming l = message_bytes m @ rest \<Longrightarrow> message_fits m \<Longrightarrow>
    Handle B (as_sconn l (shared_db h)) = (r, s) \<Longrightarrow>
    server_step B h (Handled i m (fst (perform B m (shared_db h))))
      (h\<lparr>shared_db := db s, links := (links h)[i := put_sconn l r s]\<rparr>)"
| hang_up: "i < length (links h) \<Longrightarrow> links h ! i = l \<Longrightarrow> live l \<Longrightarrow> finished l \<Longrightarrow>
    \<not> complete (incoming l) \<Longrightarrow> Handle B (as_sconn l (shared_db h)) = (r, s) \<Longrightarrow>
    server_step B h (HungUp i) (h\<lparr>shared_db := db s, links := (links h)[i := put_sconn l r s]\<rparr>)"

inductive_cases accepted_stepE: "server_step B h (Accepted n) h'"
inductive_cases handled_stepE: "server_step B h (Handled i m r) h'"

text \<open>Reachable states, with the messages handled so far, in the order of their transactions.\<close>

inductive serving :: "'d badger \<Rightarrow> 'd \<Rightarrow> (nat \<times> message \<times> response) list \<Rightarrow> 'd server_state \<Rightarrow> bool"
  for B d0 where
  start: "serving B d0 [] \<lparr>shared_db = d0, links = []\<rparr>"
| handled: "serving B d0 log h \<Longrightarrow> server_step B h (Handled i m r) h' \<Longrightarrow> serving B d0 (log @ [(i, m, r)]) h'"
| other: "serving B d0 log h \<Longrightarrow> server_step B h ev h' \<Longrightarrow> (\<And>i m r. ev \<noteq> Handled i m r) \<Longrightarrow> serving B d0 log h'"

section \<open>Every run is a sequential run\<close>

fun performs :: "'d badger \<Rightarrow> message list \<Rightarrow> 'd \<Rightarrow> response list \<times> 'd" where
  "performs B [] d = ([], d)"
| "performs B (m # ms) d = (case perform B m d of (r, d') \<Rightarrow> case performs B ms d' of (rs, d'') \<Rightarrow> (r # rs, d''))"

lemma performs_append:
  "performs B ms d = (rs, d') \<Longrightarrow> perform B m d' = (r, d'') \<Longrightarrow> performs B (ms @ [m]) d = (rs @ [r], d'')"
  by (induction ms arbitrary: d rs) (auto split: prod.splits)

definition log_of :: "nat \<Rightarrow> (nat \<times> message \<times> response) list \<Rightarrow> (message \<times> response) list" where
  "log_of i log = map snd (filter (\<lambda>e. fst e = i) log)"

lemma log_of_append [simp]:
  "log_of i (log @ [(j, m, r)]) = (if j = i then log_of i log @ [(m, r)] else log_of i log)"
  by (simp add: log_of_def)

text \<open>
  A connection and its part of the log: the messages handled are the bytes received in front of
  those still to be read, and the bytes sent are the responses, in order, except that a
  connection that has failed may have lost the end of them.
\<close>

definition link_ok :: "(message \<times> response) list \<Rightarrow> link \<Rightarrow> bool" where
  "link_ok mine l \<longleftrightarrow>
     (if live l then received l = concat (map (message_bytes \<circ> fst) mine) @ incoming l \<and>
          outgoing l = concat (map (response_bytes \<circ> snd) mine)
      else (\<exists>rest. received l = concat (map (message_bytes \<circ> fst) mine) @ rest) \<and>
          (\<exists>lost. outgoing l @ lost = concat (map (response_bytes \<circ> snd) mine)))"

definition server_inv :: "'d badger \<Rightarrow> 'd \<Rightarrow> (nat \<times> message \<times> response) list \<Rightarrow> 'd server_state \<Rightarrow> bool" where
  "server_inv B d0 log h \<longleftrightarrow>
     performs B (map (fst \<circ> snd) log) d0 = (map (snd \<circ> snd) log, shared_db h) \<and>
     (\<forall>i < length (links h). link_ok (log_of i log) (links h ! i)) \<and>
     (\<forall>e \<in> set log. fst e < length (links h))"

lemma handled_link:
  assumes "link_ok mine l" and "live l" and "incoming l = message_bytes m @ rest" and "message_fits m"
    and "Handle B (as_sconn l d) = (res, s)" and "perform B m d = (r, d')"
  shows "db s = d'" and "link_ok (mine @ [(m, r)]) (put_sconn l res s)"
proof -
  let ?s = "as_sconn l d"
  have "Handle B ?s = send (response_bytes r) (?s\<lparr>incoming := rest, db := d'\<rparr>)"
    using assms(3,4,6) by (subst Handle_message [where m = m and rest = rest]) (simp_all add: as_sconn_def)
  then have run: "send (response_bytes r) (?s\<lparr>incoming := rest, db := d'\<rparr>) = (res, s)"
    using assms(5) by simp
  then show "db s = d'"
    by (cases "length (response_bytes r) \<le> room l") (auto simp: run_send as_sconn_def)
  show "link_ok (mine @ [(m, r)]) (put_sconn l res s)"
  proof (cases "length (response_bytes r) \<le> room l")
    case True
    with run assms(1-3) show ?thesis
      by (auto simp: run_send as_sconn_def put_sconn_def link_ok_def)
  next
    case False
    have "outgoing l @ take (room l) (response_bytes r) @ drop (room l) (response_bytes r) =
        concat (map (response_bytes \<circ> snd) (mine @ [(m, r)]))"
      using assms(1,2) by (simp add: link_ok_def)
    with False run assms(1-3) show ?thesis
      by (auto simp: run_send as_sconn_def put_sconn_def link_ok_def) (metis append_take_drop_id)
  qed
qed

lemma hung_up_link:
  assumes "link_ok mine l" and "live l" and "\<not> complete (incoming l)"
    and "Handle B (as_sconn l d) = (res, s)"
  shows "db s = d" and "link_ok mine (put_sconn l res s)"
proof -
  have "\<not> complete (incoming (as_sconn l d))"
    using assms(3) by (simp add: as_sconn_def)
  from Handle_incomplete [OF this, of B] obtain e where "res = Inl e" "s = (as_sconn l d)\<lparr>incoming := []\<rparr>"
    using assms(4) by auto
  then show "db s = d" and "link_ok mine (put_sconn l res s)"
    using assms(1,2) by (auto simp: as_sconn_def put_sconn_def link_ok_def)
qed

lemma link_ok_other:
  "link_ok mine l \<Longrightarrow> link_ok mine (l\<lparr>incoming := incoming l @ b, received := received l @ b\<rparr>)"
  "link_ok mine l \<Longrightarrow> link_ok mine (l\<lparr>finished := True\<rparr>)"
  "link_ok [] (new_link n)"
  by (auto simp: link_ok_def new_link_def)

lemma server_inv_update:
  assumes "server_inv B d0 log h" and "i < length (links h)" and "link_ok (log_of i log) l"
  shows "server_inv B d0 log (h\<lparr>links := (links h)[i := l]\<rparr>)"
  using assms by (auto simp: server_inv_def nth_list_update)

lemma server_inv_handled:
  assumes "server_inv B d0 log h" and "server_step B h (Handled i m r) h'"
  shows "server_inv B d0 (log @ [(i, m, r)]) h'"
  using assms(2)
proof (rule handled_stepE)
  fix rest res s
  let ?l = "links h ! i"
  assume h': "h' = h\<lparr>shared_db := db s, links := (links h)[i := put_sconn ?l res s]\<rparr>"
    and r: "r = fst (perform B m (shared_db h))"
    and l: "i < length (links h)" "live ?l" "incoming ?l = message_bytes m @ rest" "message_fits m"
    and run: "Handle B (as_sconn ?l (shared_db h)) = (res, s)"
  obtain d' where p: "perform B m (shared_db h) = (r, d')" using r by (metis prod.collapse)
  have "link_ok (log_of i log) ?l"
    using assms(1) l(1) by (auto simp: server_inv_def)
  note hl = handled_link [OF this l(2-4) run p]
  have "performs B (map (fst \<circ> snd) log @ [m]) d0 = (map (snd \<circ> snd) log @ [r], d')"
    using assms(1) p by (intro performs_append) (auto simp: server_inv_def)
  with assms(1) hl l(1) show ?thesis
    by (auto simp: server_inv_def h' nth_list_update)
qed

lemma server_inv_other:
  assumes "server_inv B d0 log h" and "server_step B h ev h'" and "\<And>i m r. ev \<noteq> Handled i m r"
  shows "server_inv B d0 log h'"
  using assms(2)
proof cases
  case (accept n)
  have "log_of (length (links h)) log = []"
    using assms(1) by (auto simp: server_inv_def log_of_def filter_empty_conv)
  with assms(1) accept show ?thesis
    by (auto simp: server_inv_def nth_append less_Suc_eq link_ok_other(3))
next
  case (arrive i l b)
  have "link_ok (log_of i log) l"
    using assms(1) arrive(3,4) by (auto simp: server_inv_def)
  from server_inv_update [OF assms(1) arrive(3) link_ok_other(1) [OF this]]
  show ?thesis by (simp add: arrive(2))
next
  case (close i l)
  have "link_ok (log_of i log) l"
    using assms(1) close(3,4) by (auto simp: server_inv_def)
  from server_inv_update [OF assms(1) close(3) link_ok_other(2) [OF this]]
  show ?thesis by (simp add: close(2))
next
  case (handle i l m rest r s)
  with assms(3) show ?thesis by blast
next
  case (hang_up i l r s)
  have "link_ok (log_of i log) l"
    using assms(1) hang_up(3,4) by (auto simp: server_inv_def)
  note hu = hung_up_link [OF this hang_up(5,7,8)]
  from server_inv_update [OF assms(1) hang_up(3) hu(2)]
  show ?thesis by (simp add: hang_up(2) hu(1))
qed

lemma serving_inv: "serving B d0 log h \<Longrightarrow> server_inv B d0 log h"
proof (induction rule: serving.induct)
  case start
  show ?case by (simp add: server_inv_def)
next
  case (handled log h i m r h')
  then show ?case by (blast intro: server_inv_handled)
next
  case (other log h ev h')
  show ?case by (rule server_inv_other [OF other.IH other.hyps(2,3)])
qed

section \<open>Progress\<close>

lemma can_handle:
  assumes "i < length (links h)" and "links h ! i = l" and "live l" and "incoming l = message_bytes m @ rest"
    and "message_fits m" and "perform B m (shared_db h) = (r, d)" and "length (response_bytes r) \<le> room l"
  shows "server_step B h (Handled i m r) (h\<lparr>shared_db := d, links := (links h)[i := l\<lparr>incoming := rest,
    room := room l - length (response_bytes r), outgoing := outgoing l @ response_bytes r\<rparr>]\<rparr>)"
proof -
  let ?s = "as_sconn l (shared_db h)"
  obtain s where run: "Handle B ?s = (Inr (), s)" and db: "db s = d"
      and link: "put_sconn l (Inr ()) s = l\<lparr>incoming := rest, room := room l - length (response_bytes r),
        outgoing := outgoing l @ response_bytes r\<rparr>"
  proof (rule that)
    show "Handle B ?s = (Inr (), ?s\<lparr>incoming := rest, db := d, room := room l - length (response_bytes r),
        outgoing := outgoing l @ response_bytes r\<rparr>)"
      using assms by (subst Handle_message [where m = m and rest = rest]) (simp_all add: as_sconn_def run_send)
  qed (use assms(3) in \<open>simp_all add: put_sconn_def\<close>)
  from server_step.handle [OF assms(1-5) run] show ?thesis
    by (simp add: db link assms(6))
qed

section \<open>Properties\<close>

text \<open>C18. However the connections interleave, the database and the responses are those of one sequential run of
  the messages handled, and each connection sees its own messages in order: they are what it has
  received, up to what is still unread, and it has been sent the responses to them, up to what
  was lost when it broke.\<close>

theorem concurrent_run_is_sequential:
  assumes "serving B d0 log h"
  shows "performs B (map (fst \<circ> snd) log) d0 = (map (snd \<circ> snd) log, shared_db h) \<and>
    (\<forall>i < length (links h). \<exists>rest lost.
       received (links h ! i) = concat (map (message_bytes \<circ> fst) (log_of i log)) @ rest \<and>
       outgoing (links h ! i) @ lost = concat (map (response_bytes \<circ> snd) (log_of i log)) \<and>
       (live (links h ! i) \<longrightarrow> rest = incoming (links h ! i) \<and> lost = []))"
proof (intro conjI allI impI)
  note inv = serving_inv [OF assms]
  then show "performs B (map (fst \<circ> snd) log) d0 = (map (snd \<circ> snd) log, shared_db h)"
    by (simp add: server_inv_def)
  fix i
  assume "i < length (links h)"
  with inv have "link_ok (log_of i log) (links h ! i)"
    by (simp add: server_inv_def)
  then show "\<exists>rest lost. received (links h ! i) = concat (map (message_bytes \<circ> fst) (log_of i log)) @ rest \<and>
      outgoing (links h ! i) @ lost = concat (map (response_bytes \<circ> snd) (log_of i log)) \<and>
      (live (links h ! i) \<longrightarrow> rest = incoming (links h ! i) \<and> lost = [])"
    by (cases "live (links h ! i)") (auto simp: link_ok_def)
qed

text \<open>Two connections: the first writes a key, the second has asked for it before.\<close>

lemma two_connections:
  "\<exists>h. serving map_badger Map.empty
    [(1, Request (RGet [5]), Missing), (0, Request (RSet [5] [6]), Done)] h \<and> length (links h) = 2 \<and>
    live (links h ! 1)"
proof -
  let ?B = map_badger and ?set = "Request (RSet [5] [6])" and ?get = "Request (RGet [5])"
  let ?h0 = "\<lparr>shared_db = Map.empty, links = []\<rparr> :: (bytes \<rightharpoonup> bytes) server_state"
  define l0 where "l0 = (new_link 9)\<lparr>incoming := message_bytes ?set, received := message_bytes ?set\<rparr>"
  define l1 where "l1 = (new_link 9)\<lparr>incoming := message_bytes ?get, received := message_bytes ?get\<rparr>"
  define m1 where "m1 = l1\<lparr>incoming := [], room := 8, outgoing := [StatusNotFound]\<rparr>"
  have "serving ?B Map.empty [] ?h0" by (rule serving.start)
  then have "serving ?B Map.empty [] (?h0\<lparr>links := [new_link 9]\<rparr>)"
    using server_step.accept [of ?B ?h0 9] by (auto intro: serving.other)
  then have "serving ?B Map.empty [] (?h0\<lparr>links := [new_link 9, new_link 9]\<rparr>)"
    using server_step.accept [of ?B "?h0\<lparr>links := [new_link 9]\<rparr>" 9] by (auto intro: serving.other)
  then have "serving ?B Map.empty [] (?h0\<lparr>links := [l0, new_link 9]\<rparr>)"
    using server_step.arrive [of 0 "?h0\<lparr>links := [new_link 9, new_link 9]\<rparr>" "new_link 9" ?B "message_bytes ?set"]
    by (auto intro: serving.other simp: new_link_def l0_def)
  then have s: "serving ?B Map.empty [] (?h0\<lparr>links := [l0, l1]\<rparr>)"
    using server_step.arrive [of 1 "?h0\<lparr>links := [l0, new_link 9]\<rparr>" "new_link 9" ?B "message_bytes ?get"]
    by (auto intro: serving.other simp: new_link_def l1_def)
  have "server_step ?B (?h0\<lparr>links := [l0, l1]\<rparr>) (Handled 1 ?get Missing) (?h0\<lparr>links := [l0, m1]\<rparr>)"
    using can_handle [of 1 "?h0\<lparr>links := [l0, l1]\<rparr>" l1 ?get "[]" ?B Missing Map.empty]
    by (simp add: l1_def m1_def new_link_def map_badger_def)
  from serving.handled [OF s this]
  have s: "serving ?B Map.empty [(1, ?get, Missing)] (?h0\<lparr>links := [l0, m1]\<rparr>)" by simp
  obtain h where "server_step ?B (?h0\<lparr>links := [l0, m1]\<rparr>) (Handled 0 ?set Done) h" "links h ! 1 = m1" "length (links h) = 2"
    using can_handle [of 0 "?h0\<lparr>links := [l0, m1]\<rparr>" l0 ?set "[]" ?B Done "[[5] \<mapsto> [6]]"]
    by (simp add: l0_def new_link_def map_badger_def)
  with serving.handled [OF s] show ?thesis
    by (intro exI [of _ h]) (simp add: m1_def l1_def new_link_def)
qed

theorem concurrent_run_is_sequential_witness:
  "\<exists>log h. serving map_badger Map.empty log h \<and> length (links h) = 2 \<and>
    shared_db h = [[5] \<mapsto> [6]] \<and> outgoing (links h ! 1) = response_bytes Missing"
proof -
  obtain h where h: "serving map_badger Map.empty
      [(1, Request (RGet [5]), Missing), (0, Request (RSet [5] [6]), Done)] h" "length (links h) = 2" "live (links h ! 1)"
    using two_connections by blast
  note seq = concurrent_run_is_sequential [OF h(1)]
  have "shared_db h = [[5] \<mapsto> [6]]"
    using seq by (simp add: map_badger_def)
  moreover have "outgoing (links h ! 1) = response_bytes Missing"
    using spec [OF conjunct2 [OF seq], of 1] h(2,3) by (auto simp: log_of_def)
  ultimately show ?thesis
    using h(1,2) by blast
qed

text \<open>C30. No connection waits for another: whenever a complete message has arrived on an open connection,
  the server can answer it at once, whatever the other connections are doing and without touching
  them; if the connection takes the response it stays open.\<close>

theorem complete_message_can_be_answered:
  assumes "i < length (links h)" and "live (links h ! i)" and "complete (incoming (links h ! i))"
  shows "\<exists>m r h'. server_step B h (Handled i m r) h' \<and> length (links h') = length (links h) \<and>
    (\<forall>j < length (links h). j \<noteq> i \<longrightarrow> links h' ! j = links h ! j) \<and>
    perform B m (shared_db h) = (r, shared_db h') \<and>
    (length (response_bytes r) \<le> room (links h ! i) \<longrightarrow>
      live (links h' ! i) \<and> outgoing (links h' ! i) = outgoing (links h ! i) @ response_bytes r)"
proof -
  let ?l = "links h ! i"
  obtain m rest where m: "incoming ?l = message_bytes m @ rest" "message_fits m"
    using assms(3) by (rule complete_message)
  obtain r d where p: "perform B m (shared_db h) = (r, d)" by fastforce
  show ?thesis
  proof (cases "length (response_bytes r) \<le> room ?l")
    case True
    from can_handle [OF assms(1) refl assms(2) m p True] show ?thesis
      using assms(1,2) p by (intro exI conjI) (assumption, auto)
  next
    case False
    obtain res s where run: "Handle B (as_sconn ?l (shared_db h)) = (res, s)" by fastforce
    have "db s = d"
      using run m p False Handle_message [of "as_sconn ?l (shared_db h)" m rest B]
      by (auto simp: as_sconn_def run_send)
    with server_step.handle [OF assms(1) refl assms(2) m run] p False show ?thesis
      by (intro exI [of _ m] exI [of _ r] exI) (auto intro: conjI)
  qed
qed

theorem complete_message_can_be_answered_witness:
  "\<exists>r h'. server_step map_badger \<lparr>shared_db = Map.empty, links = [(new_link 9)\<lparr>incoming := [9, 0, 0, 0, 0]\<rparr>]\<rparr>
    (Handled 0 (Unknown 9 []) r) h'"
proof -
  let ?h = "\<lparr>shared_db = Map.empty, links = [(new_link 9)\<lparr>incoming := [9, 0, 0, 0, 0]\<rparr>]\<rparr> :: (bytes \<rightharpoonup> bytes) server_state"
  have lv: "[9, 0, 0, 0, 0] = message_bytes (Unknown 9 [])" by (simp add: lv_def put_uint32_def)
  have fits: "message_fits (Unknown 9 [])" by (simp add: OpGet_def OpSet_def OpDelete_def)
  then have "complete [9, 0, 0, 0, 0]"
    using message_complete [of "Unknown 9 []" "[]"] lv by simp
  with complete_message_can_be_answered [of 0 ?h map_badger] obtain m r h' where
    step: "server_step map_badger ?h (Handled 0 m r) h'"
    by (auto simp: new_link_def)
  then obtain rest where "message_bytes m @ rest = [9, 0, 0, 0, 0]" "message_fits m"
    by (auto elim!: handled_stepE simp: new_link_def)
  then have "m = Unknown 9 []"
    by (cases m rule: message_bytes.cases; cases "case m of Request q \<Rightarrow> q | Unknown op k \<Rightarrow> RGet k")
      (auto simp: lv_def put_uint32_def OpGet_def OpSet_def OpDelete_def)
  with step show ?thesis by blast
qed

end
