(* ===== verification/Interleaving.thy ===== *)
theory Interleaving
  imports Concurrency
begin

text \<open>
  The goroutines of the server at a finer grain. A call of \<open>Handle\<close> reads its connection, uses the
  database in one transaction, and writes the response; other connections may be served between
  these three stages, and bytes may arrive. Every such run is a run of \<open>Concurrency\<close>, where
  \<open>Handle\<close> is one step.
\<close>

section \<open>The stages of a call\<close>

definition receive :: "('a conn_scheme, message) prog" where
  "receive =
     bindE (ReadFull 1) (\<lambda>op.
     bindE (ReadFull 4) (\<lambda>keyLen.
     bindE (ReadFull (unat (get_uint32 keyLen))) (\<lambda>key.
     if op ! 0 = OpGet then ret (Request (RGet key))
     else if op ! 0 = OpSet then
       bindE (ReadFull 4) (\<lambda>valLen.
       bindE (ReadFull (unat (get_uint32 valLen))) (\<lambda>val.
       ret (Request (RSet key val))))
     else if op ! 0 = OpDelete then ret (Request (RDelete key))
     else ret (Unknown (op ! 0) key))))"

definition failed :: "err \<Rightarrow> response" where
  "failed e = Failed (err_text e)"

fun transact :: "'d badger \<Rightarrow> message \<Rightarrow> ('d, response) prog" where
  "transact B (Request (RGet k)) =
     bindE (tryE (Store_Get B k)) (\<lambda>r.
     ret (case r of Inl e \<Rightarrow> if e = ErrKeyNotFound then Missing else failed e | Inr v \<Rightarrow> Value v))"
| "transact B (Request (RSet k v)) =
     bindE (tryE (Store_Set B k v)) (\<lambda>r. ret (case r of Inl e \<Rightarrow> failed e | Inr u \<Rightarrow> Done))"
| "transact B (Request (RDelete k)) =
     bindE (tryE (Store_Delete B k)) (\<lambda>r. ret (case r of Inl e \<Rightarrow> failed e | Inr u \<Rightarrow> Done))"
| "transact B (Unknown op k) = ret (Failed (lit ''unknown op: '' @ byte_text op))"

definition respond :: "response \<Rightarrow> ('a conn_scheme, unit) prog" where
  "respond r = send (response_bytes r)"

lemma bind_laws:
  "bindE (bindE m f) g = bindE m (\<lambda>x. bindE (f x) g)" "bindE (ret x) k = k x"
  "bindE (if b then m1 else m2) k' = (if b then bindE m1 k' else bindE m2 k')"
  by (auto simp: bindE_def ret_def fun_eq_iff split: prod.split sum.split)

lemma handler_stages:
  "handleGet B key = bindE (on_db (transact B (Request (RGet key)))) respond"
  "bindE (tryE (on_db (Store_Set B key val))) (\<lambda>r. case r of Inl e \<Rightarrow> writeError (err_text e) | Inr _ \<Rightarrow> writeStatus StatusOK) =
    bindE (on_db (transact B (Request (RSet key val)))) respond"
  "handleDelete B key = bindE (on_db (transact B (Request (RDelete key)))) respond"
  "writeError (lit ''unknown op: '' @ byte_text op) = bindE (on_db (transact B (Unknown op key))) respond"
  by (auto simp: handleGet_def handleDelete_def bindE_def tryE_def on_db_def ret_def respond_def failed_def
      writeError_def writeStatus_def server_writeValue_def lv_def fun_eq_iff split: prod.split sum.split)

text \<open>\<open>Handle\<close> is its three stages one after the other, on every input.\<close>

theorem Handle_stages: "Handle B = bindE receive (\<lambda>m. bindE (on_db (transact B m)) respond)"
  unfolding Handle_def receive_def Let_def bind_laws handleSet_def handler_stages(1-3) handler_stages(4) [symmetric] ..

lemma transact_perform: "transact B m d = (Inr (fst (perform B m d)), snd (perform B m d))"
  by (cases m rule: message_bytes.cases; cases "case m of Request q \<Rightarrow> q | Unknown op k \<Rightarrow> RGet k")
    (auto simp: run_bind run_guard tryE_def failed_def Store_Get_def Store_Set_def Store_Delete_def
      split: prod.split sum.split)

section \<open>Receiving\<close>

text \<open>After the key has been read.\<close>

definition receive_rest :: "byte \<Rightarrow> bytes \<Rightarrow> ('a conn_scheme, message) prog" where
  "receive_rest op key =
     (if op = OpGet then ret (Request (RGet key))
      else if op = OpSet then
        bindE (ReadFull 4) (\<lambda>valLen.
        bindE (ReadFull (unat (get_uint32 valLen))) (\<lambda>val.
        ret (Request (RSet key val))))
      else if op = OpDelete then ret (Request (RDelete key))
      else ret (Unknown op key))"

lemma receive_header:
  assumes "incoming s = op # lv key @ rest" and "length key < 2 ^ 32"
  shows "receive s = receive_rest op key (s\<lparr>incoming := rest\<rparr>)"
proof -
  let ?s = "s\<lparr>incoming := lv key @ rest\<rparr>"
  have "ReadFull 1 s = (Inr [op], ?s)"
    using assms(1) by (intro run_ReadFull) simp_all
  with ReadFull_lv [of ?s key rest] assms(2) show ?thesis
    by (simp add: receive_def run_bind receive_rest_def)
qed

lemma receive_message:
  assumes "incoming c = message_bytes m @ rest" and "message_fits m"
  shows "receive c = (Inr m, c\<lparr>incoming := rest\<rparr>)"
proof -
  consider k where "m = Request (RGet k)" | k v where "m = Request (RSet k v)" | k where "m = Request (RDelete k)"
    | op k where "m = Unknown op k"
    by (metis message.exhaust request.exhaust)
  then show ?thesis
  proof cases
    case (2 k v)
    with assms have "receive c = receive_rest OpSet k (c\<lparr>incoming := lv v @ rest\<rparr>)"
      by (intro receive_header) simp_all
    with ReadFull_lv [of "c\<lparr>incoming := lv v @ rest\<rparr>" v rest] assms(2) 2 show ?thesis
      by (simp add: receive_rest_def run_bind run_guard)
  qed (use assms in \<open>simp_all add: receive_header [where rest = rest] receive_rest_def run_guard\<close>)
qed

lemma receive_incomplete:
  assumes "\<not> complete (incoming s)"
  shows "\<exists>e. receive s = (Inl e, s\<lparr>incoming := []\<rparr>)"
proof (cases "incoming s")
  case Nil
  then have "s\<lparr>incoming := []\<rparr> = s" by simp
  with Nil show ?thesis by (auto simp: receive_def run_bind ReadFull_def)
next
  case (Cons op q)
  let ?s = "s\<lparr>incoming := q\<rparr>"
  have r1: "ReadFull 1 s = (Inr [op], ?s)"
    using Cons by (intro run_ReadFull) simp_all
  show ?thesis
  proof (cases "has_field q")
    case False
    then have "\<not> has_field (incoming ?s)" by simp
    from no_field_fails [OF this] r1 show ?thesis
      by (simp add: receive_def run_bind [of "ReadFull (Suc 0)"])
  next
    case True
    then obtain k where k: "q = lv k @ after_field q" "length k < 2 ^ 32"
      by (rule has_field_lv)
    have op: "op = OpSet" and "\<not> has_field (after_field q)"
      using assms Cons True by (auto simp: complete_def)
    then have "\<not> has_field (incoming (s\<lparr>incoming := after_field q\<rparr>))" by simp
    from no_field_fails [OF this] have "\<exists>e. receive_rest op k (s\<lparr>incoming := after_field q\<rparr>) = (Inl e, s\<lparr>incoming := []\<rparr>)"
      unfolding receive_rest_def op by fastforce
    moreover have "receive s = receive_rest op k (s\<lparr>incoming := after_field q\<rparr>)"
      using Cons k by (intro receive_header) simp_all
    ultimately show ?thesis by simp
  qed
qed

lemma received_message:
  assumes "receive s = (Inr m, s')"
  obtains rest where "incoming s = message_bytes m @ rest" and "message_fits m" and "s' = s\<lparr>incoming := rest\<rparr>"
proof (cases "complete (incoming s)")
  case True
  then obtain m' rest where m': "incoming s = message_bytes m' @ rest" "message_fits m'"
    by (rule complete_message)
  with receive_message [OF m'] assms that show thesis by simp
next
  case False
  with receive_incomplete assms show thesis by fastforce
qed

lemma not_received:
  assumes "receive s = (Inl e, s')"
  shows "\<not> complete (incoming s)" and "s' = s\<lparr>incoming := []\<rparr>"
proof -
  show "\<not> complete (incoming s)"
    using assms complete_message receive_message by (metis prod.inject sum.distinct(1))
  with receive_incomplete [of s] assms show "s' = s\<lparr>incoming := []\<rparr>" by auto
qed

section \<open>Steps\<close>

text \<open>Where the goroutine of a connection stands.\<close>

datatype phase = Reading | Holding message | Answering response

record 'd worker_state =
  worker_db :: 'd
  workers :: "(link \<times> phase) list"

text \<open>The steps of \<open>server_step\<close> with \<open>Handle\<close> in three parts; the event is that of the transaction.\<close>

inductive worker_step :: "'d badger \<Rightarrow> 'd worker_state \<Rightarrow> event option \<Rightarrow> 'd worker_state \<Rightarrow> bool" for B where
  accept: "worker_step B h (Some (Accepted n)) (h\<lparr>workers := workers h @ [(new_link n, Reading)]\<rparr>)"
| arrive: "i < length (workers h) \<Longrightarrow> workers h ! i = (l, ph) \<Longrightarrow> \<not> finished l \<Longrightarrow>
    worker_step B h (Some (Arrived i b))
      (h\<lparr>workers := (workers h)[i := (l\<lparr>incoming := incoming l @ b, received := received l @ b\<rparr>, ph)]\<rparr>)"
| close: "i < length (workers h) \<Longrightarrow> workers h ! i = (l, ph) \<Longrightarrow>
    worker_step B h (Some (Ended i)) (h\<lparr>workers := (workers h)[i := (l\<lparr>finished := True\<rparr>, ph)]\<rparr>)"
| receive: "i < length (workers h) \<Longrightarrow> workers h ! i = (l, Reading) \<Longrightarrow> live l \<Longrightarrow>
    receive (as_sconn l (worker_db h)) = (Inr m, s) \<Longrightarrow>
    worker_step B h None (h\<lparr>workers := (workers h)[i := (put_sconn l (Inr ()) s, Holding m)]\<rparr>)"
| transact: "i < length (workers h) \<Longrightarrow> workers h ! i = (l, Holding m) \<Longrightarrow>
    transact B m (worker_db h) = (Inr r, d) \<Longrightarrow>
    worker_step B h (Some (Handled i m r)) (h\<lparr>worker_db := d, workers := (workers h)[i := (l, Answering r)]\<rparr>)"
| respond: "i < length (workers h) \<Longrightarrow> workers h ! i = (l, Answering r) \<Longrightarrow>
    respond r (as_sconn l (worker_db h)) = (res, s) \<Longrightarrow>
    worker_step B h None (h\<lparr>workers := (workers h)[i := (put_sconn l res s, Reading)]\<rparr>)"
| hang_up: "i < length (workers h) \<Longrightarrow> workers h ! i = (l, Reading) \<Longrightarrow> live l \<Longrightarrow> finished l \<Longrightarrow>
    receive (as_sconn l (worker_db h)) = (Inl e, s) \<Longrightarrow>
    worker_step B h (Some (HungUp i)) (h\<lparr>workers := (workers h)[i := (put_sconn l (Inl e) s, Reading)]\<rparr>)"

inductive working :: "'d badger \<Rightarrow> 'd \<Rightarrow> (nat \<times> message \<times> response) list \<Rightarrow> 'd worker_state \<Rightarrow> bool"
  for B d0 where
  start: "working B d0 [] \<lparr>worker_db = d0, workers = []\<rparr>"
| handled: "working B d0 log h \<Longrightarrow> worker_step B h (Some (Handled i m r)) h' \<Longrightarrow> working B d0 (log @ [(i, m, r)]) h'"
| other: "working B d0 log h \<Longrightarrow> worker_step B h ev h' \<Longrightarrow> (\<And>i m r. ev \<noteq> Some (Handled i m r)) \<Longrightarrow> working B d0 log h'"

section \<open>The atomic view\<close>

text \<open>
  A message that has been read but not used counts as not yet read, a response that has been computed
  as sent.
\<close>

fun settle :: "link \<Rightarrow> phase \<Rightarrow> link" where
  "settle l Reading = l"
| "settle l (Holding m) = l\<lparr>incoming := message_bytes m @ incoming l\<rparr>"
| "settle l (Answering r) = (case respond r (as_sconn l ()) of (res, s) \<Rightarrow> put_sconn l res s)"

definition atomic_view :: "'d worker_state \<Rightarrow> 'd server_state" where
  "atomic_view h = \<lparr>shared_db = worker_db h, links = map (\<lambda>(l, ph). settle l ph) (workers h)\<rparr>"

definition phase_ok :: "link \<times> phase \<Rightarrow> bool" where
  "phase_ok w = (case w of (l, Reading) \<Rightarrow> True | (l, Holding m) \<Rightarrow> live l \<and> message_fits m | (l, Answering r) \<Rightarrow> live l)"

lemma settle_respond:
  "respond r (as_sconn l d) = (res, s) \<Longrightarrow> settle l (Answering r) = put_sconn l res s"
  by (cases "length (response_bytes r) \<le> room l") (auto simp: respond_def run_send as_sconn_def put_sconn_def)

lemma settle_arrived:
  "settle (l\<lparr>incoming := incoming l @ b, received := received l @ b\<rparr>) ph =
    (settle l ph)\<lparr>incoming := incoming (settle l ph) @ b, received := received (settle l ph) @ b\<rparr>"
  "settle (l\<lparr>finished := True\<rparr>) ph = (settle l ph)\<lparr>finished := True\<rparr>"
  "finished (settle l ph) = finished l"
  by (cases ph; cases "case ph of Answering r \<Rightarrow> length (response_bytes r) \<le> room l | _ \<Rightarrow> True";
      auto simp: respond_def run_send as_sconn_def put_sconn_def)+

lemma atomic_view_simps [simp]:
  "length (links (atomic_view h)) = length (workers h)" "shared_db (atomic_view h) = worker_db h"
  "i < length (workers h) \<Longrightarrow> workers h ! i = (l, ph) \<Longrightarrow> links (atomic_view h) ! i = settle l ph"
  by (simp_all add: atomic_view_def)

lemma atomic_view_update:
  "atomic_view (h\<lparr>worker_db := d, workers := (workers h)[i := (l, ph)]\<rparr>) =
    (atomic_view h)\<lparr>shared_db := d, links := (links (atomic_view h))[i := settle l ph]\<rparr>"
  "atomic_view (h\<lparr>workers := (workers h)[i := (l, ph)]\<rparr>) =
    (atomic_view h)\<lparr>links := (links (atomic_view h))[i := settle l ph]\<rparr>"
  "atomic_view (h\<lparr>workers := workers h @ [(l, ph)]\<rparr>) = (atomic_view h)\<lparr>links := links (atomic_view h) @ [settle l ph]\<rparr>"
  by (simp_all add: atomic_view_def map_update)

lemma same_view:
  assumes "i < length (workers h)" and "workers h ! i = (l, ph)" and "settle l' ph' = settle l ph"
  shows "atomic_view (h\<lparr>workers := (workers h)[i := (l', ph')]\<rparr>) = atomic_view h"
  unfolding atomic_view_update assms(3)
  by (simp add: atomic_view_simps(3) [OF assms(1,2), symmetric] del: atomic_view_simps(3))

text \<open>Reading a message and sending a response are invisible, the transaction is the whole call.\<close>

lemma transaction_is_call:
  assumes "i < length (workers h)" and "workers h ! i = (l, Holding m)" and "live l" "message_fits m"
    and "transact B m (worker_db h) = (Inr r, d)"
  shows "server_step B (atomic_view h) (Handled i m r)
    (atomic_view (h\<lparr>worker_db := d, workers := (workers h)[i := (l, Answering r)]\<rparr>))"
proof -
  let ?l = "settle l (Holding m)"
  obtain res s where run: "respond r (as_sconn l d) = (res, s)" by fastforce
  have r: "r = fst (perform B m (worker_db h))" and d: "d = snd (perform B m (worker_db h))"
    using assms(5) transact_perform [of B m "worker_db h"] by simp_all
  have "Handle B (as_sconn ?l (worker_db h)) = send (response_bytes r) ((as_sconn ?l (worker_db h))\<lparr>incoming := incoming l, db := d\<rparr>)"
    by (subst Handle_message [where m = m and rest = "incoming l"])
      (use assms(4) r d in \<open>simp_all add: as_sconn_def split: prod.split\<close>)
  also have "(as_sconn ?l (worker_db h))\<lparr>incoming := incoming l, db := d\<rparr> = as_sconn l d"
    by (simp add: as_sconn_def)
  finally have handle: "Handle B (as_sconn ?l (worker_db h)) = (res, s)"
    using run by (simp add: respond_def)
  have "db s = d"
    using run by (cases "length (response_bytes r) \<le> room l") (auto simp: respond_def run_send as_sconn_def)
  moreover have "put_sconn ?l res s = settle l (Answering r)"
    using settle_respond [OF run] by (simp add: put_sconn_def)
  ultimately show ?thesis
    using server_step.handle [of i "atomic_view h" ?l m "incoming l" B res s] assms(1-4) handle
    by (simp add: atomic_view_update r [symmetric])
qed

lemma hang_up_is_call:
  assumes "i < length (workers h)" and "workers h ! i = (l, Reading)" and "live l" "finished l"
    and "receive (as_sconn l (worker_db h)) = (Inl e, s)"
  shows "server_step B (atomic_view h) (HungUp i)
    (atomic_view (h\<lparr>workers := (workers h)[i := (put_sconn l (Inl e) s, Reading)]\<rparr>))"
proof -
  note fails = not_received [OF assms(5)]
  have handle: "Handle B (as_sconn l (worker_db h)) = (Inl e, s)"
    using assms(5) by (simp add: Handle_stages run_bind)
  have incomplete: "\<not> complete (incoming l)" using fails(1) by (simp add: as_sconn_def)
  have db: "db s = worker_db h" using fails(2) by (simp add: as_sconn_def)
  have upd: "(atomic_view h)\<lparr>shared_db := worker_db h, links := x\<rparr> = (atomic_view h)\<lparr>links := x\<rparr>" for x
    by (simp add: atomic_view_def)
  show ?thesis
    using server_step.hang_up [of i "atomic_view h" l B "Inl e" s] assms(1-4) handle incomplete
    by (simp add: atomic_view_update db upd)
qed

lemma worker_step_simulated:
  assumes "worker_step B h ev h'" and "\<forall>w \<in> set (workers h). phase_ok w"
  shows "(\<forall>w \<in> set (workers h'). phase_ok w) \<and>
    (case ev of None \<Rightarrow> atomic_view h' = atomic_view h | Some e \<Rightarrow> server_step B (atomic_view h) e (atomic_view h'))"
  using assms(1)
proof cases
  case (accept n)
  then show ?thesis
    using assms(2) server_step.accept [of B "atomic_view h" n] by (simp add: phase_ok_def atomic_view_update)
next
  case (arrive i l ph b)
  have "phase_ok (l, ph)" using assms(2) arrive(3,4) by (metis nth_mem)
  then have "phase_ok (l\<lparr>incoming := incoming l @ b, received := received l @ b\<rparr>, ph)"
    by (simp add: phase_ok_def split: phase.splits)
  moreover have "server_step B (atomic_view h) (Arrived i b) (atomic_view h')"
    using server_step.arrive [of i "atomic_view h" "settle l ph" B b] arrive
    by (simp add: atomic_view_update settle_arrived)
  ultimately show ?thesis
    using assms(2) arrive(1,2) by (auto dest!: set_update_subset_insert [THEN subsetD])
next
  case (close i l ph)
  have "phase_ok (l, ph)" using assms(2) close(3,4) by (metis nth_mem)
  then have "phase_ok (l\<lparr>finished := True\<rparr>, ph)"
    by (simp add: phase_ok_def split: phase.splits)
  moreover have "server_step B (atomic_view h) (Ended i) (atomic_view h')"
    using server_step.close [of i "atomic_view h" "settle l ph" B] close
    by (simp add: atomic_view_update settle_arrived)
  ultimately show ?thesis
    using assms(2) close(1,2) by (auto dest!: set_update_subset_insert [THEN subsetD])
next
  case (receive i l m s)
  from received_message [OF receive(6)] obtain rest where rest: "incoming l = message_bytes m @ rest" "message_fits m"
      and s: "s = (as_sconn l (worker_db h))\<lparr>incoming := rest\<rparr>"
    by (auto simp: as_sconn_def)
  have "settle (put_sconn l (Inr ()) s) (Holding m) = settle l Reading"
    using receive(5) rest by (simp add: s put_sconn_def as_sconn_def)
  from same_view [OF receive(3,4) this] have "atomic_view h' = atomic_view h" by (simp add: receive(2))
  moreover have "phase_ok (put_sconn l (Inr ()) s, Holding m)"
    using rest(2) by (simp add: phase_ok_def put_sconn_def)
  ultimately show ?thesis
    using assms(2) receive(1,2) by (auto dest!: set_update_subset_insert [THEN subsetD])
next
  case (transact i l m r d)
  have "phase_ok (l, Holding m)" using assms(2) transact(3,4) by (metis nth_mem)
  then have l: "live l" "message_fits m" by (simp_all add: phase_ok_def)
  then have "phase_ok (l, Answering r)" by (simp add: phase_ok_def)
  with transaction_is_call [OF transact(3,4) l transact(5)] show ?thesis
    using assms(2) transact(1,2) by (auto dest!: set_update_subset_insert [THEN subsetD])
next
  case (respond i l r res s)
  have "settle (put_sconn l res s) Reading = settle l (Answering r)"
    using settle_respond [OF respond(5)] by simp
  from same_view [OF respond(3,4) this] have "atomic_view h' = atomic_view h" by (simp add: respond(2))
  then show ?thesis
    using assms(2) respond(1,2) by (auto simp: phase_ok_def dest!: set_update_subset_insert [THEN subsetD])
next
  case (hang_up i l e s)
  from hang_up_is_call [OF hang_up(3-7)] show ?thesis
    using assms(2) hang_up(1,2) by (auto simp: phase_ok_def dest!: set_update_subset_insert [THEN subsetD])
qed

lemma working_serves:
  "working B d0 log h \<Longrightarrow> serving B d0 log (atomic_view h) \<and> (\<forall>w \<in> set (workers h). phase_ok w)"
proof (induction rule: working.induct)
  case start
  show ?case by (simp add: atomic_view_def serving.start)
next
  case (handled log h i m r h')
  with worker_step_simulated [OF handled.hyps(2)] show ?case by (auto intro: serving.handled)
next
  case (other log h ev h')
  with worker_step_simulated [OF other.hyps(2)] show ?case
    by (cases ev) (auto intro: serving.other)
qed

section \<open>Every atomic run\<close>

text \<open>The server between two calls on every connection.\<close>

definition all_reading :: "'d server_state \<Rightarrow> 'd worker_state" where
  "all_reading g = \<lparr>worker_db = shared_db g, workers = map (\<lambda>l. (l, Reading)) (links g)\<rparr>"

lemma all_reading_simps [simp]:
  "worker_db (all_reading g) = shared_db g" "length (workers (all_reading g)) = length (links g)"
  "i < length (links g) \<Longrightarrow> workers (all_reading g) ! i = (links g ! i, Reading)"
  by (simp_all add: all_reading_def)

lemma all_reading_update:
  "all_reading (g\<lparr>links := (links g)[i := l]\<rparr>) =
    (all_reading g)\<lparr>workers := (workers (all_reading g))[i := (l, Reading)]\<rparr>"
  "all_reading (g\<lparr>shared_db := d, links := (links g)[i := l]\<rparr>) =
    (all_reading g)\<lparr>worker_db := d, workers := (workers (all_reading g))[i := (l, Reading)]\<rparr>"
  "all_reading (g\<lparr>links := links g @ [l]\<rparr>) =
    (all_reading g)\<lparr>workers := workers (all_reading g) @ [(l, Reading)]\<rparr>"
  by (simp_all add: all_reading_def map_update)

lemma atomic_view_all_reading [simp]: "atomic_view (all_reading g) = g"
  by (simp add: atomic_view_def all_reading_def comp_def)

text \<open>A call is its three stages with nothing in between.\<close>

lemma call_in_stages:
  assumes "working B d0 log (all_reading g)" and "i < length (links g)" and "live (links g ! i)"
    and "incoming (links g ! i) = message_bytes m @ rest" and "message_fits m"
    and "Handle B (as_sconn (links g ! i) (shared_db g)) = (res, s)"
  shows "working B d0 (log @ [(i, m, fst (perform B m (shared_db g)))])
    (all_reading (g\<lparr>shared_db := db s, links := (links g)[i := put_sconn (links g ! i) res s]\<rparr>))"
proof -
  let ?l = "links g ! i" and ?h = "all_reading g"
  let ?l1 = "?l\<lparr>incoming := rest\<rparr>"
  let ?h1 = "?h\<lparr>workers := (workers ?h)[i := (?l1, Holding m)]\<rparr>"
  obtain r d where p: "perform B m (shared_db g) = (r, d)" by fastforce
  let ?h2 = "?h1\<lparr>worker_db := d, workers := (workers ?h1)[i := (?l1, Answering r)]\<rparr>"
  have rcv: "receive (as_sconn ?l (worker_db ?h)) = (Inr m, (as_sconn ?l (shared_db g))\<lparr>incoming := rest\<rparr>)"
    using receive_message [of "as_sconn ?l (shared_db g)" m rest] assms(4,5) by (simp add: as_sconn_def)
  have l1: "put_sconn ?l (Inr ()) ((as_sconn ?l (shared_db g))\<lparr>incoming := rest\<rparr>) = ?l1"
    using assms(3) by (simp add: put_sconn_def as_sconn_def)
  have w1: "working B d0 log ?h1"
    using working.other [OF assms(1) worker_step.receive [OF _ _ assms(3) rcv]] assms(2) l1 by simp
  have "transact B m (worker_db ?h1) = (Inr r, d)" using p by (simp add: transact_perform)
  from working.handled [OF w1 worker_step.transact [where i = i and l = ?l1, OF _ _ this]] assms(2)
  have w2: "working B d0 (log @ [(i, m, r)]) ?h2" by simp
  have "Handle B (as_sconn ?l (shared_db g)) = respond r (as_sconn ?l1 d)"
    using Handle_message [of "as_sconn ?l (shared_db g)" m rest B] assms(4,5) p
    by (simp add: as_sconn_def respond_def)
  then have rsp: "respond r (as_sconn ?l1 (worker_db ?h2)) = (res, s)" using assms(6) by simp
  have db: "db s = d"
    using rsp by (cases "length (response_bytes r) \<le> room ?l") (auto simp: respond_def run_send as_sconn_def)
  have l2: "put_sconn ?l1 res s = put_sconn ?l res s" by (simp add: put_sconn_def)
  from working.other [OF w2 worker_step.respond [where i = i and l = ?l1, OF _ _ rsp]] assms(2) show ?thesis
    by (simp add: all_reading_update p db l2)
qed

lemma hang_up_in_stages:
  assumes "i < length (links g)" and "live (links g ! i)" "finished (links g ! i)"
    and "\<not> complete (incoming (links g ! i))"
    and "Handle B (as_sconn (links g ! i) (shared_db g)) = (res, s)"
  shows "worker_step B (all_reading g) (Some (HungUp i))
    (all_reading (g\<lparr>shared_db := db s, links := (links g)[i := put_sconn (links g ! i) res s]\<rparr>))"
proof -
  let ?s = "as_sconn (links g ! i) (shared_db g)"
  have "\<not> complete (incoming ?s)" using assms(4) by (simp add: as_sconn_def)
  from receive_incomplete [OF this] obtain e where e: "receive ?s = (Inl e, ?s\<lparr>incoming := []\<rparr>)" by blast
  then have rs: "res = Inl e" "s = ?s\<lparr>incoming := []\<rparr>"
    using assms(5) by (simp_all add: Handle_stages run_bind)
  then have db: "db s = shared_db g" by (simp add: as_sconn_def)
  have upd: "g\<lparr>shared_db := shared_db g, links := x\<rparr> = g\<lparr>links := x\<rparr>" for x by simp
  have "receive ?s = (Inl e, s)" using e rs(2) by simp
  with worker_step.hang_up [of i "all_reading g" "links g ! i" e s B] assms(1-3) rs(1) show ?thesis
    by (simp add: db upd all_reading_update)
qed

lemma serving_works: "serving B d0 log g \<Longrightarrow> working B d0 log (all_reading g)"
proof (induction rule: serving.induct)
  case start
  show ?case using working.start [of B d0] by (simp add: all_reading_def)
next
  case (handled log g i m r g')
  from handled.hyps(2) show ?case
    by (rule handled_stepE) (use call_in_stages [OF handled.IH] in auto)
next
  case (other log g ev g')
  have "worker_step B (all_reading g) (Some ev) (all_reading g')"
    using other.hyps(2)
  proof cases
    case (accept n)
    then show ?thesis using worker_step.accept [of B "all_reading g" n] by (simp add: all_reading_update)
  next
    case (arrive i l b)
    then show ?thesis
      using worker_step.arrive [of i "all_reading g" l Reading B b] by (simp add: all_reading_update)
  next
    case (close i l)
    then show ?thesis
      using worker_step.close [of i "all_reading g" l Reading B] by (simp add: all_reading_update)
  next
    case (hang_up i l r s)
    then show ?thesis using hang_up_in_stages [of i g B r s] by simp
  qed (use other.hyps(3) in simp)
  from working.other [OF other.IH this] other.hyps(3) show ?case by simp
qed

section \<open>Properties\<close>

text \<open>What every interleaved run has: the responses and the database of the messages taken one after the
  other, in the order of their transactions.\<close>

lemma working_is_sequential:
  assumes "working B d0 log h"
  shows "performs B (map (fst \<circ> snd) log) d0 = (map (snd \<circ> snd) log, worker_db h)"
  using working_serves [OF assms] serving_inv [of B d0 log "atomic_view h"] by (simp add: server_inv_def)

text \<open>C19. A call of \<open>Handle\<close> is atomic: the runs of the server in which other connections are served
  between reading a message, its transaction and sending the response have the same messages and
  responses in the same order, and the same database and connections, as the runs in which every
  call is one step; a message that is held counts as unread and a pending response as sent.\<close>

theorem interleaved_calls_are_atomic:
  "serving B d0 log g \<longleftrightarrow> (\<exists>h. working B d0 log h \<and> atomic_view h = g)"
  using working_serves [of B d0 log] serving_works [of B d0 log g] atomic_view_all_reading by metis

end
