(* ===== verification/Netstream.thy ===== *)
theory Netstream
  imports Os Wire
begin

text \<open>
  \<open>internal/client/netstream/netstream.go\<close>: copying a file to a connection and a stream into a
  file. A stream is the bytes that arrive and the error it ends with, \<open>None\<close> for the end of file.
\<close>

type_synonym stream = "bytes \<times> err option"

definition FileSender :: "disk \<Rightarrow> gostr \<Rightarrow> (os \<times> 'a conn_scheme, unit) prog" where
  "FileSender D filename s =
     (case s of (w, c) \<Rightarrow>
       (case os_ReadFile D filename w of
          (Inl e, w') \<Rightarrow> (Inl e, (w', c))
        | (Inr b, w') \<Rightarrow>
            (case conn_Write b c of ((n, e), c') \<Rightarrow>
              (case e of None \<Rightarrow> (Inr (), (w', c')) | Some e \<Rightarrow> (Inl e, (w', c'))))))"

text \<open>\<open>io.Copy\<close> writes what has arrived before it reports a read error.\<close>

definition FileReceiver :: "disk \<Rightarrow> gostr \<Rightarrow> stream \<Rightarrow> (os, unit) prog" where
  "FileReceiver D filename stream =
     (let safename = path_Base filename in
      bindE (os_Create D safename) (\<lambda>_.
      bindE (os_Append D safename (fst stream)) (\<lambda>_.
      case snd stream of None \<Rightarrow> ret () | Some e \<Rightarrow> throw e)))"

lemma os_Create_frame:
  "os_Create D p s = (r, s') \<Longrightarrow> os_dirs s' = os_dirs s \<and> os_env s' = os_env s \<and>
     (\<forall>q. q \<noteq> place D p \<longrightarrow> os_files s' q = os_files s q)"
  by (auto simp: os_Create_def split: option.splits if_splits)

lemma os_Append_frame:
  "os_Append D p b s = (r, s') \<Longrightarrow> os_dirs s' = os_dirs s \<and> os_env s' = os_env s \<and>
     (\<forall>q. q \<noteq> place D p \<longrightarrow> os_files s' q = os_files s q)"
  by (auto simp: os_Append_def Let_def split: option.splits)

lemma FileReceiver_frame:
  assumes "FileReceiver D f st s = (r, s')"
  shows "os_dirs s' = os_dirs s" and "q \<noteq> place D (path_Base f) \<Longrightarrow> os_files s' q = os_files s q"
proof -
  obtain r1 t where 1: "os_Create D (path_Base f) s = (r1, t)" by fastforce
  obtain r2 u where 2: "os_Append D (path_Base f) (fst st) t = (r2, u)" by fastforce
  have "s' = t \<or> s' = u"
    using assms by (auto simp: FileReceiver_def Let_def run_bind 1 2 split: sum.splits option.splits)
  with os_Create_frame [OF 1] os_Append_frame [OF 2]
  show "os_dirs s' = os_dirs s" "q \<noteq> place D (path_Base f) \<Longrightarrow> os_files s' q = os_files s q"
    by auto
qed

lemma FileReceiver_Inr:
  assumes "FileReceiver D f st s = (Inr u, s')"
  shows "os_ReadFile D (path_Base f) s' = (Inr (fst st), s')" and "snd st = None"
proof -
  have "os_WriteFile D (path_Base f) (fst st) s = (Inr (), s') \<and> snd st = None"
    using assms by (auto simp: FileReceiver_def Let_def os_WriteFile_def bindE_Inr_iff split: option.splits)
  then show "os_ReadFile D (path_Base f) s' = (Inr (fst st), s')" "snd st = None"
    by (auto intro: ReadFile_WriteFile)
qed

section \<open>Properties\<close>

text \<open>C40. Whatever name it is given, the receiver touches one file, whose name is a single path element: no
  received file is written outside the working directory.\<close>

theorem receiver_stays_in_directory:
  assumes "FileReceiver D f st s = (r, s')"
  shows "(slash \<notin> set (path_Base f) \<or> path_Base f = [slash]) \<and> os_dirs s' = os_dirs s \<and>
    (\<forall>q. q \<noteq> place D (path_Base f) \<longrightarrow> os_files s' q = os_files s q)"
  using path_Base_one_element [of f] FileReceiver_frame [OF assms] by simp

definition working_dir :: os where
  "working_dir = \<lparr>os_env = Map.empty, os_files = [lit ''x'' \<mapsto> [1, 2, 3]], os_dirs = {dot}\<rparr>"

theorem receiver_stays_in_directory_witness:
  "\<exists>r s'. FileReceiver plain_disk (lit ''../../etc/passwd'') ([7], None) working_dir = (r, s') \<and>
    os_files s' (lit ''../../etc/passwd'') = None \<and> path_Base (lit ''../../etc/passwd'') = lit ''passwd''"
proof -
  obtain r s' where run: "FileReceiver plain_disk (lit ''../../etc/passwd'') ([7], None) working_dir = (r, s')"
    by fastforce
  have base: "path_Base (lit ''../../etc/passwd'') = lit ''passwd''" by code_simp
  from receiver_stays_in_directory [OF run] base run show ?thesis
    by (auto simp: working_dir_def)
qed

text \<open>C39. A file sent over a connection that takes all of it arrives as it was: the receiver's copy has the
  sender's content.\<close>

theorem transfer_roundtrip:
  assumes "FileSender D f (w, c) = (Inr (), (w', c'))" and "outgoing c = []"
    and "FileReceiver D' g (outgoing c', None) v = (Inr (), v')"
  shows "os_ReadFile D f w = (Inr (outgoing c'), w) \<and> os_ReadFile D' (path_Base g) v' = (Inr (outgoing c'), v') \<and> w' = w"
proof -
  obtain b where b: "os_ReadFile D f w = (Inr b, w')"
    using assms(1) by (auto simp: FileSender_def split: sum.splits prod.splits option.splits)
  with assms(1,2) have "outgoing c' = b" and "w' = w"
    by (auto simp: FileSender_def conn_Write_def split: if_splits)
  with b FileReceiver_Inr [OF assms(3)] show ?thesis by simp
qed

theorem transfer_roundtrip_witness:
  "\<exists>c' v'. FileSender plain_disk (lit ''x'') (working_dir, \<lparr>incoming = [], room = 9, outgoing = []\<rparr>) =
      (Inr (), (working_dir, c')) \<and>
    FileReceiver plain_disk (lit ''y'') (outgoing c', None) working_dir = (Inr (), v') \<and>
    os_ReadFile plain_disk (lit ''y'') v' = (Inr [1, 2, 3], v')"
proof -
  let ?c = "\<lparr>incoming = [], room = 9, outgoing = []\<rparr>" and ?c' = "\<lparr>incoming = [], room = 6, outgoing = [1, 2, 3]\<rparr>"
  have x: "lit ''x'' \<noteq> dot" "lit ''y'' \<noteq> dot" by (simp_all add: lit_def)
  have y: "path_Base (lit ''y'') = lit ''y''" "path_Dir (lit ''y'') = dot" by code_simp+
  have s: "FileSender plain_disk (lit ''x'') (working_dir, ?c) = (Inr (), (working_dir, ?c'))"
    using x by (simp add: FileSender_def os_ReadFile_def working_dir_def conn_Write_def)
  obtain v' where r: "FileReceiver plain_disk (lit ''y'') (outgoing ?c', None) working_dir = (Inr (), v')"
    using x y by (simp add: FileReceiver_def Let_def run_bind os_Create_def os_Append_def working_dir_def)
  from transfer_roundtrip [OF s _ r] s r y show ?thesis by auto
qed

end
