(* ===== verification/App.thy ===== *)
theory App
  imports Examples Netstream
begin

text \<open>
  \<open>internal/client/app/app.go\<close>: the client object the command line works with. It holds the user
  who is logged in and the three services, which are made together the first time they are needed
  and work on the remote storage.
\<close>

section \<open>The client\<close>

text \<open>
  \<open>cl_user\<close> is the pointer \<open>user\<close>; \<open>cl_ready\<close> says that the three service pointers are not nil.
  The rest is what the services work on: the remote package's variables with the server behind
  them, and the random source.
\<close>

record 'd client =
  cl_user :: "User option"
  cl_ready :: bool
  cl_world :: "'d rworld"
  cl_tick :: nat

definition new_client :: "'d rworld \<Rightarrow> nat \<Rightarrow> 'd client" where
  "new_client w t = \<lparr>cl_user = None, cl_ready = False, cl_world = w, cl_tick = t\<rparr>"

definition nil_pointer :: err where
  "nil_pointer = Panic ''invalid memory address or nil pointer dereference''"

definition ensureServices :: "('d client, unit) prog" where
  "ensureServices = modify (\<lambda>c. c\<lparr>cl_ready := True\<rparr>)"

text \<open>A method of a service, with \<open>u\<close> behind its user argument; what the method leaves there is returned.\<close>

definition in_service :: "User \<Rightarrow> ('d rworld st, 'a) prog \<Rightarrow> 'd client \<Rightarrow> (err + 'a) \<times> User \<times> 'd client" where
  "in_service u m c =
     (case m \<lparr>backing = cl_world c, tick = cl_tick c, userdata = u\<rparr> of
        (r, s) \<Rightarrow> (r, userdata s, c\<lparr>cl_world := backing s, cl_tick := tick s\<rparr>))"

text \<open>\<open>InitUser\<close> and \<open>GetUser\<close> take no user: \<open>c.user\<close> is replaced when they succeed.\<close>

definition app_InitUser ::
  "provider \<Rightarrow> 'd badger \<Rightarrow> network \<Rightarrow> gostr \<Rightarrow> gostr \<Rightarrow> ('d client, unit) prog"
where
  "app_InitUser P B N username password =
     bindE ensureServices (\<lambda>_ c.
     case in_service user_zero (InitUser P (remote_service B N) username password) c of
       (Inl e, _, c') \<Rightarrow> (Inl e, c')
     | (Inr user, _, c') \<Rightarrow> (Inr (), c'\<lparr>cl_user := Some user\<rparr>))"

definition app_GetUser ::
  "provider \<Rightarrow> 'd badger \<Rightarrow> network \<Rightarrow> gostr \<Rightarrow> gostr \<Rightarrow> ('d client, unit) prog"
where
  "app_GetUser P B N username password =
     bindE ensureServices (\<lambda>_ c.
     case in_service user_zero (GetUser P (remote_service B N) username password) c of
       (Inl e, _, c') \<Rightarrow> (Inl e, c')
     | (Inr user, _, c') \<Rightarrow> (Inr (), c'\<lparr>cl_user := Some user\<rparr>))"

text \<open>
  The other methods pass \<open>c.user\<close> on. A method that reads a field of the user first panics when
  there is none, before it has touched anything.
\<close>

definition with_user :: "('d rworld st, 'a) prog \<Rightarrow> ('d client, 'a) prog" where
  "with_user m c =
     (case cl_user c of
        None \<Rightarrow> (Inl nil_pointer, c)
      | Some u \<Rightarrow> (case in_service u m c of (r, u', c') \<Rightarrow> (r, c'\<lparr>cl_user := Some u'\<rparr>)))"

definition app_StoreFile ::
  "provider \<Rightarrow> 'd badger \<Rightarrow> network \<Rightarrow> gostr \<Rightarrow> bytes \<Rightarrow> ('d client, unit) prog"
where
  "app_StoreFile P B N filename content = with_user (StoreFile P (remote_service B N) filename content)"

definition app_LoadFile :: "provider \<Rightarrow> 'd badger \<Rightarrow> network \<Rightarrow> gostr \<Rightarrow> ('d client, bytes) prog" where
  "app_LoadFile P B N filename = with_user (LoadFile P (remote_service B N) filename)"

text \<open>\<open>AppendToFile\<close> looks at the content first.\<close>

definition app_AppendToFile ::
  "provider \<Rightarrow> 'd badger \<Rightarrow> network \<Rightarrow> gostr \<Rightarrow> bytes option \<Rightarrow> ('d client, unit) prog"
where
  "app_AppendToFile P B N filename content =
     bindE (guardE (content \<noteq> None) (Msg ''content cannot be nil'' [])) (\<lambda>_.
     with_user (AppendToFile P (remote_service B N) filename content))"

definition app_CreateInvitation ::
  "provider \<Rightarrow> 'd badger \<Rightarrow> network \<Rightarrow> gostr \<Rightarrow> gostr \<Rightarrow> ('d client, uuid) prog"
where
  "app_CreateInvitation P B N filename recipientUsername =
     with_user (CreateInvitation P (remote_service B N) filename recipientUsername)"

text \<open>
  \<open>AcceptInvitation\<close> loads and verifies the invitation before it reads the user; with no services
  it panics at the first access to the storage.
\<close>

definition check_invitation :: "provider \<Rightarrow> 'w Service \<Rightarrow> gostr \<Rightarrow> uuid \<Rightarrow> ('w st, bytes) prog" where
  "check_invitation P svc senderUsername invitationPtr =
     bindE (wrapE ''failed to load invitation'' (on_backing (storage_Get (storage svc) invitationPtr))) (\<lambda>r.
     bindE (someE (Msg ''invitation %s not found'' [uuid_text P invitationPtr]) r) (\<lambda>invitationPayload.
     bindE (guardE (\<not> length invitationPayload < ed25519_SignatureSize)
         (Msg ''invitation payload too short'' [])) (\<lambda>_.
     let sigOffset = length invitationPayload - ed25519_SignatureSize;
         ciphertext = take sigOffset invitationPayload;
         signature = drop sigOffset invitationPayload in
     bindE (wrapE ''failed to load sender public key''
         (on_backing (keyStore_Get (keyStore svc) (senderUsername @ lit ''_sig_pub'')))) (\<lambda>r.
     bindE (someE (Msg ''sender %s public key not found in keystore'' [senderUsername]) r) (\<lambda>senderVerifyKey.
     bindE (guardE (verify P senderVerifyKey ciphertext signature = Inr ())
         (Msg ''invitation signature verification failed for sender %s'' [senderUsername])) (\<lambda>_.
     ret ciphertext))))))"

lemma AcceptInvitation_check_fails:
  assumes "check_invitation P svc sender i s = (Inl e, s')"
  shows "AcceptInvitation P svc sender i f s = (Inl e, s')"
proof -
  obtain r1 s1 where 1: "on_backing (storage_Get (storage svc) i) s = (r1, s1)" by fastforce
  obtain r2 s2 where 2: "on_backing (keyStore_Get (keyStore svc) (sender @ lit ''_sig_pub'')) s1 = (r2, s2)" by fastforce
  note run = AcceptInvitation_def check_invitation_def run_bind run_wrap run_guard Let_def 1
  show ?thesis
  proof (cases "\<exists>p. r1 = Inr (Some p) \<and> \<not> length p < ed25519_SignatureSize")
    case False
    then consider e where "r1 = Inl e" | "r1 = Inr None" | p where "r1 = Inr (Some p)" "length p < ed25519_SignatureSize"
      by (cases r1; cases "projr r1") auto
    then show ?thesis using assms by cases (simp_all add: run)
  next
    case True
    then obtain p where p: "r1 = Inr (Some p)" "\<not> length p < ed25519_SignatureSize" by blast
    consider e where "r2 = Inl e" | "r2 = Inr None" | k where "r2 = Inr (Some k)"
      by (cases r2; cases "projr r2") auto
    then show ?thesis using assms p by cases (simp_all add: run 2 split: if_splits)
  qed
qed

definition app_AcceptInvitation ::
  "provider \<Rightarrow> 'd badger \<Rightarrow> network \<Rightarrow> gostr \<Rightarrow> uuid \<Rightarrow> gostr \<Rightarrow> ('d client, unit) prog"
where
  "app_AcceptInvitation P B N senderUsername invitationPtr filename c =
     (case cl_user c of
        Some u \<Rightarrow> with_user (AcceptInvitation P (remote_service B N) senderUsername invitationPtr filename) c
      | None \<Rightarrow>
          if \<not> cl_ready c then (Inl nil_pointer, c)
          else (case in_service user_zero (check_invitation P (remote_service B N) senderUsername invitationPtr) c of
              (Inl e, _, c') \<Rightarrow> (Inl e, c')
            | (Inr _, _, c') \<Rightarrow> (Inl nil_pointer, c')))"

definition app_RevokeAccess ::
  "provider \<Rightarrow> 'd badger \<Rightarrow> network \<Rightarrow> gostr \<Rightarrow> gostr \<Rightarrow> ('d client, unit) prog"
where
  "app_RevokeAccess P B N filename recipientUsername =
     with_user (RevokeAccess P (remote_service B N) filename recipientUsername)"

definition app_ListFiles :: "provider \<Rightarrow> ('d client, gostr list) prog" where
  "app_ListFiles P c =
     (case cl_user c of None \<Rightarrow> (Inr [], c) | Some _ \<Rightarrow> with_user (ListFiles P) c)"

definition app_Connect :: "gostr \<Rightarrow> bool \<Rightarrow> ('d client, unit) prog" where
  "app_Connect addr tlsEnabled c =
     (case Connect addr tlsEnabled (cl_world c) of (r, w) \<Rightarrow> (r, c\<lparr>cl_world := w\<rparr>))"

definition app_Disconnect :: "('d client, unit) prog" where
  "app_Disconnect c = (case Disconnect (cl_world c) of (r, w) \<Rightarrow> (r, c\<lparr>cl_world := w\<rparr>))"

text \<open>
  \<open>ReadFileTLS\<close>: what a new connection to the address delivers is a parameter, or the error of
  \<open>Dial\<close>. Nothing is sent on the connection.
\<close>

type_synonym dialer = "bool \<Rightarrow> gostr \<Rightarrow> err + stream"

definition ReadFileTLS :: "disk \<Rightarrow> dialer \<Rightarrow> gostr \<Rightarrow> gostr \<Rightarrow> bool \<Rightarrow> (os, unit) prog" where
  "ReadFileTLS D dial_stream filename addr tlsEnabled =
     bindE (liftE (dial_stream tlsEnabled addr)) (\<lambda>conn. FileReceiver D filename conn)"

definition ReadFile :: "disk \<Rightarrow> dialer \<Rightarrow> gostr \<Rightarrow> gostr \<Rightarrow> (os, unit) prog" where
  "ReadFile D dial_stream filename addr = ReadFileTLS D dial_stream filename addr True"

section \<open>Who is logged in\<close>

text \<open>The calls a program can make on a client, and the clients it can get.\<close>

datatype client_call =
    InitCall gostr gostr
  | GetCall gostr gostr
  | StoreCall gostr bytes
  | LoadCall gostr
  | AppendCall gostr "bytes option"
  | InviteCall gostr gostr
  | AcceptCall gostr uuid gostr
  | RevokeCall gostr gostr
  | ListCall

definition forget :: "('s, 'a) prog \<Rightarrow> ('s, unit) prog" where
  "forget m = bindE m (\<lambda>_. ret ())"

fun client_step :: "provider \<Rightarrow> 'd badger \<Rightarrow> network \<Rightarrow> client_call \<Rightarrow> ('d client, unit) prog" where
  "client_step P B N (InitCall n pw) = app_InitUser P B N n pw"
| "client_step P B N (GetCall n pw) = app_GetUser P B N n pw"
| "client_step P B N (StoreCall f b) = app_StoreFile P B N f b"
| "client_step P B N (LoadCall f) = forget (app_LoadFile P B N f)"
| "client_step P B N (AppendCall f b) = app_AppendToFile P B N f b"
| "client_step P B N (InviteCall f r) = forget (app_CreateInvitation P B N f r)"
| "client_step P B N (AcceptCall n i f) = app_AcceptInvitation P B N n i f"
| "client_step P B N (RevokeCall f r) = app_RevokeAccess P B N f r"
| "client_step P B N ListCall = forget (app_ListFiles P)"

inductive client_reach :: "provider \<Rightarrow> 'd badger \<Rightarrow> network \<Rightarrow> 'd client \<Rightarrow> bool" for P B N where
  fresh: "client_reach P B N (new_client w t)"
| call: "client_reach P B N c \<Longrightarrow> client_step P B N k c = (r, c') \<Longrightarrow> client_reach P B N c'"

lemma in_service_ready: "in_service u m c = (r, u', c') \<Longrightarrow> cl_ready c' = cl_ready c \<and> cl_user c' = cl_user c"
  by (auto simp: in_service_def split: prod.splits)

lemma with_user_ready:
  "with_user m c = (r, c') \<Longrightarrow> cl_ready c' = cl_ready c \<and> (cl_user c' = None \<longleftrightarrow> cl_user c = None)"
  by (auto simp: with_user_def dest: in_service_ready split: option.splits prod.splits)

lemma forget_state: "forget m s = (r, s') \<Longrightarrow> \<exists>r'. m s = (r', s')"
  by (auto simp: forget_def bindE_def split: prod.splits sum.splits)

lemma login_ready:
  "app_InitUser P B N n pw c = (r, c') \<Longrightarrow> cl_ready c'" "app_GetUser P B N n pw c = (r, c') \<Longrightarrow> cl_ready c'"
  unfolding app_InitUser_def app_GetUser_def
  by (auto simp: run_bind ensureServices_def dest!: in_service_ready split: sum.splits prod.splits)

lemma Append_ready:
  "app_AppendToFile P B N f b c = (r, c') \<Longrightarrow> cl_ready c' = cl_ready c \<and> (cl_user c' = None \<longleftrightarrow> cl_user c = None)"
  by (auto simp: app_AppendToFile_def run_bind run_guard split: if_splits dest: with_user_ready)

lemma Accept_ready:
  "app_AcceptInvitation P B N n i f c = (r, c') \<Longrightarrow> cl_ready c' = cl_ready c \<and> (cl_user c' = None \<longleftrightarrow> cl_user c = None)"
  by (auto simp: app_AcceptInvitation_def split: option.splits if_splits sum.splits prod.splits
      dest: with_user_ready in_service_ready)

lemma List_ready:
  "app_ListFiles P c = (r, c') \<Longrightarrow> cl_ready c' = cl_ready c \<and> (cl_user c' = None \<longleftrightarrow> cl_user c = None)"
  by (auto simp: app_ListFiles_def split: option.splits dest: with_user_ready)

lemma client_step_ready:
  assumes "client_step P B N k c = (r, c')" and "cl_user c \<noteq> None \<longrightarrow> cl_ready c"
  shows "cl_user c' \<noteq> None \<longrightarrow> cl_ready c'"
  using assms
  by (cases k) (auto simp: app_StoreFile_def app_LoadFile_def app_CreateInvitation_def app_RevokeAccess_def
      dest!: forget_state dest: with_user_ready login_ready Append_ready Accept_ready List_ready)

lemma client_reach_ready: "client_reach P B N c \<Longrightarrow> cl_user c \<noteq> None \<longrightarrow> cl_ready c"
proof (induction rule: client_reach.induct)
  case (fresh w t)
  show ?case by (simp add: new_client_def)
next
  case (call c k r c')
  then show ?case by (metis client_step_ready)
qed

lemma no_user_panics:
  assumes "cl_user c = None"
  shows "with_user m c = (Inl nil_pointer, c)"
  using assms by (simp add: with_user_def)

section \<open>Calls keep the user's name and keys\<close>

text \<open>\<open>keeps_identity m\<close>: whether it fails or not, \<open>m\<close> changes nothing of the user but the file map.\<close>

definition identity_of :: "User \<Rightarrow> User" where
  "identity_of u = u\<lparr>Files := None\<rparr>"

definition keeps_identity :: "('w st, 'a) prog \<Rightarrow> bool" where
  "keeps_identity m \<longleftrightarrow> (\<forall>s. identity_of (userdata (snd (m s))) = identity_of (userdata s))"

named_theorems identity_intros \<open>compositional rules for \<open>keeps_identity\<close>\<close>

lemma keeps_identityD:
  "keeps_identity m \<Longrightarrow> m s = (r, s') \<Longrightarrow> identity_of (userdata s') = identity_of (userdata s)"
  unfolding keeps_identity_def by (metis snd_conv)

lemma identity_bind [identity_intros]:
  assumes "keeps_identity m" and "\<And>x. keeps_identity (f x)"
  shows "keeps_identity (bindE m f)"
  unfolding keeps_identity_def
proof
  fix s
  obtain r s1 where m: "m s = (r, s1)" by fastforce
  have "identity_of (userdata (snd (f x s1))) = identity_of (userdata s1)" for x
    using assms(2) unfolding keeps_identity_def by blast
  then show "identity_of (userdata (snd (bindE m f s))) = identity_of (userdata s)"
    using keeps_identityD [OF assms(1) m] m by (simp add: run_bind split: sum.split)
qed

lemma identity_wrap [identity_intros]: "keeps_identity m \<Longrightarrow> keeps_identity (wrapE c m)"
  by (simp add: keeps_identity_def run_wrap split: sum.split prod.split) (metis snd_conv)

lemma identity_wrapO [identity_intros]: "keeps_identity m \<Longrightarrow> keeps_identity (wrapO c m)"
  by (cases c) (simp_all add: wrapO_def identity_wrap)

lemma identity_basic [identity_intros]:
  "keeps_identity (ret x)" "keeps_identity (throw e)" "keeps_identity (liftE r)" "keeps_identity (gets g)"
  "keeps_identity (someE e v)" "keeps_identity (guardE b e)" "keeps_identity (on_backing op)"
  "keeps_identity (draw h)" "keeps_identity (set_file f i)" "keeps_identity make_files"
  by (simp_all add: keeps_identity_def someE_def guardE_def on_backing_def draw_def set_file_def make_files_def
      identity_of_def split: option.split prod.split)

lemma identity_prod [identity_intros]:
  "(\<And>x y. keeps_identity (f x y)) \<Longrightarrow> keeps_identity (case p of (x, y) \<Rightarrow> f x y)"
  by (cases p) simp

lemma identity_case [identity_intros]:
  "keeps_identity m \<Longrightarrow> (\<And>x. keeps_identity (f x)) \<Longrightarrow> keeps_identity (case v of None \<Rightarrow> m | Some x \<Rightarrow> f x)"
  by (cases v) simp_all

lemma identity_crypto [identity_intros]:
  "keeps_identity (uuidNew P)" "keeps_identity (randomBytes P n)" "keeps_identity (encryptAndMAC P b ks)"
  "keeps_identity (encryptFor P pk m)" "keeps_identity (saveUser P S u)"
  unfolding uuidNew_def randomBytes_def encryptAndMAC_def encryptFor_def saveUser_def Let_def
  by (intro identity_intros)+

lemma identity_records [identity_intros]:
  "keeps_identity (open_record P S c1 e c2 c3 i ks unm)" "keeps_identity (seal_record P S c4 c5 i ks b)"
  unfolding open_record_def seal_record_def by (intro identity_intros)+

lemma identity_loops [identity_intros]:
  "keeps_identity (store_blocks P S c1 c2 ks bs)" "keeps_identity (load_blocks P S f ks us)"
  "keeps_identity (rekey_blocks P S f old new us)"
  by (induction bs; simp only: store_blocks.simps; intro identity_intros; assumption?)
    (induction us; simp only: load_blocks.simps rekey_blocks.simps; intro identity_intros; assumption?)+

lemma identity_children [identity_intros]: "keeps_identity (rekey_children P S r k cs)"
proof (induction cs)
  case (Cons c cs)
  then show ?case
    by (cases c) (auto simp: Let_def intro!: identity_intros)
qed (simp only: rekey_children.simps identity_basic)

lemma identity_methods [identity_intros]:
  "keeps_identity (StoreFile P svc f b)" "keeps_identity (LoadFile P svc f)" "keeps_identity (AppendToFile P svc f bo)"
  "keeps_identity (ListFiles P)"
  "keeps_identity (CreateInvitation P svc f n)" "keeps_identity (AcceptInvitation P svc n i f)"
  "keeps_identity (RevokeAccess P svc f n)"
  unfolding StoreFile_def LoadFile_def AppendToFile_def ListFiles_def CreateInvitation_def AcceptInvitation_def
    RevokeAccess_def commit_revocation_def Let_def
  by (intro identity_intros)+

lemma with_user_identity:
  assumes "keeps_identity m" and "with_user m c = (r, c')"
  shows "map_option identity_of (cl_user c') = map_option identity_of (cl_user c)"
proof (cases "cl_user c")
  case (Some u)
  obtain r' u' c1 where i: "in_service u m c = (r', u', c1)" by (metis prod_cases3)
  then have "identity_of u' = identity_of u"
    using assms(1) by (auto simp: in_service_def dest!: keeps_identityD split: prod.splits)
  with assms(2) Some i show ?thesis by (auto simp: with_user_def)
qed (use assms(2) in \<open>simp add: with_user_def\<close>)

lemma reads_only_check:
  "keeps (\<lambda>s. server_db (backing s) = d \<and> local_map (backing s) = m)
     (check_invitation P (remote_service B N) n i) (\<lambda>_. True)"
proof -
  have get: "keeps (\<lambda>s. server_db (backing s) = d \<and> local_map (backing s) = m) (on_backing (remote_Get B N k)) (\<lambda>_. True)" for k
    by (auto simp: keeps_def on_backing_def dest: remote_Get_unchanged split: prod.splits)
  show ?thesis
    unfolding check_invitation_def Let_def remote_service_def NewService_simps RemoteStorage_def RemoteKeyStore_def
      StorageService.simps KeyStoreService.simps
    by (rule TrueI get keeps_bind keeps_wrap keeps_some keeps_guard keeps_ret)+
qed

text \<open>Accepting an invitation without a user.\<close>

lemma accept_without_user:
  assumes "app_AcceptInvitation P B N n i f c = (r, c')" and "cl_user c = None"
  shows "(\<exists>e. r = Inl e) \<and> cl_user c' = None \<and> server_db (cl_world c') = server_db (cl_world c) \<and>
    local_map (cl_world c') = local_map (cl_world c) \<and> (cl_ready c \<or> r = Inl nil_pointer \<and> c' = c)"
proof (cases "cl_ready c")
  case False
  with assms show ?thesis by (auto simp: app_AcceptInvitation_def)
next
  case True
  obtain q u c1 where s: "in_service user_zero (check_invitation P (remote_service B N) n i) c = (q, u, c1)"
    by (metis prod_cases3)
  have "(\<exists>e. r = Inl e) \<and> c' = c1"
    using assms True s by (auto simp: app_AcceptInvitation_def split: sum.splits)
  moreover have "server_db (cl_world c1) = server_db (cl_world c) \<and> local_map (cl_world c1) = local_map (cl_world c)"
    using s keepsD [OF reads_only_check [of "server_db (cl_world c)" "local_map (cl_world c)" P B N n i],
        of "\<lparr>backing = cl_world c, tick = cl_tick c, userdata = user_zero\<rparr>"]
    by (auto simp: in_service_def split: prod.splits)
  moreover have "cl_user c1 = None" using in_service_ready [OF s] assms(2) by simp
  ultimately show ?thesis using True by simp
qed

lemma without_user:
  assumes "client_step P B N k c = (r, c')" and "cl_user c = None"
  shows "case k of
        InitCall n pw \<Rightarrow> True
      | GetCall n pw \<Rightarrow> True
      | AppendCall f None \<Rightarrow> r = Inl (Msg ''content cannot be nil'' []) \<and> c' = c
      | AcceptCall n i f \<Rightarrow> (\<exists>e. r = Inl e) \<and> cl_user c' = None \<and>
          server_db (cl_world c') = server_db (cl_world c) \<and> local_map (cl_world c') = local_map (cl_world c) \<and>
          (cl_ready c \<or> r = Inl nil_pointer \<and> c' = c)
      | ListCall \<Rightarrow> app_ListFiles P c = (Inr [], c) \<and> r = Inr () \<and> c' = c
      | _ \<Rightarrow> r = Inl nil_pointer \<and> c' = c"
proof (cases k)
  case (AcceptCall n i f)
  with accept_without_user [OF _ assms(2), of P B N n i f] assms(1) show ?thesis by simp
qed (use assms in \<open>auto simp: no_user_panics app_StoreFile_def app_LoadFile_def app_AppendToFile_def
    app_CreateInvitation_def app_RevokeAccess_def app_ListFiles_def forget_def run_bind run_guard split: option.splits\<close>)

lemma calls_keep_identity:
  assumes "client_step P B N k c = (r, c')"
    and "case k of InitCall n pw \<Rightarrow> r \<noteq> Inr () | GetCall n pw \<Rightarrow> r \<noteq> Inr () | _ \<Rightarrow> True"
  shows "map_option identity_of (cl_user c') = map_option identity_of (cl_user c)"
proof -
  note id = with_user_identity [OF identity_methods(1)] with_user_identity [OF identity_methods(2)]
    with_user_identity [OF identity_methods(3)] with_user_identity [OF identity_methods(4)]
    with_user_identity [OF identity_methods(5)] with_user_identity [OF identity_methods(6)]
    with_user_identity [OF identity_methods(7)]
  show ?thesis
  proof (cases k)
    case (InitCall n pw)
    with assms show ?thesis
      by (auto simp: app_InitUser_def run_bind ensureServices_def dest: in_service_ready split: sum.splits prod.splits)
  next
    case (GetCall n pw)
    with assms show ?thesis
      by (auto simp: app_GetUser_def run_bind ensureServices_def dest: in_service_ready split: sum.splits prod.splits)
  next
    case (AcceptCall n i f)
    with assms(1) show ?thesis
      by (auto simp: app_AcceptInvitation_def dest: id(6) in_service_ready
          split: option.splits if_splits sum.splits prod.splits)
  next
    case ListCall
    with assms(1) obtain r' where "app_ListFiles P c = (r', c')" by (auto dest: forget_state)
    then show ?thesis by (auto simp: app_ListFiles_def dest: id(4) split: option.splits)
  next
    case (AppendCall f b)
    with assms(1) show ?thesis
      by (auto simp: app_AppendToFile_def run_bind run_guard dest: id(3) split: if_splits)
  qed (use assms(1) in \<open>auto simp: app_StoreFile_def app_LoadFile_def app_CreateInvitation_def app_RevokeAccess_def
      dest!: forget_state dest: id\<close>)
qed

section \<open>Clients of one process\<close>

text \<open>
  Without a server address every client of a process works on the process-local map. \<open>mirrors c u m\<close>:
  the state in which a method runs for client \<open>c\<close> and user \<open>u\<close> has the same two maps as \<open>m\<close>.
\<close>

definition mirrors :: "'d client \<Rightarrow> User \<Rightarrow> mworld st \<Rightarrow> bool" where
  "mirrors c u m \<longleftrightarrow> same_offline \<lparr>backing = cl_world c, tick = cl_tick c, userdata = u\<rparr> m"

lemma mirrors_user: "mirrors c u m \<Longrightarrow> userdata m = u"
  by (simp add: mirrors_def same_offline_def as_memory_def)

lemma mirrors_other_user: "mirrors c u m \<Longrightarrow> mirrors c v (m\<lparr>userdata := v\<rparr>)"
  by (simp add: mirrors_def same_offline_def as_memory_def)

lemma mirrors_other_client:
  "mirrors c u m \<Longrightarrow> cl_world c' = cl_world c \<Longrightarrow> cl_tick c' = cl_tick c \<Longrightarrow> mirrors c' u m"
  by (simp add: mirrors_def)

lemma mirror_exists:
  assumes "address (cl_world c) = []"
  obtains m where "mirrors c u m" and "tick m = cl_tick c"
    and "store_data (backing m) = (\<lambda>i. local_map (cl_world c) (data_name i))"
  using assms
  by (intro that [of "\<lparr>backing = \<lparr>store_data = (\<lambda>i. local_map (cl_world c) (data_name i)),
      store_keys = (\<lambda>n. local_map (cl_world c) (key_name n))\<rparr>, tick = cl_tick c, userdata = u\<rparr>"])
    (simp_all add: mirrors_def same_offline_def as_memory_def)

lemma offline_call:
  assumes "refines (\<lambda>t s. same_offline s t) mm rm" and "mirrors c u m" and "mm m = (Inr x, m')"
  obtains c' where "in_service u rm c = (Inr x, userdata m', c')" and "mirrors c' (userdata m') m'"
    and "cl_user c' = cl_user c" and "cl_ready c' = cl_ready c"
proof -
  obtain s' where s': "rm \<lparr>backing = cl_world c, tick = cl_tick c, userdata = u\<rparr> = (Inr x, s')" "same_offline s' m'"
    using refinesD [OF assms(1) assms(2) [unfolded mirrors_def] assms(3)] by blast
  have "userdata s' = userdata m'"
    using s'(2) by (simp add: same_offline_def as_memory_def)
  with s' show thesis
    by (intro that [of "c\<lparr>cl_world := backing s', cl_tick := tick s'\<rparr>"])
      (auto simp: in_service_def mirrors_def same_offline_def as_memory_def)
qed

lemma with_user_offline:
  assumes "refines (\<lambda>t s. same_offline s t) mm rm" and "mirrors c u m" and "cl_user c = Some u"
    and "mm m = (Inr x, m')"
  obtains c' where "with_user rm c = (Inr x, c')" and "mirrors c' (userdata m') m'"
    and "cl_user c' = Some (userdata m')"
proof -
  obtain c1 where i: "in_service u rm c = (Inr x, userdata m', c1)" and r: "mirrors c1 (userdata m') m'"
    using offline_call [OF assms(1,2,4)] by blast
  let ?c = "c1\<lparr>cl_user := Some (userdata m')\<rparr>"
  show thesis
  proof (rule that [of ?c])
    show "with_user rm c = (Inr x, ?c)" using i assms(3) by (simp add: with_user_def)
    show "mirrors ?c (userdata m') m'" by (rule mirrors_other_client [OF r]) simp_all
  qed simp
qed

lemmas offline_methods = offline.from_memory.refines_InitUser offline.from_memory.refines_GetUser
  offline.from_memory.refines_StoreFile offline.from_memory.refines_LoadFile

lemma login_call:
  assumes "refines (\<lambda>t s. same_offline s t) mm rm" and "mirrors c user_zero m" and "mm m = (Inr u, m')"
  shows "\<exists>c'. bindE ensureServices (\<lambda>_ c. case in_service user_zero rm c of
        (Inl e, _, c') \<Rightarrow> (Inl e, c') | (Inr user, _, c') \<Rightarrow> (Inr (), c'\<lparr>cl_user := Some user\<rparr>)) c = (Inr (), c') \<and>
      cl_user c' = Some u \<and> mirrors c' u (m'\<lparr>userdata := u\<rparr>)"
proof -
  have "mirrors (c\<lparr>cl_ready := True\<rparr>) user_zero m"
    by (rule mirrors_other_client [OF assms(2)]) simp_all
  from offline_call [OF assms(1) this assms(3)]
  obtain c1 where i: "in_service user_zero rm (c\<lparr>cl_ready := True\<rparr>) = (Inr u, userdata m', c1)"
      and r: "mirrors c1 (userdata m') m'" by blast
  have "mirrors (c1\<lparr>cl_user := Some u\<rparr>) u (m'\<lparr>userdata := u\<rparr>)"
    by (rule mirrors_other_client [OF mirrors_other_user [OF r]]) simp_all
  with i show ?thesis
    by (intro exI [of _ "c1\<lparr>cl_user := Some u\<rparr>"]) (simp add: run_bind ensureServices_def)
qed

lemmas login_offline =
  login_call [OF offline_methods(1) [folded same_offline_def remote_service_def], folded app_InitUser_def]
  login_call [OF offline_methods(2) [folded same_offline_def remote_service_def], folded app_GetUser_def]

text \<open>In memory: an account is made, a file stored, and both are there at the next login.\<close>

lemma store_then_login:
  assumes "provider_ok P" and "store_data (backing m) (user_id P n) = None" and "utf8_valid n" "utf8_valid f"
    and "int (length b) < 2 ^ 63"
    and fresh: "fresh_uuids P (tick m + 4) (8 + 2 * length (ByteToBlock b)) used"
    and ids: "access_id P n f \<in> used" "user_id P n \<in> used" "access_id P n f \<noteq> user_id P n"
  obtains u m1 m2 where "InitUser P memory_service n pw m = (Inr u, m1)"
    and "StoreFile P memory_service f b (m1\<lparr>userdata := u\<rparr>) = (Inr (), m2)"
    and "GetUser P memory_service n pw (m2\<lparr>userdata := v\<rparr>) = (Inr (with_file P u f), m2\<lparr>userdata := v\<rparr>)"
    and "LoadFile P memory_service f (m2\<lparr>userdata := with_file P u f\<rparr>) = (Inr b, m2\<lparr>userdata := with_file P u f\<rparr>)"
proof -
  obtain u m1 where i: "InitUser P memory_service n pw m = (Inr u, m1)" "good_user u" "Username u = n"
      "account_at P (store_data (backing m1)) pw u" "tick m1 = tick m + 4"
    by (rule InitUser_run [OF assms(1-3)])
  let ?m = "m1\<lparr>userdata := u\<rparr>" and ?u = "with_file P u f"
  obtain r m2 where run: "StoreFile P memory_service f b ?m = (r, m2)" by fastforce
  have salt: "length (PasswordSalt (userdata ?m)) = 16" using i(2) by (simp add: good_user_def)
  have fr: "fresh_uuids P (tick ?m) (8 + 2 * length (ByteToBlock b)) used" using fresh i(5) by simp
  have ids': "access_id P (Username (userdata ?m)) f \<in> used" "user_id P (Username (userdata ?m)) \<in> used"
      "access_id P (Username (userdata ?m)) f \<noteq> user_id P (Username (userdata ?m))"
    using ids i(3) by simp_all
  note st = StoreFile_view [OF assms(1) salt assms(5) fr ids' run]
  have acc: "account_at P (store_data (backing (m2\<lparr>userdata := v\<rparr>))) pw ?u"
    using st(2,6) i(4) by (auto simp: account_at_def)
  have good: "good_user ?u"
    using provider_parts [OF assms(1)] i(2) assms(4) by (intro good_user_with_file)
  have "Username ?u = n" using i(3) by (simp add: with_file_def)
  then have "GetUser P memory_service n pw (m2\<lparr>userdata := v\<rparr>) = (Inr ?u, m2\<lparr>userdata := v\<rparr>)"
    using GetUser_run [OF assms(1) good acc] by simp
  moreover have "userdata m2 = ?u" using st(2) by simp
  then have "m2\<lparr>userdata := ?u\<rparr> = m2" by simp
  then have "LoadFile P memory_service f (m2\<lparr>userdata := ?u\<rparr>) = (Inr b, m2\<lparr>userdata := ?u\<rparr>)"
    using LoadFile_view [OF assms(1) st(5)] by simp
  ultimately show thesis
    using that [OF i(1)] run st(1) by simp
qed

section \<open>Properties\<close>

text \<open>C22. Only logging in makes or replaces the user of a client. In every client a program can get, a user
  comes with the services. Without a user, storing, loading, inviting and revoking panic and change
  nothing, and so does appending, except that a nil content is refused with its own error first;
  listing returns no files; accepting an invitation fails, at best after it has read the invitation
  and the sender's key, and leaves the client without a user and all data as they were. With or
  without a user, no operation but a successful \<open>InitUser\<close> or \<open>GetUser\<close> changes the user's name, keys
  or salt.\<close>

theorem client_user_invariant:
  assumes "client_reach P B N c" and "client_step P B N k c = (r, c')"
  shows "(cl_user c \<noteq> None \<longrightarrow> cl_ready c) \<and>
    (cl_user c = None \<longrightarrow> (case k of
        InitCall n pw \<Rightarrow> True
      | GetCall n pw \<Rightarrow> True
      | AppendCall f None \<Rightarrow> r = Inl (Msg ''content cannot be nil'' []) \<and> c' = c
      | AcceptCall n i f \<Rightarrow> (\<exists>e. r = Inl e) \<and> cl_user c' = None \<and>
          server_db (cl_world c') = server_db (cl_world c) \<and> local_map (cl_world c') = local_map (cl_world c) \<and>
          (cl_ready c \<or> r = Inl nil_pointer \<and> c' = c)
      | ListCall \<Rightarrow> app_ListFiles P c = (Inr [], c) \<and> r = Inr () \<and> c' = c
      | _ \<Rightarrow> r = Inl nil_pointer \<and> c' = c)) \<and>
    ((case k of InitCall n pw \<Rightarrow> r \<noteq> Inr () | GetCall n pw \<Rightarrow> r \<noteq> Inr () | _ \<Rightarrow> True) \<longrightarrow>
      map_option identity_of (cl_user c') = map_option identity_of (cl_user c))"
  using client_reach_ready [OF assms(1)] without_user [OF assms(2)] calls_keep_identity [OF assms(2)] by blast

definition idle_world :: "(bytes \<rightharpoonup> bytes) rworld" where
  "idle_world = \<lparr>address = [], useTLS = False, local_map = Map.empty, server_db = Map.empty, dials = 0\<rparr>"

theorem client_user_invariant_witness:
  "\<exists>c. client_reach P0 map_badger N0 c \<and> client_step P0 map_badger N0 (StoreCall file_f sample) c = (Inl nil_pointer, c)"
proof -
  let ?c = "new_client idle_world 0"
  have reach: "client_reach P0 map_badger N0 ?c" by (rule client_reach.fresh)
  obtain r c' where run: "client_step P0 map_badger N0 (StoreCall file_f sample) ?c = (r, c')" by fastforce
  from client_user_invariant [OF reach run] run reach show ?thesis
    by (auto simp: new_client_def)
qed

text \<open>C37. Two devices: a client makes an account and stores a file; another client of the same process
  (nothing shared but the storage, which is the local one) logs in with the password and loads the content.\<close>

theorem second_device_sees_the_file:
  assumes "provider_ok P" and "address w = []" and "local_map w (data_name (user_id P n)) = None"
    and "utf8_valid n" "utf8_valid f" and "int (length b) < 2 ^ 63"
    and fresh: "fresh_uuids P (t + 4) (8 + 2 * length (ByteToBlock b)) used"
    and ids: "access_id P n f \<in> used" "user_id P n \<in> used" "access_id P n f \<noteq> user_id P n"
  shows "\<exists>c1 c2 c3 c4. app_InitUser P B N n pw (new_client w t) = (Inr (), c1) \<and>
    app_StoreFile P B N f b c1 = (Inr (), c2) \<and>
    app_GetUser P B N n pw (new_client (cl_world c2) (cl_tick c2)) = (Inr (), c3) \<and>
    app_LoadFile P B N f c3 = (Inr b, c4)"
proof -
  let ?c = "new_client w t"
  obtain m where m: "mirrors ?c user_zero m" "tick m = t"
      "store_data (backing m) = (\<lambda>i. local_map w (data_name i))"
    by (rule mirror_exists [of ?c user_zero]) (use assms(2) in \<open>simp_all add: new_client_def\<close>)
  have none: "store_data (backing m) (user_id P n) = None" using assms(3) m(3) by simp
  obtain u m1 m2 where s: "InitUser P memory_service n pw m = (Inr u, m1)"
      "StoreFile P memory_service f b (m1\<lparr>userdata := u\<rparr>) = (Inr (), m2)"
      "GetUser P memory_service n pw (m2\<lparr>userdata := user_zero\<rparr>) = (Inr (with_file P u f), m2\<lparr>userdata := user_zero\<rparr>)"
      "LoadFile P memory_service f (m2\<lparr>userdata := with_file P u f\<rparr>) = (Inr b, m2\<lparr>userdata := with_file P u f\<rparr>)"
    by (rule store_then_login [OF assms(1) none assms(4-6) fresh [folded m(2)] ids])
  obtain c1 where c1: "app_InitUser P B N n pw ?c = (Inr (), c1)" "cl_user c1 = Some u" "mirrors c1 u (m1\<lparr>userdata := u\<rparr>)"
    using login_offline(1) [OF m(1) s(1)] by blast
  obtain c2 where c2: "app_StoreFile P B N f b c1 = (Inr (), c2)" "mirrors c2 (userdata m2) m2"
    using with_user_offline [OF offline_methods(3) [folded same_offline_def remote_service_def] c1(3,2) s(2)]
    unfolding app_StoreFile_def by blast
  let ?d = "new_client (cl_world c2) (cl_tick c2)"
  have "mirrors ?d user_zero (m2\<lparr>userdata := user_zero\<rparr>)"
    by (rule mirrors_other_client [OF mirrors_other_user [OF c2(2)]]) (simp_all add: new_client_def)
  from login_offline(2) [OF this s(3)] obtain c3 where c3: "app_GetUser P B N n pw ?d = (Inr (), c3)"
      "cl_user c3 = Some (with_file P u f)" "mirrors c3 (with_file P u f) (m2\<lparr>userdata := with_file P u f\<rparr>)"
    by auto
  obtain c4 where "app_LoadFile P B N f c3 = (Inr b, c4)"
    using with_user_offline [OF offline_methods(4) [folded same_offline_def remote_service_def] c3(3,2) s(4)]
    unfolding app_LoadFile_def by blast
  with c1(1) c2(1) c3(1) show ?thesis by blast
qed

theorem second_device_sees_the_file_witness:
  "\<exists>c3 c4. app_LoadFile P0 map_badger N0 file_f c3 = (Inr sample, c4) \<and> cl_user c3 \<noteq> None"
proof -
  let ?used = "{access_id P0 alice file_f, user_id P0 alice}"
  have fresh: "fresh_uuids P0 (0 + 4) (8 + 2 * length (ByteToBlock sample)) ?used"
    by (rule P0_fresh) (auto simp: sample_blocks)
  have neq: "access_id P0 alice file_f \<noteq> user_id P0 alice"
    using apart_by_hd [of "access_id P0 alice file_f" "user_id P0 alice"] by simp
  have len: "int (length sample) < 2 ^ 63" by (simp add: sample_def)
  from second_device_sees_the_file [OF P0_ok _ _ _ _ len fresh _ _ neq, of idle_world map_badger N0 "lit ''pw''"]
  obtain c3 c4 where "app_LoadFile P0 map_badger N0 file_f c3 = (Inr sample, c4)"
    by (auto simp: idle_world_def)
  then show ?thesis
    by (intro exI [of _ c3] exI [of _ c4]) (auto simp: app_LoadFile_def with_user_def nil_pointer_def split: option.splits)
qed

end
