(* ===== verification/Console.thy ===== *)
theory Console
  imports App Config Flags
begin

text \<open>
  What a \<open>sharelock\<close> process writes: its standard output and its standard error, the usage texts of
  \<open>cmd/sharelock/main.go\<close> with the flag lists of Go's package \<open>flag\<close>, and the ways in which a
  command ends.
\<close>

section \<open>A process\<close>

text \<open>
  The standard error is a list of items: a text, an error value behind a prefix (what \<open>%v\<close> makes of
  the error is left to \<open>err\<close>), or a complaint of the flag package about an argument.
\<close>

datatype diagnostic =
    Text gostr
  | Report gostr err
  | BadFlag string gostr

record 'd process =
  p_os :: os
  p_out :: bytes
  p_err :: "diagnostic list"
  p_client :: "'d client"

definition on_os :: "(os, 'a) prog \<Rightarrow> ('d process, 'a) prog" where
  "on_os m p = (case m (p_os p) of (r, s) \<Rightarrow> (r, p\<lparr>p_os := s\<rparr>))"

definition on_client :: "('d client, 'a) prog \<Rightarrow> ('d process, 'a) prog" where
  "on_client m p = (case m (p_client p) of (r, c) \<Rightarrow> (r, p\<lparr>p_client := c\<rparr>))"

definition Print :: "bytes \<Rightarrow> ('d process, unit) prog" where
  "Print b = modify (\<lambda>p. p\<lparr>p_out := p_out p @ b\<rparr>)"

abbreviation line_end :: bytes where "line_end \<equiv> [10]"

definition Println :: "gostr \<Rightarrow> ('d process, unit) prog" where
  "Println b = Print (b @ line_end)"

abbreviation ok_line :: bytes where "ok_line \<equiv> lit ''ok'' @ line_end"

text \<open>\<open>fmt.Fprint(os.Stderr, \<dots>)\<close>.\<close>

definition Complain :: "diagnostic \<Rightarrow> ('d process, unit) prog" where
  "Complain d = modify (\<lambda>p. p\<lparr>p_err := p_err p @ [d]\<rparr>)"

definition Eprint :: "bytes \<Rightarrow> ('d process, unit) prog" where
  "Eprint b = Complain (Text b)"

text \<open>\<open>'%s'\<close>, and text given by its lines.\<close>

abbreviation single_quote :: byte where "single_quote \<equiv> 39"

definition quoted :: "gostr \<Rightarrow> bytes" where
  "quoted s = [single_quote] @ s @ [single_quote]"

definition text_lines :: "string list \<Rightarrow> bytes" where
  "text_lines ls = concat (map (\<lambda>l. lit l @ line_end) ls)"

section \<open>Ways to end\<close>

text \<open>A message and \<open>os.Exit(1)\<close>.\<close>

definition die :: "diagnostic \<Rightarrow> ('d process, 'a) prog" where
  "die d = bindE (Complain d) (\<lambda>_. throw (Exit 1))"

text \<open>A panic stays a panic through the wrapping of errors, which the code never reaches after one.\<close>

fun panics :: "err \<Rightarrow> bool" where
  "panics (Panic r) = True"
| "panics (Wrap c e) = panics e"
| "panics e = False"

text \<open>\<open>if err := \<dots>; err != nil { fmt.Fprintf(os.Stderr, "\<dots>%v\n", err); os.Exit(1) }\<close>.\<close>

definition exit_on_error :: "gostr \<Rightarrow> ('d process, 'a) prog \<Rightarrow> ('d process, 'a) prog" where
  "exit_on_error c m p =
     (case m p of
        (Inl e, p') \<Rightarrow> if panics e then (Inl e, p') else die (Report c e) p'
      | (Inr x, p') \<Rightarrow> (Inr x, p'))"

abbreviation error_prefix :: gostr where "error_prefix \<equiv> lit ''Error: ''"

text \<open>A call whose error is dropped.\<close>

definition ignore_error :: "('s, unit) prog \<Rightarrow> ('s, unit) prog" where
  "ignore_error m s = (Inr (), snd (m s))"

text \<open>\<open>defer\<close>: the deferred call is skipped by \<open>os.Exit\<close> only.\<close>

definition defer_call :: "('s, unit) prog \<Rightarrow> ('s, 'a) prog \<Rightarrow> ('s, 'a) prog" where
  "defer_call d m s =
     (case m s of (Inl (Exit n), s') \<Rightarrow> (Inl (Exit n), s') | (r, s') \<Rightarrow> (r, snd (d s')))"

section \<open>Flags and their usage\<close>

text \<open>\<open>utf8.RuneCountInString\<close>, by which \<open>fmt\<close> measures a width, and the verb \<open>%-12s\<close>.\<close>

function rune_count :: "gostr \<Rightarrow> nat" where
  "rune_count s = (if s = [] then 0 else Suc (rune_count (drop (max 1 (rune_len s)) s)))"
  by pat_completeness auto
termination
  by (relation "measure length") auto

declare rune_count.simps [simp del]

definition pad_right :: "nat \<Rightarrow> gostr \<Rightarrow> gostr" where
  "pad_right w s = s @ replicate (w - rune_count s) 32"

text \<open>A declared flag with its default and what it is for.\<close>

datatype flag_decl = StringDecl string gostr string | BoolDecl string bool string

fun flag_entry :: "flag_decl \<Rightarrow> gostr \<times> flag_kind" where
  "flag_entry (StringDecl n d u) = (lit n, StringFlag)"
| "flag_entry (BoolDecl n d u) = (lit n, BoolFlag)"

definition string_flags :: "string list \<Rightarrow> flag_set" where
  "string_flags ns = map (\<lambda>n. (lit n, StringFlag)) ns"

text \<open>\<open>PrintDefaults\<close>, on flags in the order of their names; a default that is the zero value is not shown.\<close>

abbreviation double_quote :: byte where "double_quote \<equiv> 34"

fun flag_default :: "flag_decl \<Rightarrow> bytes" where
  "flag_default (StringDecl n d u) =
     lit ''  -'' @ lit n @ lit '' string'' @ line_end @ lit ''    '' @ [9] @ lit u @
     (if d = [] then [] else lit '' (default '' @ [double_quote] @ d @ [double_quote] @ lit '')'') @ line_end"
| "flag_default (BoolDecl n d u) =
     lit ''  -'' @ lit n @ (if length n \<le> 1 then [9] else line_end @ lit ''    '' @ [9]) @ lit u @
     (if d then lit '' (default true)'' else []) @ line_end"

definition command_usage :: "string \<Rightarrow> string \<Rightarrow> flag_decl list \<Rightarrow> bytes" where
  "command_usage synopsis purpose ds =
     text_lines [''Usage: '' @ synopsis, '''', purpose, '''', ''Flags:''] @ concat (map flag_default ds)"

text \<open>\<open>fs.Parse\<close> with \<open>ExitOnError\<close>: the usage text is printed on help and on a bad argument.\<close>

definition parse_flags_or_exit :: "bytes \<Rightarrow> flag_set \<Rightarrow> gostr list \<Rightarrow> ('d process, assignments) prog" where
  "parse_flags_or_exit usage fs args =
     (case parse_flags fs args [] of
        Parsed acc rest \<Rightarrow> ret acc
      | FlagHelp \<Rightarrow> bindE (Eprint usage) (\<lambda>_. throw (Exit 0))
      | FlagError m n \<Rightarrow> bindE (Complain (BadFlag m n)) (\<lambda>_. bindE (Eprint usage) (\<lambda>_. throw (Exit 2))))"

text \<open>A flag the command cannot do without.\<close>

definition required :: "bool \<Rightarrow> string \<Rightarrow> bytes \<Rightarrow> ('d process, unit) prog" where
  "required b msg usage =
     (if b then ret ()
      else bindE (Eprint (lit msg @ line_end)) (\<lambda>_. bindE (Eprint usage) (\<lambda>_. throw (Exit 1))))"

section \<open>Usage texts of the program\<close>

definition host_usage_text :: bytes where
  "host_usage_text = text_lines
     [''Usage: sharelock host <command> [args]'',
      '''',
      ''Commands:'',
      ''  list, ls                  List all configured hosts'',
      ''  add <name> <addr>         Add a host (use --tls=false for plain TCP)'',
      ''  rm <name>                 Remove a host'',
      ''  use <name>                Set a host as default'',
      '''',
      ''Examples:'',
      ''  sharelock host add dev localhost:8080 --tls=false'',
      ''  sharelock host use dev'',
      ''  sharelock host list'']"

definition hostUsage :: "('d process, unit) prog" where
  "hostUsage = Eprint host_usage_text"

text \<open>\<open>fmt.Sprintf("  %-16s %s", name, desc)\<close>.\<close>

definition align :: "string \<Rightarrow> string \<Rightarrow> bytes" where
  "align name desc = lit ''  '' @ pad_right 16 (lit name) @ lit '' '' @ lit desc @ line_end"

definition usage_text :: "gostr \<Rightarrow> bytes" where
  "usage_text cmd =
     text_lines [''ShareLock - End-to-end encrypted file sharing'', '''', ''Usage:''] @
     lit ''  '' @ cmd @ text_lines ['' <command> [flags]'', '''', ''Commands:''] @
     align ''init'' ''Create a new user account'' @
     align ''login'' ''Login as existing user'' @
     align ''logout'' ''Logout and clear session'' @
     align ''store'' ''Store a file from disk (overwrites if exists)'' @
     align ''load'' ''Load and print file contents'' @
     align ''append'' ''Append content to a file'' @
     align ''share'' ''Share a file with another user'' @
     align ''accept'' ''Accept a file sharing invitation'' @
     align ''revoke'' ''Revoke a user's access'' @
     align ''list'' ''List all stored files'' @
     align ''read'' ''Read file via TLS streaming'' @
     align ''host'' ''Manage server connections'' @
     align ''version'' ''Show version'' @
     align ''help'' ''Show this help'' @
     text_lines
     ['''',
      ''Flags:'',
      ''  -u    Username'',
      ''  -p    Password'',
      ''  -f    Filename'',
      ''  -c    Content'',
      ''  -r    Recipient'',
      ''  -s    Sender'',
      ''  -i    Invitation UUID'',
      ''  -a    Server address'',
      '''',
      ''Quick Examples:'',
      ''  # Create account'',
      ''  sharelock init -u alice -p secret'',
      '''',
      ''  # Store a file from disk'',
      ''  sharelock store -f ./hello.txt'',
      '''',
      ''  # Load a file'',
      ''  sharelock load -f hello.txt'',
      '''',
      ''  # Share with someone'',
      ''  sharelock share -f hello.txt -r bob'',
      '''',
      ''  # Accept invitation'',
      ''  sharelock accept -s alice -i <uuid> -f hello.txt'',
      '''',
      ''  # Revoke access'',
      ''  sharelock revoke -f hello.txt -r bob'',
      '''',
      ''Environment:'',
      ''  SHARELOCK_HOST    Select host from config (default: \"default\")'',
      '''',
      ''Config:'',
      ''  ~/.config/sharelock/.hosts  (fallback: ~/.hosts)'']"

definition printUsage :: "gostr \<Rightarrow> ('d process, unit) prog" where
  "printUsage cmd = Eprint (usage_text cmd)"

section \<open>Running\<close>

lemma run_on [run_simps]:
  "on_os m p = (case m (p_os p) of (r, s) \<Rightarrow> (r, p\<lparr>p_os := s\<rparr>))"
  "on_client n p = (case n (p_client p) of (r, c) \<Rightarrow> (r, p\<lparr>p_client := c\<rparr>))"
  "Print b p = (Inr (), p\<lparr>p_out := p_out p @ b\<rparr>)"
  "Println b p = (Inr (), p\<lparr>p_out := p_out p @ b @ line_end\<rparr>)"
  by (simp_all add: on_os_def on_client_def Print_def Println_def)

lemma run_complaints [run_simps]:
  "Complain d p = (Inr (), p\<lparr>p_err := p_err p @ [d]\<rparr>)"
  "Eprint b p = (Inr (), p\<lparr>p_err := p_err p @ [Text b]\<rparr>)"
  "die d p = (Inl (Exit 1), p\<lparr>p_err := p_err p @ [d]\<rparr>)"
  "hostUsage p = (Inr (), p\<lparr>p_err := p_err p @ [Text host_usage_text]\<rparr>)"
  "printUsage c p = (Inr (), p\<lparr>p_err := p_err p @ [Text (usage_text c)]\<rparr>)"
  by (simp_all add: Complain_def Eprint_def die_def printUsage_def hostUsage_def run_bind)

lemma run_exit_on_error [run_simps]:
  "exit_on_error c m p = (case m p of
     (Inl e, p') \<Rightarrow> if panics e then (Inl e, p') else (Inl (Exit 1), p'\<lparr>p_err := p_err p' @ [Report c e]\<rparr>)
   | (Inr x, p') \<Rightarrow> (Inr x, p'))"
  by (simp add: exit_on_error_def run_complaints split: prod.split sum.split)

lemma run_ignore_error [run_simps]: "ignore_error m s = (Inr (), snd (m s))"
  by (simp add: ignore_error_def)

lemma run_required [run_simps]:
  "required b msg usage p =
     (if b then (Inr (), p) else (Inl (Exit 1), p\<lparr>p_err := p_err p @ [Text (lit msg @ line_end), Text usage]\<rparr>))"
  by (simp add: required_def run_bind run_complaints)

lemma run_parse_flags [run_simps]:
  "parse_flags fs args [] = Parsed acc rest \<Longrightarrow> parse_flags_or_exit u fs args p = (Inr acc, p)"
  by (simp add: parse_flags_or_exit_def)

end
