(* ===== verification/Cli.thy ===== *)
theory Cli
  imports Console
begin

text \<open>
  \<open>cmd/sharelock/main.go\<close>: the command line. A command is one process: it reads the server table and
  the session from the disk, works on a new client, prints, and ends with an exit status. What a
  process leaves behind for the next one is the disk and the server.
\<close>

section \<open>The commands\<close>

definition usageInit :: bytes where
  "usageInit = command_usage ''sharelock init -u <username> -p <password>''
     ''Create a new user account.''
     [StringDecl ''p'' [] ''password'', StringDecl ''u'' [] ''username'']"

definition cmdInit :: "provider \<Rightarrow> 'd badger \<Rightarrow> network \<Rightarrow> disk \<Rightarrow> gostr list \<Rightarrow> ('d process, unit) prog" where
  "cmdInit P B N D args =
     bindE (parse_flags_or_exit usageInit (string_flags [''u'', ''p'']) args) (\<lambda>fs.
     let username = string_flag fs ''u'' []; password = string_flag fs ''p'' [] in
     bindE (required (\<not> (username = [] \<or> password = [])) ''Error: username and password are required'' usageInit) (\<lambda>_.
     bindE (exit_on_error error_prefix (on_client (app_InitUser P B N username password))) (\<lambda>_.
     bindE (ignore_error (on_os (SaveSession D username password))) (\<lambda>_.
     Println (lit ''ok'')))))"

definition usageLogin :: bytes where
  "usageLogin = command_usage ''sharelock login -u <username> -p <password>''
     ''Login as an existing user.''
     [StringDecl ''p'' [] ''password'', StringDecl ''u'' [] ''username'']"

definition cmdLogin :: "provider \<Rightarrow> 'd badger \<Rightarrow> network \<Rightarrow> disk \<Rightarrow> gostr list \<Rightarrow> ('d process, unit) prog" where
  "cmdLogin P B N D args =
     bindE (parse_flags_or_exit usageLogin (string_flags [''u'', ''p'']) args) (\<lambda>fs.
     let username = string_flag fs ''u'' []; password = string_flag fs ''p'' [] in
     bindE (required (\<not> (username = [] \<or> password = [])) ''Error: username and password are required'' usageLogin) (\<lambda>_.
     bindE (exit_on_error error_prefix (on_client (app_GetUser P B N username password))) (\<lambda>_.
     bindE (ignore_error (on_os (SaveSession D username password))) (\<lambda>_.
     Println (lit ''ok'')))))"

definition cmdLogout :: "disk \<Rightarrow> ('d process, unit) prog" where
  "cmdLogout D = bindE (ignore_error (on_os (ClearSession D))) (\<lambda>_. Println (lit ''ok''))"

definition usageStore :: bytes where
  "usageStore = command_usage ''sharelock store -f <filepath>''
     ''Store a file by reading its content from disk (overwrites if exists).''
     [StringDecl ''f'' [] ''local file path'']"

definition cmdStore :: "provider \<Rightarrow> 'd badger \<Rightarrow> network \<Rightarrow> disk \<Rightarrow> gostr list \<Rightarrow> ('d process, unit) prog" where
  "cmdStore P B N D args =
     bindE (parse_flags_or_exit usageStore (string_flags [''f'']) args) (\<lambda>fs.
     let filepathFlag = string_flag fs ''f'' [] in
     bindE (required (filepathFlag \<noteq> []) ''Error: file path is required'' usageStore) (\<lambda>_.
     bindE (exit_on_error (lit ''Error: cannot read file '' @ quoted filepathFlag @ lit '': '') (on_os (os_ReadFile D filepathFlag))) (\<lambda>content.
     let filename = path_Base filepathFlag in
     bindE (exit_on_error error_prefix (on_client (app_StoreFile P B N filename content))) (\<lambda>_.
     Println (lit ''ok'')))))"

definition usageLoad :: bytes where
  "usageLoad = command_usage ''sharelock load -f <filename>''
     ''Load and print file contents.''
     [StringDecl ''f'' [] ''filename'']"

definition cmdLoad :: "provider \<Rightarrow> 'd badger \<Rightarrow> network \<Rightarrow> gostr list \<Rightarrow> ('d process, unit) prog" where
  "cmdLoad P B N args =
     bindE (parse_flags_or_exit usageLoad (string_flags [''f'']) args) (\<lambda>fs.
     let filename = string_flag fs ''f'' [] in
     bindE (required (filename \<noteq> []) ''Error: filename is required'' usageLoad) (\<lambda>_.
     bindE (exit_on_error error_prefix (on_client (app_LoadFile P B N filename))) (\<lambda>data.
     Print data)))"

definition usageAppend :: bytes where
  "usageAppend = command_usage ''sharelock append -f <filename> -c <content>''
     ''Append content to an existing file.''
     [StringDecl ''c'' [] ''content'', StringDecl ''f'' [] ''filename'']"

text \<open>\<open>[]byte(*content)\<close> is not nil, even for an empty string.\<close>

definition cmdAppend :: "provider \<Rightarrow> 'd badger \<Rightarrow> network \<Rightarrow> gostr list \<Rightarrow> ('d process, unit) prog" where
  "cmdAppend P B N args =
     bindE (parse_flags_or_exit usageAppend (string_flags [''f'', ''c'']) args) (\<lambda>fs.
     let filename = string_flag fs ''f'' []; content = string_flag fs ''c'' [] in
     bindE (required (filename \<noteq> []) ''Error: filename is required'' usageAppend) (\<lambda>_.
     bindE (exit_on_error error_prefix (on_client (app_AppendToFile P B N filename (Some content)))) (\<lambda>_.
     Println (lit ''ok''))))"

definition usageShare :: bytes where
  "usageShare = command_usage ''sharelock share -f <filename> -r <username>''
     ''Share a file with another user. Prints invitation UUID.''
     [StringDecl ''f'' [] ''filename'', StringDecl ''r'' [] ''recipient username'']"

definition cmdShare :: "provider \<Rightarrow> 'd badger \<Rightarrow> network \<Rightarrow> gostr list \<Rightarrow> ('d process, unit) prog" where
  "cmdShare P B N args =
     bindE (parse_flags_or_exit usageShare (string_flags [''f'', ''r'']) args) (\<lambda>fs.
     let filename = string_flag fs ''f'' []; recipient = string_flag fs ''r'' [] in
     bindE (required (\<not> (filename = [] \<or> recipient = [])) ''Error: filename and recipient are required'' usageShare) (\<lambda>_.
     bindE (exit_on_error error_prefix (on_client (app_CreateInvitation P B N filename recipient))) (\<lambda>invite.
     Println (uuid_text P invite))))"

text \<open>The error of \<open>uuid.Parse\<close>.\<close>

definition invalid_uuid :: err where
  "invalid_uuid = Msg ''invalid UUID'' []"

definition usageAccept :: bytes where
  "usageAccept = command_usage ''sharelock accept -s <sender> -i <uuid> -f <filename>''
     ''Accept a file sharing invitation.''
     [StringDecl ''f'' [] ''filename to save as'', StringDecl ''i'' [] ''invitation UUID'', StringDecl ''s'' [] ''sender username'']"

definition cmdAccept :: "provider \<Rightarrow> 'd badger \<Rightarrow> network \<Rightarrow> gostr list \<Rightarrow> ('d process, unit) prog" where
  "cmdAccept P B N args =
     bindE (parse_flags_or_exit usageAccept (string_flags [''s'', ''i'', ''f'']) args) (\<lambda>fs.
     let sender = string_flag fs ''s'' []; invitation = string_flag fs ''i'' [];
         filename = string_flag fs ''f'' [] in
     bindE (required (\<not> (sender = [] \<or> invitation = [] \<or> filename = [])) ''Error: sender, invitation UUID, and filename are required'' usageAccept) (\<lambda>_.
     bindE (case uuid_parse P invitation of None \<Rightarrow> die (Report (lit ''Error: invalid invitation UUID: '') invalid_uuid)
         | Some i \<Rightarrow> ret i) (\<lambda>invUUID.
     bindE (exit_on_error error_prefix (on_client (app_AcceptInvitation P B N sender invUUID filename))) (\<lambda>_.
     Println (lit ''ok'')))))"

definition usageRevoke :: bytes where
  "usageRevoke = command_usage ''sharelock revoke -f <filename> -r <username>''
     ''Revoke a user's access to a file.''
     [StringDecl ''f'' [] ''filename'', StringDecl ''r'' [] ''recipient username'']"

definition cmdRevoke :: "provider \<Rightarrow> 'd badger \<Rightarrow> network \<Rightarrow> gostr list \<Rightarrow> ('d process, unit) prog" where
  "cmdRevoke P B N args =
     bindE (parse_flags_or_exit usageRevoke (string_flags [''f'', ''r'']) args) (\<lambda>fs.
     let filename = string_flag fs ''f'' []; recipient = string_flag fs ''r'' [] in
     bindE (required (\<not> (filename = [] \<or> recipient = [])) ''Error: filename and recipient are required'' usageRevoke) (\<lambda>_.
     bindE (exit_on_error error_prefix (on_client (app_RevokeAccess P B N filename recipient))) (\<lambda>_.
     Println (lit ''ok''))))"

definition cmdList :: "provider \<Rightarrow> ('d process, unit) prog" where
  "cmdList P =
     bindE (on_client (app_ListFiles P)) (\<lambda>files.
     if files = [] then Println (lit ''No files stored.'')
     else Print (concat (map (\<lambda>f. f @ line_end) files)))"

definition usageRead :: bytes where
  "usageRead = command_usage ''sharelock read -f <filename> [-a <host:port>] [-tls=true]''
     ''Read a file via TLS-encrypted streaming.''
     [StringDecl ''a'' (lit ''localhost:8080'') ''server address'', StringDecl ''f'' [] ''filename'',
      BoolDecl ''tls'' True ''use TLS encryption'']"

definition cmdRead :: "disk \<Rightarrow> dialer \<Rightarrow> gostr list \<Rightarrow> ('d process, unit) prog" where
  "cmdRead D S args =
     bindE (parse_flags_or_exit usageRead (string_flags [''f'', ''a''] @ [(lit ''tls'', BoolFlag)]) args) (\<lambda>fs.
     let filename = string_flag fs ''f'' []; addr = string_flag fs ''a'' (lit ''localhost:8080'');
         tlsEnabled = bool_flag fs ''tls'' True in
     bindE (required (filename \<noteq> []) ''Error: filename is required'' usageRead) (\<lambda>_.
     bindE (exit_on_error error_prefix (on_os (ReadFileTLS D S filename addr tlsEnabled))) (\<lambda>_.
     Println (lit ''ok''))))"

section \<open>Old command names\<close>

definition legacyAlias :: "gostr \<Rightarrow> gostr" where
  "legacyAlias cmd =
     (if cmd = lit ''inituser'' then lit ''init''
      else if cmd = lit ''getuser'' then lit ''login''
      else if cmd = lit ''storefile'' then lit ''store''
      else if cmd = lit ''loadfile'' then lit ''load''
      else if cmd = lit ''appendtofile'' then lit ''append''
      else if cmd = lit ''createinvitation'' then lit ''share''
      else if cmd = lit ''acceptinvitation'' then lit ''accept''
      else if cmd = lit ''revokeaccess'' then lit ''revoke''
      else cmd)"

definition runLegacy ::
  "provider \<Rightarrow> 'd badger \<Rightarrow> network \<Rightarrow> disk \<Rightarrow> gostr \<Rightarrow> gostr list \<Rightarrow> ('d process, unit) prog"
where
  "runLegacy P B N D cmd args =
     bindE (Eprint (lit ''Warning: '' @ quoted cmd @ lit '' is deprecated. Use 'sharelock '' @ legacyAlias cmd @
       [single_quote] @ lit '' instead.'' @ line_end @ line_end)) (\<lambda>_.
     if cmd = lit ''inituser'' then cmdInit P B N D args
      else if cmd = lit ''getuser'' then cmdLogin P B N D args
      else if cmd = lit ''storefile'' then cmdStore P B N D args
      else if cmd = lit ''loadfile'' then cmdLoad P B N args
      else if cmd = lit ''appendtofile'' then cmdAppend P B N args
      else if cmd = lit ''createinvitation'' then cmdShare P B N args
      else if cmd = lit ''acceptinvitation'' then cmdAccept P B N args
      else if cmd = lit ''revokeaccess'' then cmdRevoke P B N args
      else ret ())"

section \<open>The server table\<close>

definition host_line :: "gostr \<Rightarrow> HostEntry \<Rightarrow> gostr" where
  "host_line n h =
     (if n = lit ''default'' then lit ''*'' else lit '' '') @ lit '' '' @ pad_right 12 n @ lit '' '' @ Addr h @
     lit '' ('' @ (if TLS h then lit ''tls'' else lit ''plain'') @ lit '')''"

definition host_listing :: "Config \<Rightarrow> bytes" where
  "host_listing cfg =
     (let hosts = config_List cfg in
      concat (map (\<lambda>n. case fmlookup hosts n of None \<Rightarrow> [] | Some h \<Rightarrow> host_line n h @ line_end)
        (sorted_list_of_set (fset (fmdom hosts)))))"

definition hostCmd :: "disk \<Rightarrow> Config \<Rightarrow> gostr list \<Rightarrow> ('d process, unit) prog" where
  "hostCmd D cfg args =
     (case args of
        [] \<Rightarrow> hostUsage
      | sub # rest \<Rightarrow>
          if sub = lit ''--help'' \<or> sub = lit ''-h'' then hostUsage
          else if sub = lit ''list'' \<or> sub = lit ''ls'' then Print (host_listing cfg)
          else if sub = lit ''add'' then
            if length args < 3 then die (Text (text_lines [''Usage: sharelock host add <name> <addr> [--tls=false]'']))
            else
              let name = args ! 1; addr = args ! 2;
                  tls = (\<forall>a \<in> set (drop 3 args). \<not> (a = lit ''--tls=false'' \<or> a = lit ''--no-tls'')) in
              bindE (exit_on_error (lit ''Error: save failed: '') (on_os (config_Save D (config_Set name addr tls cfg)))) (\<lambda>_.
              Println (lit ''ok''))
          else if sub = lit ''rm'' \<or> sub = lit ''remove'' then
            if length args < 2 then die (Text (text_lines [''Usage: sharelock host rm <name>'']))
            else
              bindE (exit_on_error (lit ''Error: save failed: '') (on_os (config_Save D (config_Remove (args ! 1) cfg)))) (\<lambda>_.
              Println (lit ''ok''))
          else if sub = lit ''default'' \<or> sub = lit ''use'' then
            if length args < 2 then die (Text (text_lines [''Usage: sharelock host use <name>'']))
            else
              bindE (case config_Get cfg (args ! 1) of
                  None \<Rightarrow> die (Text (lit ''Error: host '' @ quoted (args ! 1) @ lit '' not found'' @ line_end))
                | Some entry \<Rightarrow> ret entry) (\<lambda>entry.
              let cfg' = config_Remove (args ! 1) (config_Set (lit ''default'') (Addr entry) (TLS entry) cfg) in
              bindE (exit_on_error (lit ''Error: save failed: '') (on_os (config_Save D cfg'))) (\<lambda>_.
              Println (lit ''ok'')))
          else
            bindE (Eprint (lit ''Error: unknown host command '' @ quoted sub @ line_end @ line_end)) (\<lambda>_. hostUsage))"

section \<open>The program\<close>

text \<open>The linked-in version, and the module version of the build information if there is one.\<close>

definition buildVersion :: "gostr \<Rightarrow> gostr option \<Rightarrow> gostr" where
  "buildVersion version bi =
     (if version \<noteq> lit ''dev'' then version
      else (case bi of None \<Rightarrow> version | Some v \<Rightarrow> if v \<noteq> [] \<and> v \<noteq> lit ''(devel)'' then v else version))"

definition host_env :: gostr where
  "host_env = lit ''SHARELOCK_HOST''"

text \<open>The server a command connects to.\<close>

definition chosen_server :: "Config \<Rightarrow> os \<Rightarrow> HostEntry option" where
  "chosen_server cfg s =
     (let h = os_Getenv host_env s;
          hostName = (if h \<noteq> [] then h else lit ''default'') in
      case config_Get cfg hostName of
        None \<Rightarrow> None
      | Some entry \<Rightarrow> if Addr entry \<noteq> [] then Some entry else None)"

definition connected :: "HostEntry option \<Rightarrow> ('d process, 'a) prog \<Rightarrow> ('d process, 'a) prog" where
  "connected server m =
     (case server of
        None \<Rightarrow> m
      | Some entry \<Rightarrow>
          bindE (on_client (app_Connect (Addr entry) (TLS entry))) (\<lambda>_.
          defer_call (on_client app_Disconnect) m))"

definition userCommands :: "gostr list" where
  "userCommands = map lit [''store'', ''load'', ''append'', ''share'', ''accept'', ''revoke'', ''list'']"

definition restore_session ::
  "provider \<Rightarrow> 'd badger \<Rightarrow> network \<Rightarrow> disk \<Rightarrow> gostr \<Rightarrow> ('d process, unit) prog"
where
  "restore_session P B N D cmd =
     (if cmd \<in> set userCommands then
        bindE (gets (\<lambda>p. LoadSession D (p_os p))) (\<lambda>session.
        case session of
          None \<Rightarrow> die (Text (text_lines [''Error: not logged in. Run 'sharelock login -u <user> -p <pass>' first.'']))
        | Some (u, pw) \<Rightarrow> exit_on_error (lit ''Error: session expired, please login again: '') (on_client (app_GetUser P B N u pw)))
      else ret ())"

definition legacyCommands :: "gostr list" where
  "legacyCommands = map lit [''inituser'', ''getuser'', ''storefile'', ''loadfile'', ''appendtofile'',
     ''createinvitation'', ''acceptinvitation'', ''revokeaccess'']"

definition run_command ::
  "provider \<Rightarrow> 'd badger \<Rightarrow> network \<Rightarrow> disk \<Rightarrow> dialer \<Rightarrow> gostr \<Rightarrow> gostr \<Rightarrow> gostr list \<Rightarrow> ('d process, unit) prog"
where
  "run_command P B N D S prog cmd args =
     (if cmd = lit ''init'' then cmdInit P B N D args
      else if cmd = lit ''login'' then cmdLogin P B N D args
      else if cmd = lit ''logout'' then cmdLogout D
      else if cmd = lit ''store'' then cmdStore P B N D args
      else if cmd = lit ''load'' then cmdLoad P B N args
      else if cmd = lit ''append'' then cmdAppend P B N args
      else if cmd = lit ''share'' then cmdShare P B N args
      else if cmd = lit ''accept'' then cmdAccept P B N args
      else if cmd = lit ''revoke'' then cmdRevoke P B N args
      else if cmd = lit ''list'' then cmdList P
      else if cmd = lit ''read'' then cmdRead D S args
      else if cmd \<in> set legacyCommands then runLegacy P B N D cmd args
      else if cmd = lit ''help'' then printUsage prog
      else
        bindE (Eprint (lit ''Error: unknown command '' @ quoted cmd @ line_end @ line_end)) (\<lambda>_.
        die (Text (text_lines [''Run 'sharelock help' to see available commands.'']))))"

text \<open>\<open>main\<close>, with \<open>os.Args\<close>; the usage text names \<open>os.Args[0]\<close>, which may be missing.\<close>

definition sharelock_main ::
  "provider \<Rightarrow> 'd badger \<Rightarrow> network \<Rightarrow> disk \<Rightarrow> dialer \<Rightarrow> gostr \<times> gostr option \<Rightarrow> gostr list \<Rightarrow> ('d process, unit) prog"
where
  "sharelock_main P B N D S version argv =
     (case argv of
        prog # cmd # args \<Rightarrow>
          if cmd = lit ''--help'' \<or> cmd = lit ''-h'' then bindE (printUsage prog) (\<lambda>_. throw (Exit 0))
          else if cmd = lit ''version'' \<or> cmd = lit ''--version'' then
            bindE (Println (lit ''sharelock '' @ buildVersion (fst version) (snd version))) (\<lambda>_. throw (Exit 0))
          else
            bindE (exit_on_error (lit ''Error: config load failed: '') (on_os (config_Load D))) (\<lambda>cfg.
            if cmd = lit ''host'' \<or> cmd = lit ''hosts'' then hostCmd D cfg args
            else
              bindE (gets (\<lambda>p. if cmd \<noteq> lit ''read'' then chosen_server cfg (p_os p) else None)) (\<lambda>server.
              connected server
                (bindE (restore_session P B N D cmd) (\<lambda>_. run_command P B N D S prog cmd args))))
      | [prog] \<Rightarrow> bindE (printUsage prog) (\<lambda>_. throw (Exit 1))
      | [] \<Rightarrow> throw (Panic ''index out of range''))"

section \<open>Runs of the program\<close>

text \<open>
  A machine is what one process leaves for the next: the disk and environment, the server and
  how often it has been called, and the position in the random source.
\<close>

record 'd machine =
  mc_os :: os
  mc_server :: 'd
  mc_dials :: nat
  mc_tick :: nat

definition start_client :: "'d machine \<Rightarrow> 'd client" where
  "start_client mc =
     new_client \<lparr>address = [], useTLS = False, local_map = Map.empty, server_db = mc_server mc, dials = mc_dials mc\<rparr>
       (mc_tick mc)"

definition start_process :: "'d machine \<Rightarrow> 'd process" where
  "start_process mc = \<lparr>p_os = mc_os mc, p_out = [], p_err = [], p_client = start_client mc\<rparr>"

definition end_process :: "'d process \<Rightarrow> 'd machine" where
  "end_process p =
     \<lparr>mc_os = p_os p, mc_server = server_db (cl_world (p_client p)), mc_dials = dials (cl_world (p_client p)),
      mc_tick = cl_tick (p_client p)\<rparr>"

text \<open>A Go program that panics exits with status 2.\<close>

fun exit_status :: "err + unit \<Rightarrow> nat" where
  "exit_status (Inr x) = 0"
| "exit_status (Inl (Exit n)) = n"
| "exit_status (Inl e) = 2"

definition sharelock ::
  "provider \<Rightarrow> 'd badger \<Rightarrow> network \<Rightarrow> disk \<Rightarrow> dialer \<Rightarrow> gostr \<times> gostr option \<Rightarrow> gostr list \<Rightarrow>
   'd machine \<Rightarrow> nat \<times> bytes \<times> 'd machine"
where
  "sharelock P B N D S version argv mc =
     (case sharelock_main P B N D S version argv (start_process mc) of
        (r, p) \<Rightarrow> (exit_status r, p_out p, end_process p))"

section \<open>How a command runs\<close>

lemma config_Load_state: "config_Load D s = (r, s') \<Longrightarrow> s' = s"
  by (auto simp: config_Load_def Let_def dest: os_unchanged split: prod.splits sum.splits if_splits)

text \<open>The client after the connection has been configured.\<close>

definition client_for :: "HostEntry option \<Rightarrow> 'd client \<Rightarrow> 'd client" where
  "client_for server c = (case server of None \<Rightarrow> c | Some e \<Rightarrow> snd (app_Connect (Addr e) (TLS e) c))"

lemma client_for_frame [simp]:
  "server_db (cl_world (client_for server c)) = server_db (cl_world c)"
  "dials (cl_world (client_for server c)) = dials (cl_world c)"
  "cl_tick (client_for server c) = cl_tick c" "cl_user (client_for server c) = cl_user c"
  "cl_ready (client_for server c) = cl_ready c" "client_for None c = c"
  by (simp_all add: client_for_def app_Connect_def Connect_def split: option.split)

lemma run_defer:
  "m s = (r, s') \<Longrightarrow> defer_call d m s = (r, s') \<or> defer_call d m s = (r, snd (d s'))"
  by (auto simp: defer_call_def split: sum.split err.split)

lemma run_connected:
  assumes "m (p\<lparr>p_client := client_for server (p_client p)\<rparr>) = (r, p')"
  obtains p'' where "connected server m p = (r, p'')" and "p_out p'' = p_out p'" and "p_err p'' = p_err p'" and "end_process p'' = end_process p'"
proof (cases server)
  case None
  with assms that show thesis by (simp add: connected_def)
next
  case (Some e)
  obtain c where c: "app_Connect (Addr e) (TLS e) (p_client p) = (Inr (), c)"
    by (simp add: app_Connect_def Connect_def)
  then have "m (p\<lparr>p_client := c\<rparr>) = (r, p')" using assms Some by (simp add: client_for_def)
  moreover obtain p'' where d: "on_client app_Disconnect p' = (Inr (), p'')" "p_out p'' = p_out p'" "p_err p'' = p_err p'"
      "end_process p'' = end_process p'"
    by (simp add: run_on app_Disconnect_def Disconnect_def end_process_def)
  moreover have "connected server m p = defer_call (on_client app_Disconnect) m (p\<lparr>p_client := c\<rparr>)"
    using c by (simp add: connected_def Some run_bind run_on)
  ultimately consider "connected server m p = (r, p')" | "connected server m p = (r, p'')"
    using run_defer [of m "p\<lparr>p_client := c\<rparr>" r p' "on_client app_Disconnect"] by auto
  then show thesis by cases (use that d in auto)
qed

lemma start_process_simps [simp]:
  "p_os (start_process mc) = mc_os mc" "p_out (start_process mc) = []"
  "p_client (start_process mc) = start_client mc"
  "(start_process mc)\<lparr>p_os := mc_os mc\<rparr> = start_process mc"
  by (simp_all add: start_process_def)

lemma end_start [simp]: "end_process ((start_process mc)\<lparr>p_client := client_for server (start_client mc)\<rparr>) = mc"
  "end_process (start_process mc) = mc" "end_process (p\<lparr>p_err := ds\<rparr>) = end_process p"
  by (simp_all add: end_process_def start_process_def start_client_def new_client_def)

text \<open>A command that is none of the first four of \<open>main\<close>, up to its own part.\<close>

definition plain_command :: "gostr \<Rightarrow> bool" where
  "plain_command cmd \<longleftrightarrow> cmd \<notin> set (map lit [''--help'', ''-h'', ''version'', ''--version'', ''host'', ''hosts'', ''read''])"

lemma user_command_plain: "cmd \<in> set userCommands \<Longrightarrow> plain_command cmd"
  by (auto simp: userCommands_def plain_command_def)

lemma sharelock_command:
  assumes "plain_command cmd"
  shows "config_Load D (mc_os mc) = (Inl e, s) \<Longrightarrow>
      sharelock P B N D S v (a # cmd # args) mc = (if panics e then 2 else 1, [], mc)"
    and "config_Load D (mc_os mc) = (Inr cfg, s) \<Longrightarrow>
      bindE (restore_session P B N D cmd) (\<lambda>_. run_command P B N D S a cmd args)
        ((start_process mc)\<lparr>p_client := client_for (chosen_server cfg (mc_os mc)) (start_client mc)\<rparr>) = (r, p) \<Longrightarrow>
      sharelock P B N D S v (a # cmd # args) mc = (exit_status r, p_out p, end_process p)"
proof -
  note start = sharelock_def sharelock_main_def run_bind run_on run_exit_on_error
  show "sharelock P B N D S v (a # cmd # args) mc = (if panics e then 2 else 1, [], mc)"
    if "config_Load D (mc_os mc) = (Inl e, s)"
  proof -
    have "exit_status (Inl e) = 2" if "panics e" using that by (cases e) auto
    with that assms config_Load_state [OF that] show ?thesis
      by (auto simp: start plain_command_def end_process_def start_process_def start_client_def new_client_def)
  qed
  show "sharelock P B N D S v (a # cmd # args) mc = (exit_status r, p_out p, end_process p)"
    if "config_Load D (mc_os mc) = (Inr cfg, s)"
      and run: "bindE (restore_session P B N D cmd) (\<lambda>_. run_command P B N D S a cmd args)
        ((start_process mc)\<lparr>p_client := client_for (chosen_server cfg (mc_os mc)) (start_client mc)\<rparr>) = (r, p)"
  proof -
    obtain p'' where "connected (chosen_server cfg (mc_os mc))
        (bindE (restore_session P B N D cmd) (\<lambda>_. run_command P B N D S a cmd args)) (start_process mc) = (r, p'')"
        "p_out p'' = p_out p" "p_err p'' = p_err p" "end_process p'' = end_process p"
      by (rule run_connected [where p = "start_process mc" and
          m = "bindE (restore_session P B N D cmd) (\<lambda>_. run_command P B N D S a cmd args)", OF run [folded start_process_simps(3) [of mc]]])
    with that(1) assms config_Load_state [OF that(1)] show ?thesis
      by (simp add: sharelock_def sharelock_main_def run_bind [of "exit_on_error c m" for c m]
          run_bind [of "gets g" for g] run_on run_exit_on_error plain_command_def)
  qed
qed

lemma no_session_exits:
  assumes "cmd \<in> set userCommands" and "LoadSession D (p_os p) = None"
  obtains ds where "bindE (restore_session P B N D cmd) k p = (Inl (Exit 1), p\<lparr>p_err := ds\<rparr>)"
  using assms by (simp add: restore_session_def run_bind run_complaints)

lemma session_restored:
  assumes "cmd \<in> set userCommands" and "LoadSession D (p_os p) = Some (u, pw)"
  shows "app_GetUser P B N u pw (p_client p) = (Inr (), c) \<Longrightarrow>
      bindE (restore_session P B N D cmd) k p = k () (p\<lparr>p_client := c\<rparr>)"
    and "app_GetUser P B N u pw (p_client p) = (Inl e, c) \<Longrightarrow>
      \<exists>ds. bindE (restore_session P B N D cmd) k p =
        (Inl (if panics e then e else Exit 1), p\<lparr>p_client := c, p_err := ds\<rparr>)"
proof -
  note run = restore_session_def run_bind run_on run_exit_on_error assms
  show "bindE (restore_session P B N D cmd) k p = k () (p\<lparr>p_client := c\<rparr>)"
    if "app_GetUser P B N u pw (p_client p) = (Inr (), c)"
    using that by (simp add: run)
  show "\<exists>ds. bindE (restore_session P B N D cmd) k p =
      (Inl (if panics e then e else Exit 1), p\<lparr>p_client := c, p_err := ds\<rparr>)"
    if "app_GetUser P B N u pw (p_client p) = (Inl e, c)"
  proof (cases "panics e")
    case True
    with that show ?thesis by (intro exI [of _ "p_err p"]) (simp add: run)
  next
    case False
    with that show ?thesis
      by (intro exI [of _ "p_err p @ [Report (lit ''Error: session expired, please login again: '') e]"]) (simp add: run)
  qed
qed

section \<open>Properties\<close>

text \<open>C21. The commands on files run only in a session: without one they exit with an error, print nothing and
  leave disk, server and random source as they were; and whenever one of them exits with 0, the
  session's user name and password have opened the account on the configured server.\<close>

theorem user_commands_need_login:
  assumes "cmd \<in> set userCommands" and "sharelock P B N D S v (a # cmd # args) mc = (st, out, mc')"
  shows "(LoadSession D (mc_os mc) = None \<longrightarrow> st \<noteq> 0 \<and> out = [] \<and> mc' = mc) \<and>
    (st = 0 \<longrightarrow> (\<exists>u pw cfg c. LoadSession D (mc_os mc) = Some (u, pw) \<and>
      config_Load D (mc_os mc) = (Inr cfg, mc_os mc) \<and>
      app_GetUser P B N u pw (client_for (chosen_server cfg (mc_os mc)) (start_client mc)) = (Inr (), c)))"
proof -
  note plain = user_command_plain [OF assms(1)]
  obtain rc s where load: "config_Load D (mc_os mc) = (rc, s)" by fastforce
  show ?thesis
  proof (cases rc)
    case (Inl e)
    with sharelock_command(1) [OF plain load [unfolded Inl]] assms(2) show ?thesis by (simp split: if_splits)
  next
    case (Inr cfg)
    note load = load [unfolded Inr config_Load_state [OF load]]
    let ?p = "(start_process mc)\<lparr>p_client := client_for (chosen_server cfg (mc_os mc)) (start_client mc)\<rparr>"
    note run = sharelock_command(2) [OF plain load]
    show ?thesis
    proof (cases "LoadSession D (mc_os mc)")
      case None
      then have "LoadSession D (p_os ?p) = None" by simp
      from no_session_exits [OF assms(1) this] obtain ds
        where "bindE (restore_session P B N D cmd) (\<lambda>_. run_command P B N D S a cmd args) ?p = (Inl (Exit 1), ?p\<lparr>p_err := ds\<rparr>)"
        by metis
      from run [OF this] assms(2) None show ?thesis by simp
    next
      case (Some up)
      obtain u pw where up: "up = (u, pw)" by fastforce
      then have sess: "LoadSession D (p_os ?p) = Some (u, pw)" using Some by simp
      obtain r c where get: "app_GetUser P B N u pw (p_client ?p) = (r, c)" by fastforce
      show ?thesis
      proof (cases r)
        case (Inl e)
        have "exit_status (Inl (if panics e then e else Exit 1)) \<noteq> 0" by (cases e) auto
        moreover obtain ds where "bindE (restore_session P B N D cmd) (\<lambda>_. run_command P B N D S a cmd args) ?p =
            (Inl (if panics e then e else Exit 1), ?p\<lparr>p_client := c, p_err := ds\<rparr>)"
          using session_restored(2) [OF assms(1) sess get [unfolded Inl]] by metis
        ultimately show ?thesis using run assms(2) Some by auto
      qed (use Some up load get in auto)
    qed
  qed
qed

text \<open>An empty machine, for examples: no variables, no files, and an empty server.\<close>

definition empty_machine :: "(bytes \<rightharpoonup> bytes) machine" where
  "empty_machine = \<lparr>mc_os = \<lparr>os_env = Map.empty, os_files = [lit ''f'' \<mapsto> [7]], os_dirs = {dot}\<rparr>,
     mc_server = Map.empty, mc_dials = 0, mc_tick = 0\<rparr>"

definition no_streams :: dialer where
  "no_streams tls addr = Inl (Msg ''connection refused'' [])"

lemma empty_machine_files:
  "sessionPath D (mc_os empty_machine) = lit ''.session''" "configPath D (mc_os empty_machine) = lit ''.hosts''"
  "os_UserHomeDir (mc_os empty_machine) \<noteq> Inr home"
  by (auto simp: empty_machine_def sessionPath_def configPath_def os_Getenv_def os_UserHomeDir_def Let_def)

lemma empty_machine_load:
  "LoadSession plain_disk (mc_os empty_machine) = None"
  "config_Load plain_disk (mc_os empty_machine) = (Inr \<lparr>Hosts = fmempty, cfg_path = lit ''.hosts''\<rparr>, mc_os empty_machine)"
proof -
  have "os_ReadFile plain_disk p (mc_os empty_machine) = (Inl (not_exist p), mc_os empty_machine)"
    if "p = lit ''.session'' \<or> p = lit ''.hosts''" for p
    using that by (auto simp: os_ReadFile_def empty_machine_def) (simp_all add: lit_def)
  then show "LoadSession plain_disk (mc_os empty_machine) = None"
    "config_Load plain_disk (mc_os empty_machine) = (Inr \<lparr>Hosts = fmempty, cfg_path = lit ''.hosts''\<rparr>, mc_os empty_machine)"
    by (simp_all add: LoadSession_def config_Load_def Let_def empty_machine_files)
qed

theorem user_commands_need_login_witness:
  "\<exists>st. sharelock P0 map_badger N0 plain_disk no_streams ([], None) [lit ''sharelock'', lit ''store'', lit ''-f=f''] empty_machine =
    (st, [], empty_machine) \<and> st \<noteq> 0"
proof -
  have user: "lit ''store'' \<in> set userCommands" by (simp add: userCommands_def)
  obtain st out mc' where run: "sharelock P0 map_badger N0 plain_disk no_streams ([], None)
      [lit ''sharelock'', lit ''store'', lit ''-f=f''] empty_machine = (st, out, mc')"
    by (metis prod_cases3)
  from user_commands_need_login [OF user run] run empty_machine_load(1) show ?thesis by simp
qed

definition legacy_flags :: "gostr \<Rightarrow> flag_set" where
  "legacy_flags cmd = string_flags
     (if cmd = lit ''storefile'' \<or> cmd = lit ''loadfile'' then [''f'']
      else if cmd = lit ''appendtofile'' then [''f'', ''c'']
      else if cmd = lit ''acceptinvitation'' then [''s'', ''i'', ''f'']
      else [''f'', ''r''])"

lemma parse_assigned:
  assumes "map_of fs n = Some StringFlag" and "s = minus_sign # n @ equals_sign # v"
    and "n \<noteq> []" "hd n \<noteq> minus_sign" "equals_sign \<notin> set n"
  shows "parse_flags fs (s # args) acc = parse_flags fs args (acc @ [(n, FStr v)])"
    and "parse_flags fs [s] [] = Parsed [(n, FStr v)] []"
proof -
  have "n @ equals_sign # v \<noteq> [minus_sign]" using assms(3) by (cases n) auto
  then show "parse_flags fs (s # args) acc = parse_flags fs args (acc @ [(n, FStr v)])"
    and "parse_flags fs [s] [] = Parsed [(n, FStr v)] []"
    using assms(1) flag_parts_spelled(1) [OF assms(3-5), of v] by (simp_all add: assms(2))
qed

lemma client_without_user:
  assumes "cl_user c = None" and "\<not> cl_ready c"
  shows "app_StoreFile P B N f b c = (Inl nil_pointer, c)" "app_LoadFile P B N f c = (Inl nil_pointer, c)"
    "app_AppendToFile P B N f (Some b) c = (Inl nil_pointer, c)"
    "app_CreateInvitation P B N f n c = (Inl nil_pointer, c)"
    "app_AcceptInvitation P B N n i f c = (Inl nil_pointer, c)" "app_RevokeAccess P B N f n c = (Inl nil_pointer, c)"
  using assms by (simp_all add: app_StoreFile_def app_LoadFile_def app_AppendToFile_def app_CreateInvitation_def
      app_AcceptInvitation_def app_RevokeAccess_def no_user_panics run_bind run_guard)

text \<open>Runs that fail and only write to the standard error.\<close>

definition fails_quietly :: "('d process, unit) prog \<Rightarrow> 'd process \<Rightarrow> bool" where
  "fails_quietly m p \<longleftrightarrow> (\<exists>e ds. m p = (Inl e, p\<lparr>p_err := ds\<rparr>) \<and> exit_status (Inl e) \<noteq> 0)"

lemma fails_quietly_exit: "m p = (Inl (Exit 1), p\<lparr>p_err := ds\<rparr>) \<Longrightarrow> fails_quietly m p"
  unfolding fails_quietly_def by (auto intro!: exI [of _ "Exit 1"])

lemma fails_quietly_error:
  assumes "m p = (Inl e, p)"
  shows "fails_quietly (bindE (exit_on_error c m) k) p"
proof (cases "panics e")
  case True
  then have "exit_status (Inl e) \<noteq> 0" by (cases e) auto
  with True assms show ?thesis
    unfolding fails_quietly_def by (intro exI [of _ e] exI [of _ "p_err p"]) (simp add: run_bind run_exit_on_error)
qed (use assms in \<open>auto intro!: fails_quietly_exit simp: run_bind run_exit_on_error\<close>)

lemma fails_quietly_required:
  "(b \<Longrightarrow> fails_quietly (k ()) p) \<Longrightarrow> fails_quietly (bindE (required b msg u) k) p"
  by (cases b) (auto intro!: fails_quietly_exit simp: run_bind run_required fails_quietly_def)

lemma fails_quietly_no_user:
  assumes "m (p_client p) = (Inl nil_pointer, p_client p)"
  shows "fails_quietly (bindE (exit_on_error c (on_client m)) k) p"
  by (rule fails_quietly_error [where e = nil_pointer]) (simp add: run_on assms)

lemma os_ReadFile_on_os: "on_os (os_ReadFile D f) p = (fst (os_ReadFile D f (p_os p)), p)"
proof -
  obtain r s where "os_ReadFile D f (p_os p) = (r, s)" by fastforce
  moreover from os_unchanged [OF this] have "s = p_os p" .
  ultimately show ?thesis by (simp add: run_on)
qed

lemma fails_quietly_read:
  assumes "\<And>b. fails_quietly (k b) p"
  shows "fails_quietly (bindE (exit_on_error c (on_os (os_ReadFile D f))) k) p"
proof (cases "fst (os_ReadFile D f (p_os p))")
  case (Inl e)
  then show ?thesis by (intro fails_quietly_error) (simp add: os_ReadFile_on_os)
next
  case (Inr b)
  with assms [of b] show ?thesis
    by (simp add: fails_quietly_def run_bind run_exit_on_error os_ReadFile_on_os)
qed

lemma fails_quietly_uuid:
  "(\<And>x. fails_quietly (k x) p) \<Longrightarrow>
    fails_quietly (bindE (case i of None \<Rightarrow> die d | Some x \<Rightarrow> ret x) k) p"
  by (cases i) (auto intro!: fails_quietly_exit simp: run_bind run_complaints fails_quietly_def)

lemma flags_then_fail:
  assumes "\<And>fs. fails_quietly (k fs) p"
  shows "\<exists>r ds. bindE (parse_flags_or_exit u fl args) k p = (r, p\<lparr>p_err := ds\<rparr>) \<and>
    (exit_status r = 0 \<longrightarrow> parse_flags fl args [] = FlagHelp)"
proof (cases "parse_flags fl args []")
  case (Parsed acc rest)
  with assms [of acc] show ?thesis
    by (auto simp: fails_quietly_def run_bind run_parse_flags)
qed (auto simp: run_bind parse_flags_or_exit_def run_complaints)

lemma file_commands_without_user:
  assumes "cl_user (p_client p) = None" and "\<not> cl_ready (p_client p)"
    and "(m, ns) \<in> {(cmdStore P B N D args, [''f'']), (cmdLoad P B N args, [''f'']),
      (cmdAppend P B N args, [''f'', ''c'']), (cmdShare P B N args, [''f'', ''r'']),
      (cmdAccept P B N args, [''s'', ''i'', ''f'']), (cmdRevoke P B N args, [''f'', ''r''])}"
  shows "\<exists>r ds. m p = (r, p\<lparr>p_err := ds\<rparr>) \<and> (exit_status r = 0 \<longrightarrow> parse_flags (string_flags ns) args [] = FlagHelp)"
proof -
  note fail = flags_then_fail fails_quietly_required fails_quietly_read fails_quietly_uuid
    fails_quietly_no_user client_without_user [OF assms(1,2)]
  note cmds = cmdStore_def cmdLoad_def cmdAppend_def cmdShare_def cmdAccept_def cmdRevoke_def
  consider "m = cmdStore P B N D args" "ns = [''f'']" | "m = cmdLoad P B N args" "ns = [''f'']"
    | "m = cmdAppend P B N args" "ns = [''f'', ''c'']" | "m = cmdShare P B N args" "ns = [''f'', ''r'']"
    | "m = cmdAccept P B N args" "ns = [''s'', ''i'', ''f'']" | "m = cmdRevoke P B N args" "ns = [''f'', ''r'']"
    using assms(3) by blast
  then show ?thesis
    by cases (simp only: cmds Let_def; rule fail; (rule fail)+)+
qed

lemma legacy_command_fails:
  assumes "cl_user (p_client p) = None" and "\<not> cl_ready (p_client p)" and "cmd \<in> set (drop 2 legacyCommands)"
  shows "\<exists>r ds. run_command P B N D S a cmd args p = (r, p\<lparr>p_err := ds\<rparr>) \<and>
    (exit_status r = 0 \<longrightarrow> parse_flags (legacy_flags cmd) args [] = FlagHelp)"
proof -
  note run = run_command_def legacyCommands_def runLegacy_def run_bind run_complaints legacy_flags_def
  have step: ?thesis
    if "run_command P B N D S a cmd args p = m (p\<lparr>p_err := ds\<rparr>)" and "legacy_flags cmd = string_flags ns"
      and "(m, ns) \<in> {(cmdStore P B N D args, [''f'']), (cmdLoad P B N args, [''f'']),
        (cmdAppend P B N args, [''f'', ''c'']), (cmdShare P B N args, [''f'', ''r'']),
        (cmdAccept P B N args, [''s'', ''i'', ''f'']), (cmdRevoke P B N args, [''f'', ''r''])}" for m ns ds
  proof -
    have "cl_user (p_client (p\<lparr>p_err := ds\<rparr>)) = None" "\<not> cl_ready (p_client (p\<lparr>p_err := ds\<rparr>))"
      using assms(1,2) by simp_all
    from file_commands_without_user [OF this that(3)] that(1,2) show ?thesis by auto
  qed
  consider "cmd = lit ''storefile''" | "cmd = lit ''loadfile''" | "cmd = lit ''appendtofile''"
    | "cmd = lit ''createinvitation''" | "cmd = lit ''acceptinvitation''" | "cmd = lit ''revokeaccess''"
    using assms(3) by (auto simp: legacyCommands_def)
  then show ?thesis
  proof cases
    case 1
    then show ?thesis
      by (intro step [where m = "cmdStore P B N D args" and ns = "[''f'']"]) (simp_all add: run)
  next
    case 2
    then show ?thesis
      by (intro step [where m = "cmdLoad P B N args" and ns = "[''f'']"]) (simp_all add: run)
  next
    case 3
    then show ?thesis
      by (intro step [where m = "cmdAppend P B N args" and ns = "[''f'', ''c'']"]) (simp_all add: run)
  next
    case 4
    then show ?thesis
      by (intro step [where m = "cmdShare P B N args" and ns = "[''f'', ''r'']"]) (simp_all add: run)
  next
    case 5
    then show ?thesis
      by (intro step [where m = "cmdAccept P B N args" and ns = "[''s'', ''i'', ''f'']"]) (simp_all add: run)
  next
    case 6
    then show ?thesis
      by (intro step [where m = "cmdRevoke P B N args" and ns = "[''f'', ''r'']"]) (simp_all add: run)
  qed
qed

text \<open>C35. The deprecated names of the file commands are not in the table of commands that restore the session,
  so they run on a client without a user: whatever the session, the server and the arguments are,
  they fail (a request for help apart), print nothing and change nothing.\<close>

theorem legacy_file_commands_never_work:
  assumes "cmd \<in> set (drop 2 legacyCommands)" and "sharelock P B N D S v (a # cmd # args) mc = (st, out, mc')"
  shows "out = [] \<and> mc' = mc \<and> (st = 0 \<longrightarrow> parse_flags (legacy_flags cmd) args [] = FlagHelp)"
proof -
  have plain: "plain_command cmd" and none: "cmd \<notin> set userCommands"
    using assms(1) by (auto simp: legacyCommands_def plain_command_def userCommands_def)
  obtain rc s where load: "config_Load D (mc_os mc) = (rc, s)" by fastforce
  show ?thesis
  proof (cases rc)
    case (Inl e)
    with sharelock_command(1) [OF plain load [unfolded Inl]] assms(2) show ?thesis by (simp split: if_splits)
  next
    case (Inr cfg)
    let ?p = "(start_process mc)\<lparr>p_client := client_for (chosen_server cfg (mc_os mc)) (start_client mc)\<rparr>"
    have "cl_user (p_client ?p) = None" "\<not> cl_ready (p_client ?p)"
      by (simp_all add: start_client_def new_client_def)
    from legacy_command_fails [OF this assms(1), of P B N D S a args]
    obtain r ds where r: "run_command P B N D S a cmd args ?p = (r, ?p\<lparr>p_err := ds\<rparr>)"
        "exit_status r = 0 \<longrightarrow> parse_flags (legacy_flags cmd) args [] = FlagHelp" by (elim exE conjE)
    from r(1) none have "bindE (restore_session P B N D cmd) (\<lambda>_. run_command P B N D S a cmd args) ?p = (r, ?p\<lparr>p_err := ds\<rparr>)"
      by (simp add: restore_session_def run_bind)
    note run = sharelock_command(2) [OF plain load [unfolded Inr] this]
    have "(exit_status r, p_out (?p\<lparr>p_err := ds\<rparr>), end_process (?p\<lparr>p_err := ds\<rparr>)) = (st, out, mc')"
      by (rule trans [OF run [symmetric] assms(2)])
    then have "exit_status r = st" "out = []" "mc' = mc" by simp_all
    with r(2) show ?thesis by blast
  qed
qed

theorem legacy_file_commands_never_work_witness:
  "\<exists>st. sharelock P0 map_badger N0 plain_disk no_streams ([], None) [lit ''sharelock'', lit ''storefile'', lit ''-f=f''] empty_machine =
    (st, [], empty_machine) \<and> st \<noteq> 0"
proof -
  have old: "lit ''storefile'' \<in> set (drop 2 legacyCommands)" by (simp add: legacyCommands_def)
  have flags: "parse_flags (legacy_flags (lit ''storefile'')) [lit ''-f=f''] [] \<noteq> FlagHelp"
  proof -
    have "legacy_flags (lit ''storefile'') = string_flags [''f'']" by (simp add: legacy_flags_def)
    moreover have "parse_flags (string_flags [''f'']) [lit ''-f=f''] [] = Parsed [(lit ''f'', FStr (lit ''f''))] []"
      by (rule parse_assigned(2)) (simp_all add: string_flags_def lit_def)
    ultimately show ?thesis by simp
  qed
  obtain st out mc' where run: "sharelock P0 map_badger N0 plain_disk no_streams ([], None)
      [lit ''sharelock'', lit ''storefile'', lit ''-f=f''] empty_machine = (st, out, mc')"
    by (metis prod_cases3)
  from legacy_file_commands_never_work [OF old run] run flags show ?thesis by auto
qed

section \<open>Accounts without a server\<close>

text \<open>The table loads and names no server for a command to connect to.\<close>

definition no_server :: "disk \<Rightarrow> os \<Rightarrow> bool" where
  "no_server D s \<longleftrightarrow> (case config_Load D s of (Inl e, _) \<Rightarrow> False | (Inr cfg, _) \<Rightarrow> chosen_server cfg s = None)"

lemma no_serverE:
  assumes "no_server D s"
  obtains cfg where "config_Load D s = (Inr cfg, s)" and "chosen_server cfg s = None"
  using assms by (auto simp: no_server_def dest: config_Load_state split: prod.splits sum.splits)

lemma GetUser_offline_missing:
  assumes "digest_ok P" "uuid_ok P" and "address (backing s) = []"
    and "local_map (backing s) (data_name (user_id P n)) = None"
  shows "GetUser P (remote_service B N) n pw s = (Inl (Msg ''user %s not found'' [n]), s)"
  using assms
  by (simp add: GetUser_def run_bind run_wrap run_userID remote_service_def NewService_def RemoteStorage_def
      on_backing_def run_local)

lemma login_fails_without_server:
  assumes "digest_ok P" "uuid_ok P"
  obtains c where "app_GetUser P B N u pw (start_client mc) = (Inl (Msg ''user %s not found'' [u]), c)"
proof -
  let ?c = "(start_client mc)\<lparr>cl_ready := True\<rparr>"
  let ?s = "\<lparr>backing = cl_world ?c, tick = cl_tick ?c, userdata = user_zero\<rparr>"
  have "GetUser P (remote_service B N) u pw ?s = (Inl (Msg ''user %s not found'' [u]), ?s)"
    by (rule GetUser_offline_missing [OF assms]) (simp_all add: start_client_def new_client_def)
  then have "in_service user_zero (GetUser P (remote_service B N) u pw) ?c =
      (Inl (Msg ''user %s not found'' [u]), user_zero, ?c)"
    by (simp add: in_service_def)
  then show thesis
    by (intro that) (simp add: app_GetUser_def run_bind ensureServices_def)
qed

lemma user_command_without_server:
  assumes "digest_ok P" "uuid_ok P" and "no_server D (mc_os mc)" and "cmd \<in> set userCommands"
  obtains mc' where "sharelock P B N D S v (a # cmd # args) mc = (1, [], mc')"
proof -
  obtain cfg where load: "config_Load D (mc_os mc) = (Inr cfg, mc_os mc)" and none: "chosen_server cfg (mc_os mc) = None"
    using assms(3) by (rule no_serverE)
  let ?p = "(start_process mc)\<lparr>p_client := client_for (chosen_server cfg (mc_os mc)) (start_client mc)\<rparr>"
  note run = sharelock_command(2) [OF user_command_plain [OF assms(4)] load]
  show thesis
  proof (cases "LoadSession D (mc_os mc)")
    case None
    then have "LoadSession D (p_os ?p) = None" by simp
    from no_session_exits [OF assms(4) this] obtain ds
      where "bindE (restore_session P B N D cmd) (\<lambda>_. run_command P B N D S a cmd args) ?p = (Inl (Exit 1), ?p\<lparr>p_err := ds\<rparr>)"
      by metis
    from run [OF this] show thesis by (intro that) simp
  next
    case (Some up)
    obtain u pw where "up = (u, pw)" by fastforce
    then have sess: "LoadSession D (p_os ?p) = Some (u, pw)" using Some by simp
    obtain c where "app_GetUser P B N u pw (start_client mc) = (Inl (Msg ''user %s not found'' [u]), c)"
      by (rule login_fails_without_server [OF assms(1,2)])
    then have get: "app_GetUser P B N u pw (p_client ?p) = (Inl (Msg ''user %s not found'' [u]), c)"
      by (simp add: none)
    from session_restored(2) [OF assms(4) sess get] obtain ds
      where "bindE (restore_session P B N D cmd) (\<lambda>_. run_command P B N D S a cmd args) ?p =
        (Inl (Exit 1), ?p\<lparr>p_client := c, p_err := ds\<rparr>)"
      by auto
    from run [OF this] show thesis by (intro that) simp
  qed
qed

text \<open>C34. Without a configured server \<open>init\<close> still reports success, but the account lives in the memory of
  that process: every later command of the user exits with 1 and prints nothing as long as no
  server is configured.\<close>

theorem init_without_server_is_lost:
  assumes "provider_ok P" and "no_server D (mc_os mc)" and "utf8_valid n" and "n \<noteq> []" "pw \<noteq> []"
    and "parse_flags (string_flags [''u'', ''p'']) args [] = Parsed acc rest"
    and "string_flag acc ''u'' [] = n" "string_flag acc ''p'' [] = pw"
  shows "\<exists>mc'. sharelock P B N D S v (a # lit ''init'' # args) mc = (0, ok_line, mc') \<and>
    (no_server D (mc_os mc') \<longrightarrow>
      (\<forall>cmd \<in> set userCommands. \<forall>args. \<exists>mc''. sharelock P B N D S v (a # cmd # args) mc' = (1, [], mc'')))"
proof -
  note ok = provider_parts [OF assms(1)]
  obtain cfg where load: "config_Load D (mc_os mc) = (Inr cfg, mc_os mc)" and none: "chosen_server cfg (mc_os mc) = None"
    using assms(2) by (rule no_serverE)
  obtain m where m: "mirrors (start_client mc) user_zero m" "store_data (backing m) = Map.empty"
    by (rule mirror_exists [of "start_client mc" user_zero])
      (simp_all add: start_client_def new_client_def fun_eq_iff)
  then have "store_data (backing m) (user_id P n) = None" by simp
  from InitUser_run [OF assms(1) this assms(3)] obtain u m1 where i: "InitUser P memory_service n pw m = (Inr u, m1)"
    by metis
  obtain c where c: "app_InitUser P B N n pw (start_client mc) = (Inr (), c)"
    using login_offline(1) [OF m(1) i] by blast
  have plain: "plain_command (lit ''init'')" and not_user: "lit ''init'' \<notin> set userCommands"
    by (simp_all add: plain_command_def userCommands_def)
  let ?p = "(start_process mc)\<lparr>p_client := client_for (chosen_server cfg (mc_os mc)) (start_client mc)\<rparr>"
  obtain p where "cmdInit P B N D args ?p = (Inr (), p)" and out: "p_out p = ok_line"
    using assms(4-8) c none
    by (simp add: cmdInit_def run_bind run_parse_flags run_required run_on run_exit_on_error run_ignore_error Let_def
        split: prod.split)
  then have "bindE (restore_session P B N D (lit ''init'')) (\<lambda>_. run_command P B N D S a (lit ''init'') args) ?p = (Inr (), p)"
    using not_user by (simp add: restore_session_def run_bind run_command_def)
  from sharelock_command(2) [OF plain load this] out
  have "sharelock P B N D S v (a # lit ''init'' # args) mc = (0, ok_line, end_process p)" by simp
  then show ?thesis
    using user_command_without_server [OF ok(3,7)] by blast
qed

theorem init_without_server_is_lost_witness:
  "\<exists>mc'. sharelock P0 map_badger N0 plain_disk no_streams ([], None)
    [lit ''sharelock'', lit ''init'', lit ''-u=alice'', lit ''-p=pw''] empty_machine = (0, ok_line, mc')"
proof -
  let ?acc = "[(lit ''u'', FStr (lit ''alice'')), (lit ''p'', FStr (lit ''pw''))]"
  have "parse_flags (string_flags [''u'', ''p'']) (lit ''-u=alice'' # [lit ''-p=pw'']) [] =
      parse_flags (string_flags [''u'', ''p'']) [lit ''-p=pw''] ([] @ [(lit ''u'', FStr (lit ''alice''))])"
    by (rule parse_assigned(1)) (simp_all add: string_flags_def lit_def)
  also have "\<dots> = parse_flags (string_flags [''u'', ''p'']) [] (([] @ [(lit ''u'', FStr (lit ''alice''))]) @ [(lit ''p'', FStr (lit ''pw''))])"
    by (rule parse_assigned(1)) (simp_all add: string_flags_def lit_def)
  finally have parse: "parse_flags (string_flags [''u'', ''p'']) [lit ''-u=alice'', lit ''-p=pw''] [] = Parsed ?acc []"
    by simp
  have none: "no_server plain_disk (mc_os empty_machine)"
    by (simp add: no_server_def empty_machine_load chosen_server_def config_Get_def Let_def)
  have valid: "utf8_valid (lit ''alice'')"
    by (rule utf8_valid_ascii) (auto simp: lit_def)
  have flags: "string_flag ?acc ''u'' [] = lit ''alice''" "string_flag ?acc ''p'' [] = lit ''pw''"
    by (simp_all add: string_flag_def)
  from init_without_server_is_lost [OF P0_ok none valid _ _ parse flags] show ?thesis by fastforce
qed

section \<open>The server table across processes\<close>

lemma wf_hosts_changes:
  assumes "wf_hosts (Hosts c)"
  shows "utf8_valid n \<Longrightarrow> utf8_valid addr \<Longrightarrow> wf_hosts (Hosts (config_Set n addr t c))"
    and "wf_hosts (Hosts (config_Remove n c))"
    and "config_Get c n = Some e \<Longrightarrow> utf8_valid n \<and> utf8_valid (Addr e)"
  using assms by (auto simp: wf_hosts_def config_Set_def config_Remove_def config_Get_def wf_map_def)

text \<open>The change a successful \<open>host\<close> command has made is what it saves.\<close>

lemma host_saved:
  assumes "bindE (exit_on_error (lit ''Error: save failed: '') (on_os (config_Save D c))) (\<lambda>_. Println (lit ''ok'')) p = (Inr u, p')"
    and "wf_hosts (Hosts c)" and "cfg_path c = configPath D (p_os p)"
    and "\<And>home. os_UserHomeDir (p_os p) = Inr home \<Longrightarrow> settled D (hosts_primary home) (configPath D (p_os p)) (p_os p)"
  shows "config_Load D (p_os p') = (Inr c, p_os p') \<and> p_out p' = p_out p @ ok_line"
proof -
  obtain r s' where save: "config_Save D c (p_os p) = (r, s')" by fastforce
  have r: "r = Inr ()"
  proof (cases r)
    case (Inl e)
    with assms(1) save show ?thesis by (simp add: run_bind run_on run_exit_on_error split: if_splits)
  qed simp
  note s = save [unfolded r]
  from assms(1) s have p': "p' = p\<lparr>p_os := s', p_out := p_out p @ ok_line\<rparr>"
    by (simp add: run_bind run_on run_exit_on_error)
  from Load_Save [OF s assms(2-4)] p' show ?thesis by simp
qed

lemma sharelock_host:
  assumes "sharelock P B N D S v (a # h # args) mc = (st, out, mc')" and "h \<in> {lit ''host'', lit ''hosts''}"
    and "config_Load D (mc_os mc) = (Inr cfg, s)"
  obtains r p where "hostCmd D cfg args (start_process mc) = (r, p)" and "st = exit_status r" "out = p_out p" "mc' = end_process p"
proof -
  obtain r p' where run: "hostCmd D cfg args (start_process mc) = (r, p')" by fastforce
  with assms config_Load_state [OF assms(3)] show thesis
    by (intro that [of r p']) (auto simp: sharelock_def sharelock_main_def run_bind run_on run_exit_on_error)
qed

lemma exit_status_0: "exit_status r = 0 \<Longrightarrow> (\<exists>u. r = Inr u) \<or> r = Inl (Exit 0)"
  by (cases r rule: exit_status.cases) auto

lemma config_Load_path: "config_Load D s = (Inr cfg, s') \<Longrightarrow> cfg_path cfg = configPath D s"
  by (auto simp: config_Load_def Let_def split: prod.splits sum.splits if_splits)

lemma saved_or_failed:
  assumes "bindE (exit_on_error c m) (\<lambda>_. Println b) p = (r, p')" and "exit_status r = 0"
  shows "r = Inr ()"
proof -
  have [simp]: "exit_status (Inl e) \<noteq> 0" if "panics e" for e using that by (cases e) auto
  from assms show ?thesis
    by (auto simp: run_bind run_on run_exit_on_error split: prod.splits sum.splits if_splits)
qed

text \<open>The three subcommands that change the table, on one that has been loaded.\<close>

lemma host_done:
  assumes "bindE (exit_on_error (lit ''Error: save failed: '') (on_os (config_Save D c))) (\<lambda>_. Println (lit ''ok'')) (start_process mc) = (r, p)"
    and "exit_status r = 0" and "config_Load D (mc_os mc) = (Inr cfg, s)" and "cfg_path c = cfg_path cfg"
    and "wf_hosts (Hosts c)"
    and "\<And>home. os_UserHomeDir (mc_os mc) = Inr home \<Longrightarrow> settled D (hosts_primary home) (configPath D (mc_os mc)) (mc_os mc)"
  shows "config_Load D (mc_os (end_process p)) = (Inr c, mc_os (end_process p)) \<and> p_out p = ok_line"
proof -
  have "r = Inr ()" using assms(1,2) by (rule saved_or_failed)
  from host_saved [OF assms(1) [unfolded this] assms(5)] assms(4,6) config_Load_path [OF assms(3)] show ?thesis
    by (simp add: end_process_def)
qed

lemma host_add_runs:
  assumes "hostCmd D cfg (lit ''add'' # rest) p = (r, p')" and "exit_status r = 0"
  obtains n addr flags where "rest = n # addr # flags"
    and "bindE (exit_on_error (lit ''Error: save failed: '') (on_os (config_Save D (config_Set n addr
      (lit ''--tls=false'' \<notin> set flags \<and> lit ''--no-tls'' \<notin> set flags) cfg)))) (\<lambda>_. Println (lit ''ok'')) p = (r, p')"
proof -
  obtain n addr flags where rest: "rest = n # addr # flags"
    using assms by (cases rest; cases "tl rest") (auto simp: run_complaints hostCmd_def)
  moreover have "(\<forall>x \<in> set flags. \<not> (x = lit ''--tls=false'' \<or> x = lit ''--no-tls'')) =
      (lit ''--tls=false'' \<notin> set flags \<and> lit ''--no-tls'' \<notin> set flags)"
    by auto
  ultimately show thesis
    using assms(1) that by (simp add: hostCmd_def Let_def)
qed

lemma host_rm_runs:
  assumes "hostCmd D cfg (sub # rest) p = (r, p')" and "exit_status r = 0" and "sub \<in> {lit ''rm'', lit ''remove''}"
  obtains n more where "rest = n # more"
    and "bindE (exit_on_error (lit ''Error: save failed: '') (on_os (config_Save D (config_Remove n cfg)))) (\<lambda>_. Println (lit ''ok'')) p = (r, p')"
  using assms that by (cases rest) (auto simp: run_complaints hostCmd_def)

lemma host_use_runs:
  assumes "hostCmd D cfg (sub # rest) p = (r, p')" and "exit_status r = 0" and "sub \<in> {lit ''use'', lit ''default''}"
  obtains n more e where "rest = n # more" and "config_Get cfg n = Some e"
    and "bindE (exit_on_error (lit ''Error: save failed: '') (on_os (config_Save D (config_Remove n
      (config_Set (lit ''default'') (Addr e) (TLS e) cfg))))) (\<lambda>_. Println (lit ''ok'')) p = (r, p')"
proof -
  obtain n more where rest: "rest = n # more"
    using assms by (cases rest) (auto simp: run_complaints hostCmd_def)
  obtain e where e: "config_Get cfg n = Some e"
    using assms by (cases "config_Get cfg n") (auto simp: run_complaints hostCmd_def rest run_bind)
  show thesis
    using assms(1,3) by (intro that [OF rest e]) (auto simp: run_complaints hostCmd_def rest e run_bind [of "ret x" for x] Let_def)
qed

text \<open>C29. What \<open>host add\<close>, \<open>host rm\<close> and \<open>host use\<close> do to the table, as the next command loads it: when one of
  them exits with 0, the named entry is set, removed, or moved to \<open>default\<close>, and every other entry
  is as before. The entry that is used loses its own name, so \<open>host use default\<close> removes the
  default server.\<close>

theorem host_changes_are_remembered:
  assumes "sharelock P B N D S v (a # h # sub # rest) mc = (0, out, mc')" and "h \<in> {lit ''host'', lit ''hosts''}"
    and load: "config_Load D (mc_os mc) = (Inr cfg, s)" and wf: "wf_hosts (Hosts cfg)" "\<forall>x \<in> set rest. utf8_valid x"
    and fixed: "\<And>home. os_UserHomeDir (mc_os mc) = Inr home \<Longrightarrow>
      settled D (hosts_primary home) (configPath D (mc_os mc)) (mc_os mc)"
  shows "(sub = lit ''add'' \<longrightarrow> (\<exists>n addr flags. rest = n # addr # flags \<and> out = ok_line \<and>
      config_Load D (mc_os mc') =
        (Inr (config_Set n addr (lit ''--tls=false'' \<notin> set flags \<and> lit ''--no-tls'' \<notin> set flags) cfg), mc_os mc'))) \<and>
    (sub \<in> {lit ''rm'', lit ''remove''} \<longrightarrow> (\<exists>n more. rest = n # more \<and> out = ok_line \<and>
      config_Load D (mc_os mc') = (Inr (config_Remove n cfg), mc_os mc'))) \<and>
    (sub \<in> {lit ''use'', lit ''default''} \<longrightarrow> (\<exists>n more e cfg'. rest = n # more \<and> out = ok_line \<and>
      config_Get cfg n = Some e \<and> config_Load D (mc_os mc') = (Inr cfg', mc_os mc') \<and> config_Get cfg' n = None \<and>
      (n \<noteq> lit ''default'' \<longrightarrow> config_Get cfg' (lit ''default'') = Some e) \<and>
      (\<forall>k. k \<notin> {n, lit ''default''} \<longrightarrow> config_Get cfg' k = config_Get cfg k)))"
proof -
  obtain r p where run: "hostCmd D cfg (sub # rest) (start_process mc) = (r, p)" and r: "exit_status r = 0"
      and finish: "out = p_out p" "mc' = end_process p"
    by (rule sharelock_host [OF assms(1,2) load]) simp
  note saved = host_done [OF _ r load _ _ fixed]
  show ?thesis
  proof (intro conjI impI)
    assume "sub = lit ''add''"
    then obtain n addr flags where rest: "rest = n # addr # flags" and save: "bindE (exit_on_error (lit ''Error: save failed: '') (on_os
        (config_Save D (config_Set n addr (lit ''--tls=false'' \<notin> set flags \<and> lit ''--no-tls'' \<notin> set flags) cfg))))
        (\<lambda>_. Println (lit ''ok'')) (start_process mc) = (r, p)"
      using host_add_runs [of D cfg rest] run r by metis
    from saved [OF save _ wf_hosts_changes(1) [OF wf(1)]] wf(2) rest
    show "\<exists>n addr flags. rest = n # addr # flags \<and> out = ok_line \<and> config_Load D (mc_os mc') =
        (Inr (config_Set n addr (lit ''--tls=false'' \<notin> set flags \<and> lit ''--no-tls'' \<notin> set flags) cfg), mc_os mc')"
      by (simp add: config_Set_def finish)
  next
    assume "sub \<in> {lit ''rm'', lit ''remove''}"
    then obtain n more where rest: "rest = n # more" and save: "bindE (exit_on_error (lit ''Error: save failed: '') (on_os
        (config_Save D (config_Remove n cfg)))) (\<lambda>_. Println (lit ''ok'')) (start_process mc) = (r, p)"
      using host_rm_runs [OF run r] by metis
    from saved [OF save _ wf_hosts_changes(2) [OF wf(1)]] rest
    show "\<exists>n more. rest = n # more \<and> out = ok_line \<and> config_Load D (mc_os mc') = (Inr (config_Remove n cfg), mc_os mc')"
      by (simp add: config_Remove_def finish)
  next
    assume "sub \<in> {lit ''use'', lit ''default''}"
    then obtain n more e where rest: "rest = n # more" and e: "config_Get cfg n = Some e"
        and save: "bindE (exit_on_error (lit ''Error: save failed: '') (on_os (config_Save D (config_Remove n
          (config_Set (lit ''default'') (Addr e) (TLS e) cfg))))) (\<lambda>_. Println (lit ''ok'')) (start_process mc) = (r, p)"
      using host_use_runs [OF run r] by metis
    have "utf8_valid (lit ''default'')" by (rule utf8_valid_ascii) (auto simp: lit_def)
    then have "wf_hosts (Hosts (config_Remove n (config_Set (lit ''default'') (Addr e) (TLS e) cfg)))"
      using wf_hosts_changes(3) [OF wf(1) e] wf(1) by (intro wf_hosts_changes) simp_all
    from saved [OF save _ this] e rest show "\<exists>n more e cfg'. rest = n # more \<and> out = ok_line \<and>
      config_Get cfg n = Some e \<and> config_Load D (mc_os mc') = (Inr cfg', mc_os mc') \<and> config_Get cfg' n = None \<and>
      (n \<noteq> lit ''default'' \<longrightarrow> config_Get cfg' (lit ''default'') = Some e) \<and>
      (\<forall>k. k \<notin> {n, lit ''default''} \<longrightarrow> config_Get cfg' k = config_Get cfg k)"
      by (auto simp: config_Get_def config_Remove_def config_Set_def finish)
  qed
qed

theorem host_changes_are_remembered_witness:
  "\<exists>mc'. sharelock P0 map_badger N0 plain_disk no_streams ([], None)
      [lit ''sharelock'', lit ''host'', lit ''add'', lit ''dev'', lit '':1''] empty_machine = (0, ok_line, mc') \<and>
    (\<exists>cfg. config_Load plain_disk (mc_os mc') = (Inr cfg, mc_os mc') \<and>
      config_Get cfg (lit ''dev'') = Some \<lparr>Addr = lit '':1'', TLS = True\<rparr>)"
proof -
  let ?argv = "[lit ''sharelock'', lit ''host'', lit ''add'', lit ''dev'', lit '':1'']"
  let ?s = "mc_os empty_machine"
  let ?cfg = "\<lparr>Hosts = fmempty, cfg_path = lit ''.hosts''\<rparr>" and ?new = "fmupd (lit ''dev'') \<lparr>Addr = lit '':1'', TLS = True\<rparr> fmempty"
  have dir: "path_Dir (lit ''.hosts'') = dot" "ancestors dot = [dot]" "lit ''.hosts'' \<noteq> dot" "dot \<noteq> lit ''f''"
    by (simp_all add: path_Dir_def path_Clean_def lit_def ancestors_def)
  obtain s' where save: "config_Save plain_disk (?cfg\<lparr>Hosts := ?new\<rparr>) ?s = (Inr (), s')"
    using dir by (simp add: config_Save_def run_bind os_MkdirAll_def os_WriteFile_def os_Create_def os_Append_def
        empty_machine_def Let_def)
  have saved: "bindE (exit_on_error (lit ''Error: save failed: '') (on_os (config_Save plain_disk (?cfg\<lparr>Hosts := ?new\<rparr>)))) (\<lambda>_. Println (lit ''ok''))
      (start_process empty_machine) = (Inr (), (start_process empty_machine)\<lparr>p_os := s', p_out := ok_line\<rparr>)"
    using save by (simp add: run_bind run_on run_exit_on_error)
  obtain mc' where run: "sharelock P0 map_badger N0 plain_disk no_streams ([], None) ?argv empty_machine = (0, ok_line, mc')"
    using empty_machine_load(2) saved
    by (simp add: sharelock_def sharelock_main_def run_bind [of "exit_on_error c m" for c m] run_on
        run_exit_on_error hostCmd_def config_Set_def)
  have "wf_hosts (Hosts ?cfg)" by (simp add: wf_hosts_def)
  moreover have "\<forall>x \<in> set [lit ''dev'', lit '':1'']. utf8_valid x"
    by (auto intro!: utf8_valid_ascii simp: lit_def)
  moreover have "settled plain_disk (hosts_primary home) (configPath plain_disk ?s) ?s"
    if "os_UserHomeDir ?s = Inr home" for home
    using that empty_machine_files(3) by simp
  ultimately have "config_Load plain_disk (mc_os mc') =
      (Inr (config_Set (lit ''dev'') (lit '':1'') True ?cfg), mc_os mc')"
    using host_changes_are_remembered [OF run _ empty_machine_load(2)] by simp
  with run show ?thesis
    by (auto simp: config_Get_def config_Set_def)
qed

end
