(* ===== verification/Reliable.thy ===== *)
theory Reliable
  imports Examples
begin

text \<open>
  The remote storage when nothing goes wrong. \<open>Remote\<close> shows that whatever a call returns is right,
  whatever the network does; here the network and the database work, and the calls return: files
  can then be loaded and stored. An in-memory storage with a limit on the size of a message stands
  for the remote storage that works.
\<close>

section \<open>A network and a database that work\<close>

text \<open>Every connection is made and carries \<open>L\<close> bytes each way.\<close>

definition reliable :: "network \<Rightarrow> nat \<Rightarrow> bool" where
  "reliable N L \<longleftrightarrow>
     (\<forall>n tls addr. net_dial N n tls addr = Inr ()) \<and> (\<forall>n. L \<le> net_up N n \<and> L \<le> net_down N n)"

text \<open>Every transaction on a non-empty key is done.\<close>

definition faultless :: "'d badger \<Rightarrow> ('d \<Rightarrow> bytes \<rightharpoonup> bytes) \<Rightarrow> bool" where
  "faultless B contents \<longleftrightarrow>
     (\<forall>k d. k \<noteq> [] \<longrightarrow> (\<exists>v. txn_Get B k d = Inr v) \<or> txn_Get B k d = Inl ErrKeyNotFound) \<and>
     (\<forall>k v d. k \<noteq> [] \<longrightarrow> (\<exists>d'. txn_Set B k v d = (Inr (), d'))) \<and>
     (\<forall>k d. k \<noteq> [] \<longrightarrow> (\<exists>d'. txn_Delete B k d = (Inr (), d')))"

lemma execute_faultless:
  assumes "badger_ok B contents" and "faultless B contents" and "k \<noteq> []"
  shows "execute B (RGet k) d = (case contents d k of None \<Rightarrow> Missing | Some v \<Rightarrow> Value v, d)"
    and "\<exists>d'. execute B (RSet k v) d = (Done, d') \<and> contents d' = (contents d)(k \<mapsto> v)"
    and "\<exists>d'. execute B (RDelete k) d = (Done, d') \<and> contents d' = (contents d)(k := None)"
proof -
  note b = badger_ok_D [OF assms(1)]
  consider v where "txn_Get B k d = Inr v" | "txn_Get B k d = Inl ErrKeyNotFound"
    using assms(2,3) unfolding faultless_def by metis
  then show "execute B (RGet k) d = (case contents d k of None \<Rightarrow> Missing | Some v \<Rightarrow> Value v, d)"
    by cases (use b(1,2) in simp_all)
  obtain d' where "txn_Set B k v d = (Inr (), d')"
    using assms(2,3) unfolding faultless_def by metis
  then show "\<exists>d'. execute B (RSet k v) d = (Done, d') \<and> contents d' = (contents d)(k \<mapsto> v)"
    using b(3) by simp
  obtain d' where "txn_Delete B k d = (Inr (), d')"
    using assms(2,3) unfolding faultless_def by metis
  then show "\<exists>d'. execute B (RDelete k) d = (Done, d') \<and> contents d' = (contents d)(k := None)"
    using b(4) by simp
qed

section \<open>One call\<close>

lemma readStatus_run: "incoming c = b # rest \<Longrightarrow> readStatus c = (Inr b, c\<lparr>incoming := rest\<rparr>)"
  by (simp add: readStatus_def run_bind run_ReadFull [of c "[b]" rest])

lemma readValue_run:
  assumes "incoming c = lv v" and "length v < 2 ^ 32"
  shows "readValue c = (Inr v, c\<lparr>incoming := []\<rparr>)"
  using ReadFull_lv [of c v "[]"] assms by (simp add: readValue_def run_bind)

lemma readers_run:
  assumes "incoming c = response_bytes r"
  shows "r = Done \<Longrightarrow> fst (done_reader c) = Inr ()" and "r = Missing \<Longrightarrow> fst (get_reader c) = Inr None"
    and "r = Value v \<Longrightarrow> length v < 2 ^ 32 \<Longrightarrow> fst (get_reader c) = Inr (Some v)"
  using assms readStatus_run [of c] readValue_run [of "c\<lparr>incoming := lv v\<rparr>" v]
  by (simp_all add: done_reader_def get_reader_def run_bind same_codes)

lemma reliable_call:
  assumes "reliable N L" and "address w \<noteq> []" and "request_fits q" and "length (request_bytes q) \<le> L"
    and "execute B q (server_db w) = (r, d)" and "length (response_bytes r) \<le> L"
  obtains c where "incoming c = response_bytes r"
    and "over_network B N offline q reader w = (fst (reader c), w\<lparr>dials := Suc (dials w), server_db := d\<rparr>)"
proof -
  let ?w = "w\<lparr>dials := Suc (dials w)\<rparr>" and ?n = "net_up N (dials w)"
  have up: "length (request_bytes q) \<le> ?n" and down: "length (response_bytes r) \<le> net_down N (dials ?w)"
    using assms(1,4,6) order_trans unfolding reliable_def by blast+
  have ex: "execute B q (server_db ?w) = (r, d)" using assms(5) by simp
  obtain c where c: "incoming c = take (net_down N (dials ?w)) (response_bytes r)"
      "call B N (fresh_conn ?n) (request_op q) reader ?w = (fst (reader c), ?w\<lparr>server_db := d\<rparr>)"
    using call_delivered [OF assms(3) up ex, where N = N and reader = reader] by blast
  have "dial N w = (Inr (Some (fresh_conn ?n)), ?w)"
    using assms(1,2) by (simp add: dial_def reliable_def fresh_conn_def Let_def)
  then have "over_network B N offline q reader w = (fst (reader c), w\<lparr>dials := Suc (dials w), server_db := d\<rparr>)"
    using c(2) by (simp add: over_network_def run_bind)
  moreover have "incoming c = response_bytes r"
    using c(1) down by simp
  ultimately show thesis by (rule that [rotated])
qed

lemma length_messages [simp]:
  "length (request_bytes (RGet k)) = 5 + length k" "length (request_bytes (RDelete k)) = 5 + length k"
  "length (request_bytes (RSet k v)) = 9 + length k + length v"
  "length (response_bytes Done) = 1" "length (response_bytes Missing) = 1"
  "length (response_bytes (Value v)) = 5 + length v"
  by (simp_all add: lv_def)

lemma reliable_Get:
  assumes "badger_ok B contents" "faultless B contents" "reliable N L" "address w \<noteq> []" "k \<noteq> []"
    and "5 + length k \<le> L" "L < 2 ^ 32" and "\<And>v. contents (server_db w) k = Some v \<Longrightarrow> 5 + length v \<le> L"
  shows "remote_Get B N k w = (Inr (contents (server_db w) k), w\<lparr>dials := Suc (dials w)\<rparr>)"
proof -
  let ?r = "case contents (server_db w) k of None \<Rightarrow> Missing | Some v \<Rightarrow> Value v"
  note ex = execute_faultless(1) [OF assms(1,2,5), of "server_db w"]
  have len: "length (response_bytes ?r) \<le> L"
    using assms(6,8) by (auto split: option.split simp del: response_bytes.simps)
  obtain c where c: "incoming c = response_bytes ?r"
      "over_network B N (gets (\<lambda>w. local_map w k)) (RGet k) get_reader w =
        (fst (get_reader c), w\<lparr>dials := Suc (dials w), server_db := server_db w\<rparr>)"
    by (rule reliable_call [OF assms(3,4) _ _ ex len]) (use assms(6,7) in \<open>simp_all del: request_bytes.simps\<close>)
  have "fst (get_reader c) = Inr (contents (server_db w) k)"
  proof (cases "contents (server_db w) k")
    case None
    with readers_run(2) [OF c(1)] show ?thesis by simp
  next
    case (Some v)
    then have "length v < 2 ^ 32" using assms(7) assms(8) [OF Some] by simp
    with readers_run(3) [OF c(1)] Some show ?thesis by simp
  qed
  with c(2) show ?thesis
    by (simp add: remote_over_network)
qed

lemma reliable_write:
  assumes "reliable N L" "address w \<noteq> []" and "request_fits q" and "length (request_bytes q) \<le> L"
    and "execute B q (server_db w) = (Done, d)"
  shows "over_network B N offline q done_reader w = (Inr (), w\<lparr>dials := Suc (dials w), server_db := d\<rparr>)"
proof -
  have "1 \<le> length (request_bytes q)" by (cases q) simp_all
  then have "length (response_bytes Done) \<le> L" using assms(4) by simp
  from reliable_call [OF assms(1-5) this] obtain c where c: "incoming c = response_bytes Done"
      "over_network B N offline q done_reader w = (fst (done_reader c), w\<lparr>dials := Suc (dials w), server_db := d\<rparr>)"
    by metis
  with readers_run(1) [OF c(1)] show ?thesis by simp
qed

section \<open>Services over a network that works\<close>

lemma data_name_not_Nil [simp]: "data_name i \<noteq> []"
  by (simp add: data_name_def)

text \<open>
  The in-memory storage with a limit on the size of a message: what the remote storage is when
  network and database work. The two numbers are those of the prefixes \<open>data:\<close> and \<open>key:\<close>.
\<close>

definition too_long :: err where
  "too_long = Msg ''message too long'' []"

definition limited_Get :: "nat \<Rightarrow> nat \<Rightarrow> bytes \<Rightarrow> ('w \<Rightarrow> bytes \<rightharpoonup> bytes) \<Rightarrow> ('w, bytes option) prog" where
  "limited_Get L n k get w =
     (if L < 5 + n + length k \<or> (\<exists>v. get w k = Some v \<and> L < 5 + length v) then (Inl too_long, w) else (Inr (get w k), w))"

definition limited_Set :: "nat \<Rightarrow> nat \<Rightarrow> bytes \<Rightarrow> bytes \<Rightarrow> ('w, unit) prog \<Rightarrow> ('w, unit) prog" where
  "limited_Set L n k v m w = (if L < 9 + n + length k + length v then (Inl too_long, w) else m w)"

definition limited_service :: "nat \<Rightarrow> mworld Service" where
  "limited_service L = NewService
     \<lparr>storage_Get = (\<lambda>k. limited_Get L 5 k store_data),
      storage_Set = (\<lambda>k v. limited_Set L 5 k v (storage_Set MemoryStorage k v)),
      storage_Delete = (\<lambda>k. storage_Delete MemoryStorage k)\<rparr>
     \<lparr>keyStore_Get = (\<lambda>n. limited_Get L 4 n store_keys),
      keyStore_Set = (\<lambda>n v. limited_Set L 4 n v (keyStore_Set MemoryKeyStore n v))\<rparr>"

lemma name_lengths [simp]:
  "length (data_name i) = 5 + length i" "length (key_name n) = 4 + length n" "key_name n \<noteq> []"
  by (simp_all add: data_name_def key_name_def)

lemma onlineD: "online contents w \<Longrightarrow> address w \<noteq> []"
  by (simp add: online_def)

lemma reliable_Set:
  assumes "badger_ok B contents" "faultless B contents" "reliable N L" "online contents w" "k \<noteq> []"
    and "9 + length k + length v \<le> L" "L < 2 ^ 32"
  shows "\<exists>w'. remote_Set B N k v w = (Inr (), w') \<and> contents (server_db w') = (contents (server_db w))(k \<mapsto> v) \<and>
    online contents w'"
proof -
  obtain d where d: "execute B (RSet k v) (server_db w) = (Done, d)"
    using execute_faultless(2) [OF assms(1,2,5)] by blast
  have "remote_Set B N k v w = (Inr (), w\<lparr>dials := Suc (dials w), server_db := d\<rparr>)"
    unfolding remote_over_network
    by (rule reliable_write [OF assms(3) onlineD [OF assms(4)] _ _ d])
      (use assms(6,7) in \<open>simp_all del: request_bytes.simps\<close>)
  with online_Set [OF assms(1,4)] show ?thesis by blast
qed

lemma reliable_Get_online:
  assumes "badger_ok B contents" "faultless B contents" "reliable N L" "online contents w" "k \<noteq> []"
    and "5 + length k \<le> L" "L < 2 ^ 32" and "\<And>v. contents (server_db w) k = Some v \<Longrightarrow> 5 + length v \<le> L"
  shows "\<exists>w'. remote_Get B N k w = (Inr (contents (server_db w) k), w') \<and> server_db w' = server_db w \<and> online contents w'"
  using reliable_Get [OF assms(1-3) onlineD [OF assms(4)] assms(5-8)] assms(4) by (simp add: online_def)

text \<open>The two maps of a memory are those behind the prefixes.\<close>

definition behind :: "('d \<Rightarrow> bytes \<rightharpoonup> bytes) \<Rightarrow> 'd \<Rightarrow> mworld \<Rightarrow> bool" where
  "behind contents d m \<longleftrightarrow>
     (\<lambda>u. contents d (data_name u)) = store_data m \<and> (\<lambda>n. contents d (key_name n)) = store_keys m"

lemma behindD:
  "behind contents d m \<Longrightarrow> contents d (data_name u) = store_data m u"
  "behind contents d m \<Longrightarrow> contents d (key_name n) = store_keys m n"
  by (auto simp: behind_def fun_eq_iff)

lemma same_online_behind:
  "same_online contents s t \<longleftrightarrow> online contents (backing s) \<and> behind contents (server_db (backing s)) (backing t) \<and>
     tick s = tick t \<and> userdata s = userdata t"
  by (auto simp: same_online_def as_memory_def behind_def)

lemma online_call:
  assumes "\<And>w m x m'. online contents w \<Longrightarrow> behind contents (server_db w) m \<Longrightarrow> op m = (Inr x, m') \<Longrightarrow>
    \<exists>w'. op' w = (Inr x, w') \<and> online contents w' \<and> behind contents (server_db w') m'"
  shows "refines (\<lambda>t s. same_online contents s t) (on_backing op) (on_backing op')"
proof (rule refinesI)
  fix s t x t'
  assume R: "same_online contents s t" and run: "on_backing op t = (Inr x, t')"
  then obtain m' where m: "op (backing t) = (Inr x, m')" and t': "t' = t\<lparr>backing := m'\<rparr>"
    by (auto simp: on_backing_def split: prod.splits)
  from R have "online contents (backing s)" "behind contents (server_db (backing s)) (backing t)"
    by (simp_all add: same_online_behind)
  from assms [OF this m] obtain w' where "op' (backing s) = (Inr x, w')" "online contents w'" "behind contents (server_db w') m'"
    by blast
  with R show "\<exists>s'. on_backing op' s = (Inr x, s') \<and> same_online contents s' t'"
    by (auto simp: on_backing_def t' same_online_behind)
qed

lemma limited_get_related:
  assumes "badger_ok B contents" "faultless B contents" "reliable N L" "L < 2 ^ 32"
    and "name \<noteq> []" "length name = n + length k"
    and get: "\<And>d m. behind contents d m \<Longrightarrow> contents d name = get m k"
  shows "refines (\<lambda>t s. same_online contents s t) (on_backing (limited_Get L n k get)) (on_backing (remote_Get B N name))"
proof (rule online_call)
  fix w m x m'
  assume on: "online contents w" and m: "behind contents (server_db w) m" and run: "limited_Get L n k get m = (Inr x, m')"
  from run have "5 + length name \<le> L" "\<And>v. get m k = Some v \<Longrightarrow> 5 + length v \<le> L" "x = get m k" "m' = m"
    using assms(6) by (auto simp: limited_Get_def not_less split: if_splits)
  then show "\<exists>w'. remote_Get B N name w = (Inr x, w') \<and> online contents w' \<and> behind contents (server_db w') m'"
    using reliable_Get_online [OF assms(1-3) on assms(5)] assms(4) get [OF m] m by auto
qed

lemma limited_set_related:
  assumes "badger_ok B contents" "faultless B contents" "reliable N L" "L < 2 ^ 32"
    and "name \<noteq> []" "length name = n + length k"
    and op: "\<And>m. op m = (Inr (), upd m)"
    and upd: "\<And>d d' m. behind contents d m \<Longrightarrow> contents d' = (contents d)(name \<mapsto> v) \<Longrightarrow> behind contents d' (upd m)"
  shows "refines (\<lambda>t s. same_online contents s t) (on_backing (limited_Set L n k v op)) (on_backing (remote_Set B N name v))"
proof (rule online_call)
  fix w m x m'
  assume on: "online contents w" and m: "behind contents (server_db w) m" and run: "limited_Set L n k v op m = (Inr x, m')"
  from run have "9 + length name + length v \<le> L" "m' = upd m"
    using assms(6) by (auto simp: limited_Set_def op not_less split: if_splits)
  then show "\<exists>w'. remote_Set B N name v w = (Inr x, w') \<and> online contents w' \<and> behind contents (server_db w') m'"
    using reliable_Set [OF assms(1-3) on assms(5) _ assms(4)] upd [OF m] by auto
qed

theorem limited_related:
  assumes "badger_ok B contents" "faultless B contents" "reliable N L" "L < 2 ^ 32"
  shows "related_services (\<lambda>t s. same_online contents s t) (limited_service L) (remote_service B N)"
proof (unfold_locales, unfold limited_service_def remote_service_def RemoteStorage_def RemoteKeyStore_def
    NewService_simps StorageService.simps KeyStoreService.simps)
  let ?Q = "\<lambda>t s. same_online contents s t"
  note get = limited_get_related [OF assms] and set = limited_set_related [OF assms]
  show "refines ?Q (on_backing (limited_Get L 5 k store_data)) (on_backing (remote_Get B N (data_name k)))" for k
    by (rule get) (simp_all add: behindD)
  show "refines ?Q (on_backing (limited_Get L 4 n store_keys)) (on_backing (remote_Get B N (key_name n)))" for n
    by (rule get) (simp_all add: behindD)
  show "refines ?Q (on_backing (limited_Set L 5 k v (storage_Set MemoryStorage k v))) (on_backing (remote_Set B N (data_name k) v))" for k v
    by (rule set [where upd = "\<lambda>m. m\<lparr>store_data := (store_data m)(k \<mapsto> v)\<rparr>"])
      (auto simp: memory_defs behind_def fun_eq_iff)
  show "refines ?Q (on_backing (limited_Set L 4 n v (keyStore_Set MemoryKeyStore n v))) (on_backing (remote_Set B N (key_name n) v))" for n v
    by (rule set [where upd = "\<lambda>m. m\<lparr>store_keys := (store_keys m)(n \<mapsto> v)\<rparr>"])
      (auto simp: memory_defs behind_def fun_eq_iff)
qed (auto simp: same_online_def as_memory_def)

section \<open>Loading within the limit\<close>

definition within :: "nat \<Rightarrow> (uuid \<rightharpoonup> bytes) \<Rightarrow> bool" where
  "within L m \<longleftrightarrow> (\<forall>i v. m i = Some v \<longrightarrow> 10 + length i \<le> L \<and> 5 + length v \<le> L)"

lemma limited_open:
  assumes "within L (store_data (backing s))" and "reads_at P (store_data (backing s)) i keys unm x"
  shows "open_record P (storage (limited_service L)) c1 e c2 c3 i keys unm s = (Inr x, s)"
proof -
  obtain p b where p: "store_data (backing s) i = Some p" "decryptAndVerify P p keys = Inr b" "unm b = Inr x"
    using assms(2) by (auto simp: reads_at_def)
  have "limited_Get L 5 i store_data (backing s) = (Inr (Some p), backing s)"
    using assms(1) p(1) by (auto simp: limited_Get_def within_def not_less)
  with p(2,3) show ?thesis
    by (simp add: open_record_def run_bind run_wrap on_backing_def limited_service_def NewService_def run_wrapO_Inr)
qed

lemma limited_load_blocks:
  assumes "within L (store_data (backing s))" and "blocks_at P (store_data (backing s)) k us bs"
  shows "load_blocks P (storage (limited_service L)) f (getFileKeys P k) us s = (Inr (concat bs), s)"
  using assms(2)
proof (induction us arbitrary: bs)
  case (Cons u us)
  then obtain b bs' where b: "bs = b # bs'" "reads_at P (store_data (backing s)) u (getFileKeys P k) Inr b"
      "blocks_at P (store_data (backing s)) k us bs'"
    by (auto simp: blocks_at_def list_all2_Cons1)
  with Cons.IH [of bs'] show ?case
    by (simp add: run_bind limited_open [OF assms(1) b(2)])
qed (simp add: blocks_at_def)

lemma limited_LoadFile:
  assumes "provider_ok P" and "within L (store_data (backing s))"
    and "file_view P (store_data (backing s)) (userdata s) f a mb ino bs"
  shows "LoadFile P (limited_service L) f s = (Inr (concat bs), s)"
proof -
  have view: "reads_at P (store_data (backing s)) (access_id P (Username (userdata s)) f)
        (getPersonalKey P (MasterKey (userdata s)) f) (unmarshal_access P) a"
      "reads_at P (store_data (backing s)) (MymailboxUUID a) (getMailKeys P (MymailboxKey a)) (unmarshal_mailbox P) mb"
      "reads_at P (store_data (backing s)) (InodeUUID mb) (getFileKeys P (FileKey mb)) (unmarshal_inode P) ino"
      "blocks_at P (store_data (backing s)) (FileKey mb) (BlockUUIDs ino) bs"
    using assms(3) by (simp_all add: file_view_def access_at_def mailbox_at_def inode_at_def)
  note rec = limited_open [OF assms(2)]
  show ?thesis
    using provider_parts [OF assms(1)] limited_load_blocks [OF assms(2) view(4)]
    by (simp add: LoadFile_def run_bind run_wrap run_accessID rec [OF view(1)] rec [OF view(2)] rec [OF view(3)])
qed

lemma limited_GetUser:
  assumes "provider_ok P" and "within L (store_data (backing s))"
    and "good_user u" and "account_at P (store_data (backing s)) pw u"
  shows "GetUser P (limited_service L) (Username u) pw s = (Inr u, s)"
proof -
  note ok = provider_parts [OF assms(1)]
  from assms(3) have salt: "length (PasswordSalt u) = 16" and wf: "wf_user u"
    by (simp_all add: good_user_def)
  from assms(4) obtain t where mk: "MasterKey u = deriveMasterKey P pw (PasswordSalt u)"
      and m: "store_data (backing s) (user_id P (Username u)) = Some (user_payload P t u)"
    by (auto simp: account_at_def)
  have get: "limited_Get L 5 (user_id P (Username u)) store_data (backing s) = (Inr (Some (user_payload P t u)), backing s)"
    using assms(2) m by (auto simp: limited_Get_def within_def not_less)
  show ?thesis
    using salt wf ok get
    by (simp add: GetUser_def run_bind run_wrap run_userID on_backing_def limited_service_def NewService_def run_guard Let_def
        user_payload_def passwordSaltSize_def decrypt_sealed derived_full_keys flip: mk)
qed

section \<open>Storing within the limit\<close>

text \<open>Nothing but records within the limit gets into the limited storage.\<close>

lemma limited_keeps_within:
  "related_services (\<lambda>s t. s = t \<and> within L (store_data (backing t))) (limited_service L) (limited_service L)"
proof (unfold_locales, unfold limited_service_def NewService_simps StorageService.simps KeyStoreService.simps)
  let ?Q = "\<lambda>s t. s = t \<and> within L (store_data (backing t))"
  have get: "refines ?Q (on_backing (limited_Get L n k g)) (on_backing (limited_Get L n k g))" for n k g
    by (auto simp: refines_def on_backing_def limited_Get_def split: if_splits)
  show "refines ?Q (on_backing (limited_Get L 5 k store_data)) (on_backing (limited_Get L 5 k store_data))" for k
    by (rule get)
  show "refines ?Q (on_backing (limited_Get L 4 n store_keys)) (on_backing (limited_Get L 4 n store_keys))" for n
    by (rule get)
  show "refines ?Q (on_backing (limited_Set L 5 k v (storage_Set MemoryStorage k v)))
      (on_backing (limited_Set L 5 k v (storage_Set MemoryStorage k v)))" for k v
    by (auto simp: refines_def on_backing_def limited_Set_def memory_defs within_def split: if_splits)
  show "refines ?Q (on_backing (limited_Set L 4 n v (keyStore_Set MemoryKeyStore n v)))
      (on_backing (limited_Set L 4 n v (keyStore_Set MemoryKeyStore n v)))" for n v
    by (auto simp: refines_def on_backing_def limited_Set_def memory_defs split: if_splits)
qed auto

lemma limited_within:
  assumes "refines (\<lambda>s t. s = t \<and> within L (store_data (backing t))) m m" and "m s = (Inr x, s')"
    and "within L (store_data (backing s))"
  shows "within L (store_data (backing s'))"
  using refinesD [OF assms(1) _ assms(2), of s] assms(3) by auto

text \<open>A record of \<open>n\<close> bytes under a UUID takes \<open>n + 59\<close> bytes on the wire.\<close>

lemma limited_set:
  assumes "length i = 16" and "30 + length v \<le> L"
  shows "on_backing (storage_Set (storage (limited_service L)) i v) s = on_backing (storage_Set MemoryStorage i v) s"
  using assms by (simp add: on_backing_def limited_service_def NewService_def limited_Set_def)

lemma limited_seal_record:
  assumes "provider_ok P" and "full_keys keys" and "length i = 16" and "59 + length b \<le> L"
  shows "seal_record P (storage (limited_service L)) c1 c2 i keys b s =
    (Inr (), write_data s (Suc (tick s)) ((store_data (backing s))(i \<mapsto> sealed P (tick s) b keys)))"
  using assms provider_parts [OF assms(1)]
  by (simp add: seal_record_def run_bind run_wrap memory_runs run_wrapO_Inr run_encryptAndMAC write_data_def
      limited_set length_sealed)

lemma limited_store_blocks:
  assumes "provider_ok P" and "full_keys keys" and "\<And>fb. fb \<in> set fbs \<Longrightarrow> 59 + length (block fb) \<le> L"
  shows "store_blocks P (storage (limited_service L)) c1 c2 keys fbs s =
    (Inr (block_ids P (tick s) (length fbs)),
     write_data s (tick s + 2 * length fbs)
       (put_blocks P (tick s) keys (map block fbs) (store_data (backing s))))"
  using assms(3)
proof (induction fbs arbitrary: s)
  case (Cons fb fbs)
  have "length (uuid_new P t) = 16" for t
    using provider_parts(7) [OF assms(1)] by (simp add: uuid_ok_def)
  with Cons show ?case
    by (simp add: run_bind run_uuidNew limited_seal_record [OF assms(1,2)] write_data_def)
qed (simp add: write_data_def)

lemma limited_saveUser:
  assumes "provider_ok P" and "length (PasswordSalt u) = 16" and "75 + length (marshal_user P u) \<le> L"
  shows "saveUser P (storage (limited_service L)) u s = saveUser P MemoryStorage u s"
  using assms provider_parts [OF assms(1)]
  by (simp add: saveUser_def run_bind run_encryptAndMAC derived_full_keys run_guard run_userID passwordSaltSize_def
      limited_set length_sealed)

text \<open>The five kinds of records \<open>StoreFile\<close> writes are within the limit.\<close>

definition store_fits :: "nat \<Rightarrow> provider \<Rightarrow> nat \<Rightarrow> User \<Rightarrow> gostr \<Rightarrow> bytes \<Rightarrow> bool" where
  "store_fits L P t u f c \<longleftrightarrow>
     59 + length (marshal_mailbox P (new_mailbox P t)) \<le> L \<and> 59 + length (marshal_access P (new_access P t)) \<le> L \<and>
     (\<forall>fb \<in> set (ByteToBlock c). 59 + length (block fb) \<le> L) \<and>
     59 + length (marshal_inode P (new_inode P t c)) \<le> L \<and> 75 + length (marshal_user P (with_file P u f)) \<le> L"

lemma limited_StoreFile:
  assumes "provider_ok P" and "length (PasswordSalt (userdata s)) = 16" and "store_fits L P (tick s) (userdata s) f c"
  shows "StoreFile P (limited_service L) f c s = StoreFile P memory_service f c s"
proof -
  note ok = provider_parts [OF assms(1)]
  define s0 where "s0 = s\<lparr>userdata := (userdata s)\<lparr>Files := Some (files_of (userdata s))\<rparr>\<rparr>"
  have mk: "make_files s = (Inr (), s0)"
    by (auto simp: make_files_def s0_def files_of_def split: option.split)
  have sf: "set_file f i s' = (Inr (), s'\<lparr>userdata := (userdata s')\<lparr>Files := Some (fmupd f i (files_of (userdata s)))\<rparr>\<rparr>)"
    if "userdata s' = (userdata s)\<lparr>Files := Some (files_of (userdata s))\<rparr>" for i s'
    using that by (simp add: set_file_def)
  have uuid: "length (uuid_new P t) = 16" for t
    using ok(7) by (simp add: uuid_ok_def)
  note fits = assms(3) [unfolded store_fits_def new_mailbox_def new_access_def new_inode_def with_file_def]
  show ?thesis
    unfolding StoreFile_run [OF assms(1,2)]
    using assms(2) ok fits uuid
    by (simp add: StoreFile_def Let_def run_bind mk run_wrap run_randomBytes run_uuidNew
        limited_seal_record [OF assms(1)] derived_full_keys run_encryptAndMAC run_accessID memory_runs
        limited_set length_sealed limited_saveUser [OF assms(1)]
        limited_store_blocks [OF assms(1)] sf run_saveUser passwordSaltSize_def masterKeySize_def
        s0_def stored_file_def new_mailbox_def new_access_def new_inode_def with_file_def
        write_data_def numeral_eq_Suc)
qed

section \<open>Sizes of records\<close>

text \<open>A bound on the length of a JSON text.\<close>

fun json_size :: "json \<Rightarrow> nat" where
  "json_size JNull = 4"
| "json_size (JBool b) = 5"
| "json_size (JNum s) = length s"
| "json_size (JStr s) = 6 * length s + 2"
| "json_size (JArr xs) = 2 + sum_list (map (\<lambda>x. Suc (json_size x)) xs)"
| "json_size (JObj fs) = 2 + sum_list (map (\<lambda>(k, v). 6 * length k + 4 + json_size v) fs)"

lemma length_quote: "length (quote s) \<le> 6 * length s + 2"
proof -
  have byte: "length (quote_byte b) \<le> 6" for b
    by (simp add: quote_byte_def)
  have "length (quote_body s) \<le> 6 * length s"
  proof (induction s rule: quote_body.induct)
    case (2 b bs)
    consider "b < 128" | "\<not> b < 128" "rune_len (b # bs) = 0" | "\<not> b < 128" "rune_len (b # bs) \<noteq> 0" by blast
    then show ?case
    proof cases
      case 1
      with 2 byte [of b] show ?thesis by (simp add: quote_body.simps)
    next
      case 2
      with "2.IH" show ?thesis by (simp add: quote_body.simps)
    next
      case 3
      let ?n = "rune_len (b # bs)"
      have "length (quote_rune (take ?n (b # bs))) \<le> 6 * ?n"
      proof -
        have "length (quote_rune (take ?n (b # bs))) \<le> max 6 ?n"
          using rune_len_le [of "b # bs"] by (simp add: quote_rune_def le_max_iff_disj del: rune_len.simps)
        with 3(2) show ?thesis by linarith
      qed
      moreover have "length (quote_body (drop ?n (b # bs))) \<le> 6 * (Suc (length bs) - ?n)"
        using "2.IH"(3) [OF 3] by (simp del: rune_len.simps)
      ultimately show ?thesis
        using 3 rune_len_le [of "b # bs"] by (simp add: quote_body.simps del: rune_len.simps)
    qed
  qed simp
  then show ?thesis by (simp add: quote_def)
qed

lemma length_commas: "length (commas xs) \<le> sum_list (map (\<lambda>x. Suc (length x)) xs)"
  by (induction xs rule: commas.induct) auto

lemma length_json_text: "length (json_text j) \<le> json_size j"
proof (induction j rule: json_text.induct)
  case (5 xs)
  have "sum_list (map (\<lambda>x. Suc (length (json_text x))) xs) \<le> sum_list (map (\<lambda>x. Suc (json_size x)) xs)"
    using 5 by (intro sum_list_mono) simp
  with length_commas [of "map json_text xs"] show ?case
    by (simp add: comp_def)
next
  case (6 fs)
  have "length (quote k @ 58 # json_text v) + 1 \<le> 6 * length k + 4 + json_size v" if "(k, v) \<in> set fs" for k v
    using 6 [OF that refl] length_quote [of k] by simp
  then have "sum_list (map (\<lambda>(k, v). Suc (length (quote k @ 58 # json_text v))) fs) \<le>
      sum_list (map (\<lambda>(k, v). 6 * length k + 4 + json_size v) fs)"
    by (intro sum_list_mono) auto
  with length_commas [of "map (\<lambda>(k, v). quote k @ 58 # json_text v) fs"] show ?case
    by (simp add: comp_def case_prod_unfold)
qed (use length_quote in auto)

section \<open>Examples\<close>

definition N1 :: network where
  "N1 = \<lparr>net_dial = (\<lambda>n tls addr. Inr ()), net_up = (\<lambda>n. 5000), net_down = (\<lambda>n. 5000)\<rparr>"

lemma N1_reliable: "reliable N1 5000"
  by (simp add: reliable_def N1_def)

lemma map_badger_faultless: "faultless map_badger (\<lambda>d. d)"
  by (simp add: faultless_def map_badger_def split: option.split)

text \<open>Alice's account and a file of hers, on a server.\<close>

definition alice_user :: User where
  "alice_user = \<lparr>Username = alice, EncryptionPrivateKey = pad 32 [5], SigningPrivateKey = pad 64 [6],
     MasterKey = deriveMasterKey P0 (lit ''pw'') (pad 16 [7]), PasswordSalt = pad 16 [7], Files = Some fmempty\<rparr>"

definition alice_records :: "uuid \<rightharpoonup> bytes" where
  "alice_records = stored_file P0 8 alice_user file_f sample [user_id P0 alice \<mapsto> user_payload P0 3 alice_user]"

definition file_db :: "bytes \<rightharpoonup> bytes" where
  "file_db k = (if take 5 k = lit ''data:'' then alice_records (drop 5 k) else None)"

definition file_server :: "(bytes \<rightharpoonup> bytes) rworld st" where
  "file_server = \<lparr>backing = \<lparr>address = lit ''localhost'', useTLS = True, local_map = Map.empty,
     server_db = file_db, dials = 0\<rparr>, tick = 30, userdata = alice_user\<rparr>"

lemma file_db_data: "file_db (data_name i) = alice_records i"
  by (simp add: file_db_def data_name_def)

lemma alice_parts [simp]: "Username alice_user = alice" "Files alice_user = Some fmempty"
  "length (EncryptionPrivateKey alice_user) = 32" "length (SigningPrivateKey alice_user) = 64"
  "length (PasswordSalt alice_user) = 16"
  by (simp_all add: alice_user_def)

lemma P0_master_key: "length (deriveMasterKey P0 pw salt) = 32"
  by (simp add: deriveMasterKey_def argon2Key_def masterKeySize_def) (simp add: P0_def)

lemma alice_good: "good_user alice_user"
  by (simp add: good_user_def wf_user_def)

lemma alice_account: "account_at P0 alice_records (lit ''pw'') alice_user"
proof -
  have "user_id P0 alice \<noteq> access_id P0 alice file_f"
    using apart_by_hd [of "user_id P0 alice" "access_id P0 alice file_f"] by simp
  moreover have "fresh_uuids P0 8 (8 + 2 * length (ByteToBlock sample)) {user_id P0 alice}"
    by (rule P0_fresh) (auto simp: sample_blocks)
  ultimately have "alice_records (user_id P0 alice) = Some (user_payload P0 3 alice_user)"
    by (simp add: alice_records_def stored_file_other)
  then show ?thesis
    by (auto simp: account_at_def) (simp add: alice_user_def)
qed

lemma alice_file:
  "file_view P0 alice_records alice_user file_f (new_access P0 8) (new_mailbox P0 8) (new_inode P0 8 sample) [sample]"
proof -
  have "int (length sample) < 2 ^ 63" by (simp add: sample_def)
  moreover have "fresh_uuids P0 8 (8 + 2 * length (ByteToBlock sample)) {access_id P0 (Username alice_user) file_f}"
    by (rule P0_fresh) (auto simp: sample_blocks)
  ultimately show ?thesis
    using stored_file_view [OF P0_ok, of sample 8 alice_user file_f] by (simp add: alice_records_def sample_blocks)
qed

lemma P0_sealed: "length (sealed P0 t b keys) \<le> length b + 29"
  by (simp add: sealed_def P0_rnd gcm_nonce_size_def) (simp add: P0_def)

lemma P0_uuid_text: "length (uuid_text P0 u) = 2 * length u"
proof -
  have "length (hex_text u) = 2 * length u" by (induction u) simp_all
  then show ?thesis by (simp add: P0_def)
qed

lemma P0_marshal_sizes:
  "length (marshal_mailbox P0 (new_mailbox P0 t)) \<le> 1000" "length (marshal_access P0 (new_access P0 t)) \<le> 1000"
  "length (marshal_inode P0 (new_inode P0 t sample)) \<le> 1000" "length (marshal_user P0 alice_user) \<le> 2000"
proof -
  have none: "sorted_list_of_fmap (fmempty :: (gostr, 'a) fmap) = []"
    by (simp add: sorted_list_of_fmap_def sorted_list_of_fset.rep_eq)
  have "length (json_text (enc_mailbox P0 (new_mailbox P0 t))) \<le> 1000"
    by (rule order_trans [OF length_json_text])
      (simp add: enc_mailbox_def new_mailbox_def length_b64_encode P0_rnd P0_uuid_text P0_uuid_new)
  moreover have "length (json_text (enc_access P0 (new_access P0 t))) \<le> 1000"
    by (rule order_trans [OF length_json_text])
      (simp add: enc_access_def new_access_def length_b64_encode P0_rnd P0_uuid_text P0_uuid_new enc_map_def none)
  moreover have "length (json_text (enc_inode P0 (new_inode P0 t sample))) \<le> 1000"
    by (rule order_trans [OF length_json_text])
      (simp add: enc_inode_def new_inode_def sample_blocks P0_uuid_text P0_uuid_new int_text_def,
        simp add: sample_def nat_text.simps)
  moreover have "length (json_text (enc_user P0 alice_user)) \<le> 2000"
    by (rule order_trans [OF length_json_text])
      (simp add: enc_user_def length_b64_encode enc_map_def none, simp add: alice_user_def P0_master_key)
  ultimately show "length (marshal_mailbox P0 (new_mailbox P0 t)) \<le> 1000"
    "length (marshal_access P0 (new_access P0 t)) \<le> 1000" "length (marshal_inode P0 (new_inode P0 t sample)) \<le> 1000"
    "length (marshal_user P0 alice_user) \<le> 2000"
    by (simp_all add: marshal_mailbox_def marshal_access_def marshal_inode_def marshal_user_def del: json_text.simps)
qed

lemma alice_records_small:
  assumes "alice_records i = Some v"
  shows "length i = 16 \<and> length v \<le> 2045"
proof -
  have uuid: "length (access_id P0 n f) = 16" "length (user_id P0 n) = 16" for n f
    using run_accessID(2) run_userID(2) provider_parts [OF P0_ok] by simp_all
  have len: "length (sealed P0 t b keys) \<le> 2045" if "length b \<le> 1000" for t b keys
    using P0_sealed [of t b keys] that by simp
  have user: "length (user_payload P0 3 alice_user) \<le> 2045"
    using P0_marshal_sizes(4) P0_sealed [of 3 "marshal_user P0 alice_user" "getUserKeys P0 (MasterKey alice_user)"]
    by (simp add: user_payload_def)
  have ids: "InodeUUID (new_mailbox P0 8) = uuid_new P0 9" "MymailboxUUID (new_access P0 8) = uuid_new P0 10"
      "length (uuid_new P0 t) = 16" "length sample = 3" for t
    by (simp_all add: new_mailbox_def new_access_def P0_uuid_new sample_def)
  show ?thesis
    using assms P0_marshal_sizes(1-3) [of 8] P0_marshal_sizes(4) uuid ids user
    by (auto simp: alice_records_def stored_file_def Let_def sample_blocks split: if_splits intro!: len)
qed

section \<open>Properties\<close>

text \<open>C17. When network and database work, the services do: whatever a method achieves on an in-memory storage
  that refuses messages longer than \<open>L\<close>, it achieves over a network that carries messages of that
  length, with the same result and the same effect on the stored data and keys.\<close>

theorem services_work_over_a_reliable_network:
  assumes "badger_ok B contents" and "faultless B contents" and "reliable N L" and "L < 2 ^ 32"
  shows "refines (\<lambda>t s. same_online contents s t) (InitUser P (limited_service L) n pw) (InitUser P (remote_service B N) n pw) \<and>
    refines (\<lambda>t s. same_online contents s t) (GetUser P (limited_service L) n pw) (GetUser P (remote_service B N) n pw) \<and>
    refines (\<lambda>t s. same_online contents s t) (StoreFile P (limited_service L) f c) (StoreFile P (remote_service B N) f c) \<and>
    refines (\<lambda>t s. same_online contents s t) (LoadFile P (limited_service L) f) (LoadFile P (remote_service B N) f) \<and>
    refines (\<lambda>t s. same_online contents s t) (AppendToFile P (limited_service L) f x) (AppendToFile P (remote_service B N) f x) \<and>
    refines (\<lambda>t s. same_online contents s t) (CreateInvitation P (limited_service L) f n) (CreateInvitation P (remote_service B N) f n) \<and>
    refines (\<lambda>t s. same_online contents s t) (AcceptInvitation P (limited_service L) n i f) (AcceptInvitation P (remote_service B N) n i f) \<and>
    refines (\<lambda>t s. same_online contents s t) (RevokeAccess P (limited_service L) f n) (RevokeAccess P (remote_service B N) f n)"
proof -
  note b = limited_related [OF assms]
  show ?thesis
    by (intro conjI related_services.refines_InitUser [OF b] related_services.refines_GetUser [OF b]
        related_services.refines_StoreFile [OF b] related_services.refines_LoadFile [OF b]
        related_services.refines_AppendToFile [OF b] related_services.refines_CreateInvitation [OF b]
        related_services.refines_AcceptInvitation [OF b] related_services.refines_RevokeAccess [OF b])
qed

text \<open>A file that is on the server can be loaded: when network and database work and the network carries
  every stored record, \<open>LoadFile\<close> returns the content, and leaves data and keys as they were.\<close>

theorem file_on_server_is_loaded:
  assumes "provider_ok P" and ok: "badger_ok B contents" "faultless B contents" "reliable N L" "L < 2 ^ 32"
    and same: "same_online contents s t" and "within L (store_data (backing t))"
    and "file_view P (store_data (backing t)) (userdata t) f a mb ino bs"
  shows "\<exists>s'. LoadFile P (remote_service B N) f s = (Inr (concat bs), s') \<and> same_online contents s' t"
  using refinesD [OF related_services.refines_LoadFile [OF limited_related [OF ok]] same] limited_LoadFile [OF assms(1,7,8)]
  by blast

definition file_memory :: "mworld st" where
  "file_memory = \<lparr>backing = \<lparr>store_data = alice_records, store_keys = Map.empty\<rparr>, tick = 30, userdata = alice_user\<rparr>"

lemma file_db_small: "file_db k = Some v \<Longrightarrow> length v < 2 ^ 32"
  using alice_records_small [of "drop 5 k" v] by (simp add: file_db_def split: if_splits)

lemma file_server_same: "same_online (\<lambda>d. d) file_server file_memory"
proof -
  have "file_db (key_name n) = None" for n
    by (simp add: file_db_def key_name_def lit_def)
  then show ?thesis
    using file_db_small
    by (auto simp: same_online_behind behind_def online_def file_server_def file_memory_def file_db_data)
qed

lemma alice_records_within: "within 5000 alice_records"
  unfolding within_def using alice_records_small by fastforce

lemma file_memory_parts:
  "within 5000 (store_data (backing file_memory))"
  "file_view P0 (store_data (backing file_memory)) (userdata file_memory) file_f
     (new_access P0 8) (new_mailbox P0 8) (new_inode P0 8 sample) [sample]"
  using alice_records_within alice_file by (simp_all add: file_memory_def)

theorem file_on_server_is_loaded_witness:
  "\<exists>s'. LoadFile P0 (remote_service map_badger N1) file_f file_server = (Inr sample, s')"
  using file_on_server_is_loaded [OF P0_ok map_badger_ok map_badger_faultless N1_reliable _
      file_server_same file_memory_parts]
  by auto

theorem services_work_over_a_reliable_network_witness:
  "\<exists>s'. LoadFile P0 (limited_service 5000) file_f file_memory = (Inr sample, file_memory) \<and>
    LoadFile P0 (remote_service map_badger N1) file_f file_server = (Inr sample, s') \<and> same_online (\<lambda>d. d) s' file_memory"
proof -
  have run: "LoadFile P0 (limited_service 5000) file_f file_memory = (Inr sample, file_memory)"
    using limited_LoadFile [OF P0_ok file_memory_parts] by simp
  from services_work_over_a_reliable_network [OF map_badger_ok map_badger_faultless N1_reliable, of P0 alice "[]" file_f]
  have "refines (\<lambda>t s. same_online (\<lambda>d. d) s t) (LoadFile P0 (limited_service 5000) file_f)
      (LoadFile P0 (remote_service map_badger N1) file_f)" by simp
  from refinesD [OF this file_server_same run] run show ?thesis by blast
qed

end
