(* ===== verification/Commands.thy ===== *)
theory Commands
  imports Cli Reliable
begin

text \<open>
  What the commands on files promise, without processes, flags, sessions and the wire: a command
  line asks for one call of a service, and performing it is running that call on the storage.
  When database and network work, a process of \<open>sharelock\<close> does just that.
\<close>

section \<open>Logging in over a server\<close>

text \<open>What is stored on the server of a machine, and when the machine's commands can reach it.\<close>

definition stored_data :: "('d \<Rightarrow> bytes \<rightharpoonup> bytes) \<Rightarrow> 'd \<Rightarrow> (uuid \<rightharpoonup> bytes)" where
  "stored_data contents d = (\<lambda>i. contents d (data_name i))"

definition memory_of :: "('d \<Rightarrow> bytes \<rightharpoonup> bytes) \<Rightarrow> 'd \<Rightarrow> nat \<Rightarrow> User \<Rightarrow> mworld st" where
  "memory_of contents d t u =
     \<lparr>backing = \<lparr>store_data = stored_data contents d, store_keys = (\<lambda>n. contents d (key_name n))\<rparr>, tick = t, userdata = u\<rparr>"

lemma memory_of_simps [simp]:
  "store_data (backing (memory_of contents d t u)) = stored_data contents d"
  "userdata (memory_of contents d t u) = u" "tick (memory_of contents d t u) = t"
  "(memory_of contents d t u)\<lparr>userdata := v\<rparr> = memory_of contents d t v"
  by (simp_all add: memory_of_def)

lemma same_online_memory_of:
  "same_online contents s (memory_of contents d t u) \<longleftrightarrow> online contents (backing s) \<and>
     behind contents (server_db (backing s)) (backing (memory_of contents d t u)) \<and> tick s = t \<and> userdata s = u"
  by (auto simp: same_online_behind memory_of_def)

lemma in_service_online:
  assumes "refines (\<lambda>t s. same_online contents s t) mm rm"
    and "same_online contents \<lparr>backing = cl_world c, tick = cl_tick c, userdata = u\<rparr> m" and "mm m = (Inr x, m')"
  obtains c' where "in_service u rm c = (Inr x, userdata m', c')" and "cl_user c' = cl_user c"
    and "\<And>v. same_online contents \<lparr>backing = cl_world c', tick = cl_tick c', userdata = v\<rparr> (m'\<lparr>userdata := v\<rparr>)"
proof -
  obtain s' where s': "rm \<lparr>backing = cl_world c, tick = cl_tick c, userdata = u\<rparr> = (Inr x, s')" "same_online contents s' m'"
    using refinesD [OF assms(1,2,3)] by blast
  have "userdata s' = userdata m'"
    using s'(2) by (simp add: same_online_behind)
  with s' show thesis
    by (intro that [of "c\<lparr>cl_world := backing s', cl_tick := tick s'\<rparr>"]) (auto simp: in_service_def same_online_behind)
qed

lemma app_GetUser_online:
  assumes "refines (\<lambda>t s. same_online contents s t) (GetUser P V n pw) (GetUser P (remote_service B N) n pw)"
    and "same_online contents \<lparr>backing = cl_world c, tick = cl_tick c, userdata = user_zero\<rparr> m"
    and "GetUser P V n pw m = (Inr u, m')"
  obtains c' where "app_GetUser P B N n pw c = (Inr (), c')" and "cl_user c' = Some u"
    and "same_online contents \<lparr>backing = cl_world c', tick = cl_tick c', userdata = u\<rparr> (m'\<lparr>userdata := u\<rparr>)"
proof -
  let ?c = "c\<lparr>cl_ready := True\<rparr>"
  have "same_online contents \<lparr>backing = cl_world ?c, tick = cl_tick ?c, userdata = user_zero\<rparr> m"
    using assms(2) by simp
  from in_service_online [OF assms(1) this assms(3)]
  obtain c1 where c1: "in_service user_zero (GetUser P (remote_service B N) n pw) ?c = (Inr u, userdata m', c1)"
      "\<And>v. same_online contents \<lparr>backing = cl_world c1, tick = cl_tick c1, userdata = v\<rparr> (m'\<lparr>userdata := v\<rparr>)"
    by metis
  show thesis
    by (rule that [of "c1\<lparr>cl_user := Some u\<rparr>"]) (use c1 in \<open>simp_all add: app_GetUser_def run_bind ensureServices_def\<close>)
qed

lemma with_user_online:
  assumes "refines (\<lambda>t s. same_online contents s t) mm rm"
    and "same_online contents \<lparr>backing = cl_world c, tick = cl_tick c, userdata = u\<rparr> m" and "cl_user c = Some u"
    and "mm m = (Inr x, m')"
  obtains c' where "with_user rm c = (Inr x, c')"
    and "same_online contents \<lparr>backing = cl_world c', tick = cl_tick c', userdata = userdata m'\<rparr> m'"
proof -
  from in_service_online [OF assms(1,2,4)]
  obtain c1 where c1: "in_service u rm c = (Inr x, userdata m', c1)"
      "\<And>v. same_online contents \<lparr>backing = cl_world c1, tick = cl_tick c1, userdata = v\<rparr> (m'\<lparr>userdata := v\<rparr>)"
    by metis
  have "m'\<lparr>userdata := userdata m'\<rparr> = m'" by simp
  with c1(2) [of "userdata m'"] show thesis
    by (intro that [of "c1\<lparr>cl_user := Some (userdata m')\<rparr>"]) (use c1(1) assms(3) in \<open>simp_all add: with_user_def\<close>)
qed

text \<open>A machine whose commands reach a server that holds records the network can carry.\<close>

definition connected_machine :: "disk \<Rightarrow> ('d \<Rightarrow> bytes \<rightharpoonup> bytes) \<Rightarrow> nat \<Rightarrow> 'd machine \<Rightarrow> bool" where
  "connected_machine D contents L mc \<longleftrightarrow>
     (case config_Load D (mc_os mc) of (Inl e, _) \<Rightarrow> False | (Inr cfg, _) \<Rightarrow> chosen_server cfg (mc_os mc) \<noteq> None) \<and>
     within L (stored_data contents (mc_server mc)) \<and>
     (\<forall>k v. contents (mc_server mc) k = Some v \<longrightarrow> length v < 2 ^ 32)"

lemma connected_machineE:
  assumes "connected_machine D contents L mc"
  obtains cfg e where "config_Load D (mc_os mc) = (Inr cfg, mc_os mc)" and "chosen_server cfg (mc_os mc) = Some e"
    and "Addr e \<noteq> []" and "within L (stored_data contents (mc_server mc))"
    and "\<And>u. same_online contents
      \<lparr>backing = cl_world (client_for (Some e) (start_client mc)), tick = cl_tick (client_for (Some e) (start_client mc)), userdata = u\<rparr>
      (memory_of contents (mc_server mc) (mc_tick mc) u)"
proof -
  obtain cfg e where c: "config_Load D (mc_os mc) = (Inr cfg, mc_os mc)" "chosen_server cfg (mc_os mc) = Some e"
    using assms by (auto simp: connected_machine_def dest: config_Load_state split: prod.splits sum.splits)
  then have "Addr e \<noteq> []"
    by (auto simp: chosen_server_def Let_def split: option.splits if_splits)
  with c assms show thesis
    by (intro that [OF c]) (auto simp: connected_machine_def same_online_behind behind_def online_def memory_of_def
        stored_data_def client_for_def app_Connect_def Connect_def start_client_def new_client_def)
qed

text \<open>A user command of such a machine in a session: the account is opened, then the command runs.\<close>

lemma session_opens_account:
  assumes "provider_ok P" and ok: "badger_ok B contents" "faultless B contents" "reliable N L" "L < 2 ^ 32"
    and "connected_machine D contents L mc" and "LoadSession D (mc_os mc) = Some (Username u, pw)"
    and "good_user u" "account_at P (stored_data contents (mc_server mc)) pw u" and user: "cmd \<in> set userCommands"
  obtains c where "cl_user c = Some u"
    and "same_online contents \<lparr>backing = cl_world c, tick = cl_tick c, userdata = u\<rparr> (memory_of contents (mc_server mc) (mc_tick mc) u)"
    and "\<And>args p. run_command P B N D S prog cmd args ((start_process mc)\<lparr>p_client := c\<rparr>) = (Inr (), p) \<Longrightarrow>
      sharelock P B N D S v (prog # cmd # args) mc = (0, p_out p, end_process p)"
proof -
  let ?mem = "memory_of contents (mc_server mc) (mc_tick mc)"
  obtain cfg e where load: "config_Load D (mc_os mc) = (Inr cfg, mc_os mc)" and e: "chosen_server cfg (mc_os mc) = Some e"
      and "Addr e \<noteq> []" and small: "within L (stored_data contents (mc_server mc))"
      and same: "\<And>u. same_online contents
        \<lparr>backing = cl_world (client_for (Some e) (start_client mc)), tick = cl_tick (client_for (Some e) (start_client mc)), userdata = u\<rparr> (?mem u)"
    using assms(6) by (rule connected_machineE) (rule that; assumption)
  have "GetUser P (limited_service L) (Username u) pw (?mem user_zero) = (Inr u, ?mem user_zero)"
    by (rule limited_GetUser [OF assms(1)]) (use small assms(8,9) in simp_all)
  from app_GetUser_online [OF related_services.refines_GetUser [OF limited_related [OF ok]] same this]
  obtain c where c: "app_GetUser P B N (Username u) pw (client_for (Some e) (start_client mc)) = (Inr (), c)" "cl_user c = Some u"
      "same_online contents \<lparr>backing = cl_world c, tick = cl_tick c, userdata = u\<rparr> (?mem u)"
    by (metis memory_of_simps(4))
  let ?p = "(start_process mc)\<lparr>p_client := client_for (chosen_server cfg (mc_os mc)) (start_client mc)\<rparr>"
  have get: "app_GetUser P B N (Username u) pw (p_client ?p) = (Inr (), c)" using c(1) e by simp
  have "LoadSession D (p_os ?p) = Some (Username u, pw)" using assms(7) by simp
  note restored = session_restored(1) [OF user this get]
  show thesis
  proof (rule that [OF c(2,3)])
    fix args p
    assume "run_command P B N D S prog cmd args ((start_process mc)\<lparr>p_client := c\<rparr>) = (Inr (), p)"
    then have "bindE (restore_session P B N D cmd) (\<lambda>_. run_command P B N D S prog cmd args) ?p = (Inr (), p)"
      unfolding restored by simp
    from sharelock_command(2) [OF user_command_plain [OF user] load this]
    show "sharelock P B N D S v (prog # cmd # args) mc = (0, p_out p, end_process p)" by simp
  qed
qed

section \<open>The specification of a command\<close>

datatype file_request =
    StoreRequest gostr bytes
  | LoadRequest gostr
  | AppendRequest gostr bytes
  | ShareRequest gostr gostr
  | AcceptRequest gostr uuid gostr
  | RevokeRequest gostr gostr
  | ListRequest

text \<open>What the process prints is the result.\<close>

fun carry_out :: "provider \<Rightarrow> 'w Service \<Rightarrow> file_request \<Rightarrow> ('w st, bytes) prog" where
  "carry_out P V (StoreRequest f b) = bindE (StoreFile P V f b) (\<lambda>_. ret ok_line)"
| "carry_out P V (LoadRequest f) = LoadFile P V f"
| "carry_out P V (AppendRequest f b) = bindE (AppendToFile P V f (Some b)) (\<lambda>_. ret ok_line)"
| "carry_out P V (ShareRequest f r) = bindE (CreateInvitation P V f r) (\<lambda>i. ret (uuid_text P i @ line_end))"
| "carry_out P V (AcceptRequest n i f) = bindE (AcceptInvitation P V n i f) (\<lambda>_. ret ok_line)"
| "carry_out P V (RevokeRequest f r) = bindE (RevokeAccess P V f r) (\<lambda>_. ret ok_line)"
| "carry_out P V ListRequest = bindE (ListFiles P) (\<lambda>fs.
     ret (if fs = [] then lit ''No files stored.'' @ line_end else concat (map (\<lambda>f. f @ line_end) fs)))"

text \<open>What a command line asks for, if it is in order; \<open>store\<close> takes the content from the disk.\<close>

definition flag_values :: "string list \<Rightarrow> gostr list \<Rightarrow> assignments option" where
  "flag_values ns args =
     (case parse_flags (string_flags ns) args [] of
        Parsed acc rest \<Rightarrow> Some acc | FlagHelp \<Rightarrow> None | FlagError m n \<Rightarrow> None)"

definition requested :: "provider \<Rightarrow> disk \<Rightarrow> os \<Rightarrow> gostr \<Rightarrow> gostr list \<Rightarrow> file_request option" where
  "requested P D s cmd args =
     (if cmd = lit ''store'' then
        Option.bind (flag_values [''f''] args) (\<lambda>fs.
        let path = string_flag fs ''f'' [] in
        if path = [] then None
        else (case fst (os_ReadFile D path s) of Inl e \<Rightarrow> None | Inr b \<Rightarrow> Some (StoreRequest (path_Base path) b)))
      else if cmd = lit ''load'' then
        Option.bind (flag_values [''f''] args) (\<lambda>fs.
        let f = string_flag fs ''f'' [] in
        if f = [] then None else Some (LoadRequest f))
      else if cmd = lit ''append'' then
        Option.bind (flag_values [''f'', ''c''] args) (\<lambda>fs.
        let f = string_flag fs ''f'' [] in
        if f = [] then None else Some (AppendRequest f (string_flag fs ''c'' [])))
      else if cmd = lit ''share'' then
        Option.bind (flag_values [''f'', ''r''] args) (\<lambda>fs.
        let f = string_flag fs ''f'' []; r = string_flag fs ''r'' [] in
        if f = [] \<or> r = [] then None else Some (ShareRequest f r))
      else if cmd = lit ''accept'' then
        Option.bind (flag_values [''s'', ''i'', ''f''] args) (\<lambda>fs.
        let n = string_flag fs ''s'' []; i = string_flag fs ''i'' []; f = string_flag fs ''f'' [] in
        if n = [] \<or> i = [] \<or> f = [] then None
        else map_option (\<lambda>u. AcceptRequest n u f) (uuid_parse P i))
      else if cmd = lit ''revoke'' then
        Option.bind (flag_values [''f'', ''r''] args) (\<lambda>fs.
        let f = string_flag fs ''f'' []; r = string_flag fs ''r'' [] in
        if f = [] \<or> r = [] then None else Some (RevokeRequest f r))
      else if cmd = lit ''list'' then Some ListRequest
      else None)"

lemma requested_user_command: "requested P D s cmd args = Some q \<Longrightarrow> cmd \<in> set userCommands"
  by (auto simp: requested_def userCommands_def split: if_splits)

lemma run_flag_values [run_simps]:
  "flag_values ns args = Some acc \<Longrightarrow> parse_flags_or_exit u (string_flags ns) args p = (Inr acc, p)"
  by (auto simp: flag_values_def run_parse_flags split: parse_result.splits)

context related_services begin

lemma refines_ListFiles [refine_intros]: "refines Q (ListFiles P) (ListFiles P)"
  unfolding ListFiles_def by (intro refine_intros)

lemma refines_carry_out: "refines Q (carry_out P V q) (carry_out P W q)"
  by (cases q; simp only: carry_out.simps; intro refine_intros)

end

section \<open>A command performs its request\<close>

lemma with_user_bind:
  assumes "cl_user c = Some u"
  shows "with_user (bindE m (\<lambda>x. ret (g x))) c = bindE (with_user m) (\<lambda>x. ret (g x)) c"
  using assms by (auto simp: with_user_def in_service_def run_bind run_guard split: prod.split sum.split)

lemma performed:
  assumes "cl_user c = Some u"
  shows "with_user (carry_out P (remote_service B N) (StoreRequest f b)) c = bindE (app_StoreFile P B N f b) (\<lambda>_. ret ok_line) c"
    and "with_user (carry_out P (remote_service B N) (LoadRequest f)) c = app_LoadFile P B N f c"
    and "with_user (carry_out P (remote_service B N) (AppendRequest f b)) c =
      bindE (app_AppendToFile P B N f (Some b)) (\<lambda>_. ret ok_line) c"
    and "with_user (carry_out P (remote_service B N) (ShareRequest f r)) c =
      bindE (app_CreateInvitation P B N f r) (\<lambda>i. ret (uuid_text P i @ line_end)) c"
    and "with_user (carry_out P (remote_service B N) (AcceptRequest n i f)) c =
      bindE (app_AcceptInvitation P B N n i f) (\<lambda>_. ret ok_line) c"
    and "with_user (carry_out P (remote_service B N) (RevokeRequest f r)) c =
      bindE (app_RevokeAccess P B N f r) (\<lambda>_. ret ok_line) c"
    and "with_user (carry_out P (remote_service B N) ListRequest) c = bindE (app_ListFiles P) (\<lambda>fs.
      ret (if fs = [] then lit ''No files stored.'' @ line_end else concat (map (\<lambda>f. f @ line_end) fs))) c"
  by (simp_all add: with_user_bind [OF assms] app_StoreFile_def app_LoadFile_def app_AppendToFile_def
      app_CreateInvitation_def app_RevokeAccess_def)
    (simp_all add: app_AcceptInvitation_def app_ListFiles_def assms run_bind run_guard)

text \<open>A process that asks for \<open>q\<close> and gets it performed prints the result.\<close>

lemma request_runs:
  assumes "requested P D (p_os p) cmd args = Some q" and "cl_user (p_client p) = Some u"
    and "with_user (carry_out P (remote_service B N) q) (p_client p) = (Inr out, c')"
  shows "run_command P B N D S prog cmd args p = (Inr (), p\<lparr>p_client := c', p_out := p_out p @ out\<rparr>)"
proof -
  note call = performed [OF assms(2), of P B N]
  note run = run_command_def run_bind run_required run_flag_values run_on run_exit_on_error Let_def run_guard
  consider "cmd = lit ''store''" | "cmd = lit ''load''" | "cmd = lit ''append''" | "cmd = lit ''share''"
    | "cmd = lit ''accept''" | "cmd = lit ''revoke''" | "cmd = lit ''list''"
    using requested_user_command [OF assms(1)] by (auto simp: userCommands_def)
  then show ?thesis
  proof cases
    case 1
    with assms(1) obtain fs b where q: "flag_values [''f''] args = Some fs" "string_flag fs ''f'' [] \<noteq> []"
        "fst (os_ReadFile D (string_flag fs ''f'' []) (p_os p)) = Inr b" "q = StoreRequest (path_Base (string_flag fs ''f'' [])) b"
      by (auto simp: requested_def Let_def bind_eq_Some_conv split: if_splits sum.splits)
    with q(2,3) assms(3) 1 show ?thesis unfolding q(4) call
      by (auto simp: run cmdStore_def os_ReadFile_on_os split: sum.splits prod.splits)
  next
    case 2
    with assms(1) obtain fs where q: "flag_values [''f''] args = Some fs" "string_flag fs ''f'' [] \<noteq> []"
        "q = LoadRequest (string_flag fs ''f'' [])"
      by (auto simp: requested_def Let_def bind_eq_Some_conv split: if_splits)
    with q(2) assms(3) 2 show ?thesis unfolding q(3) call by (simp add: run cmdLoad_def)
  next
    case 3
    with assms(1) obtain fs where q: "flag_values [''f'', ''c''] args = Some fs" "string_flag fs ''f'' [] \<noteq> []"
        "q = AppendRequest (string_flag fs ''f'' []) (string_flag fs ''c'' [])"
      by (auto simp: requested_def Let_def bind_eq_Some_conv split: if_splits)
    with q(2) assms(3) 3 show ?thesis unfolding q(3) call
      by (auto simp: run cmdAppend_def split: sum.splits prod.splits)
  next
    case 4
    with assms(1) obtain fs where q: "flag_values [''f'', ''r''] args = Some fs" "string_flag fs ''f'' [] \<noteq> []"
        "string_flag fs ''r'' [] \<noteq> []" "q = ShareRequest (string_flag fs ''f'' []) (string_flag fs ''r'' [])"
      by (auto simp: requested_def Let_def bind_eq_Some_conv split: if_splits)
    with q(2,3) assms(3) 4 show ?thesis unfolding q(4) call
      by (auto simp: run cmdShare_def split: sum.splits prod.splits)
  next
    case 5
    with assms(1) obtain fs i where q: "flag_values [''s'', ''i'', ''f''] args = Some fs"
        "string_flag fs ''s'' [] \<noteq> []" "string_flag fs ''i'' [] \<noteq> []" "string_flag fs ''f'' [] \<noteq> []"
        "uuid_parse P (string_flag fs ''i'' []) = Some i" "q = AcceptRequest (string_flag fs ''s'' []) i (string_flag fs ''f'' [])"
      by (auto simp: requested_def Let_def bind_eq_Some_conv split: if_splits)
    with q(2-5) assms(3) 5 show ?thesis unfolding q(6) call
      by (auto simp: run cmdAccept_def split: sum.splits prod.splits)
  next
    case 6
    with assms(1) obtain fs where q: "flag_values [''f'', ''r''] args = Some fs" "string_flag fs ''f'' [] \<noteq> []"
        "string_flag fs ''r'' [] \<noteq> []" "q = RevokeRequest (string_flag fs ''f'' []) (string_flag fs ''r'' [])"
      by (auto simp: requested_def Let_def bind_eq_Some_conv split: if_splits)
    with q(2,3) assms(3) 6 show ?thesis unfolding q(4) call
      by (auto simp: run cmdRevoke_def split: sum.splits prod.splits)
  next
    case 7
    with assms(1) have q: "q = ListRequest" by (simp add: requested_def)
    from assms(3) 7 show ?thesis unfolding q call
      by (auto simp: run cmdList_def split: sum.splits prod.splits if_splits)
  qed
qed

lemma command_carries_out:
  assumes "provider_ok P" and ok: "badger_ok B contents" "faultless B contents" "reliable N L" "L < 2 ^ 32"
    and machine: "connected_machine D contents L mc" "LoadSession D (mc_os mc) = Some (Username u, pw)"
      "good_user u" "account_at P (stored_data contents (mc_server mc)) pw u"
    and request: "requested P D (mc_os mc) cmd args = Some q"
    and performs: "carry_out P (limited_service L) q (memory_of contents (mc_server mc) (mc_tick mc) u) = (Inr out, m')"
  shows "\<exists>mc'. sharelock P B N D S v (prog # cmd # args) mc = (0, out, mc') \<and> mc_os mc' = mc_os mc \<and>
    connected_machine D contents L mc' \<and> memory_of contents (mc_server mc') (mc_tick mc') (userdata m') = m'"
proof -
  let ?m = "memory_of contents (mc_server mc) (mc_tick mc) u"
  from session_opens_account [OF assms(1) ok machine requested_user_command [OF request], of S prog v]
  obtain c where c: "cl_user c = Some u" "same_online contents \<lparr>backing = cl_world c, tick = cl_tick c, userdata = u\<rparr> ?m"
    and run: "\<And>args p. run_command P B N D S prog cmd args ((start_process mc)\<lparr>p_client := c\<rparr>) = (Inr (), p) \<Longrightarrow>
      sharelock P B N D S v (prog # cmd # args) mc = (0, p_out p, end_process p)"
    by metis
  from with_user_online [OF related_services.refines_carry_out [OF limited_related [OF ok]] c(2,1) performs]
  obtain c' where c': "with_user (carry_out P (remote_service B N) q) c = (Inr out, c')"
      "same_online contents \<lparr>backing = cl_world c', tick = cl_tick c', userdata = userdata m'\<rparr> m'"
    by metis
  let ?p = "(start_process mc)\<lparr>p_client := c', p_out := out\<rparr>"
  have "run_command P B N D S prog cmd args ((start_process mc)\<lparr>p_client := c\<rparr>) = (Inr (), ?p)"
    using request_runs [where p = "(start_process mc)\<lparr>p_client := c\<rparr>"] request c(1) c'(1) by simp
  note out = run [OF this]
  have "within L (store_data (backing ?m))" using machine(1) by (simp add: connected_machine_def)
  from limited_within [OF related_services.refines_carry_out [OF limited_keeps_within] performs this]
  have small: "within L (store_data (backing m'))" .
  have mem: "memory_of contents (mc_server (end_process ?p)) (mc_tick (end_process ?p)) (userdata m') = m'"
    using c'(2) by (auto simp: same_online_behind behind_def memory_of_def stored_data_def end_process_def)
  then have data: "stored_data contents (mc_server (end_process ?p)) = store_data (backing m')"
    by (metis memory_of_simps(1))
  have os: "mc_os (end_process ?p) = mc_os mc" by (simp add: end_process_def)
  have "connected_machine D contents L (end_process ?p)"
    unfolding connected_machine_def os data
    using machine(1) small c'(2) by (simp add: connected_machine_def same_online_behind online_def end_process_def)
  with out os mem show ?thesis by (intro exI [of _ "end_process ?p"]) simp
qed

end
