(* ===== verification/Limits.thy ===== *)
theory Limits
  imports Reliable
begin

text \<open>
  Sharing within the limit of \<open>limited_service\<close>: \<open>CreateInvitation\<close> and \<open>AcceptInvitation\<close> do what they
  do in memory when the few messages they send fit.
\<close>

section \<open>Creating an invitation\<close>

lemma length_encryptFor:
  assumes "provider_ok P" and "encryptFor P k m s = (Inr c, s')"
  shows "length c = 60 + length m"
proof -
  note ok = provider_parts [OF assms(1)]
  have pub: "length (x25519_public P x) = 32" for x
    using ok(5) by (simp add: dh_ok_def)
  have gcm: "length (gcm_seal P key n m a) = length m + 16" if "length key = 32" "length n = 12" for key n a
    using ok(4) that by (simp add: gcm_ok_def)
  from assms(2) ok(1) show ?thesis
    by (auto simp: encryptFor_def run_bind run_wrap run_draw run_guard Let_def aes_NewCipher_def run_randomBytes
        gcm_nonce_size_def rnd_length pub invitation_key_def deriveKey_length [OF ok(3)] gcm someE_def
        split: prod.splits sum.splits option.splits if_splits)
qed

definition share_fits :: "nat \<Rightarrow> provider \<Rightarrow> nat \<Rightarrow> gostr \<Rightarrow> MailboxNode \<Rightarrow> Access \<Rightarrow> bool" where
  "share_fits L P t r mb a \<longleftrightarrow>
     37 \<le> L \<and> 17 + length r \<le> L \<and> 59 + length (marshal_mailbox P mb) \<le> L \<and>
     154 + length (marshal_invitation P (child_invitation (shared_child P t))) \<le> L \<and>
     59 + length (marshal_access P (with_child r (shared_child P t) a)) \<le> L"

lemma limited_key_get:
  assumes "store_keys (backing s) n = Some k" and "length k = 32" and "37 \<le> L" "9 + length n \<le> L"
  shows "on_backing (keyStore_Get (keyStore (limited_service L)) n) s = (Inr (Some k), s)"
  using assms by (simp add: on_backing_def limited_service_def NewService_def limited_Get_def)

lemma limited_CreateInvitation:
  assumes "provider_ok P" and within: "within L (store_data (backing s))"
    and view: "file_view P (store_data (backing s)) (userdata s) f a mb ino bs"
    and "Children a \<noteq> None" and "length (SigningPrivateKey (userdata s)) = 64"
    and rkey: "store_keys (backing s) (r @ lit ''_enc_pub'') = Some (x25519_public P sk)" "length sk = 32"
    and fits: "share_fits L P (tick s) r mb a"
  shows "CreateInvitation P (limited_service L) f r s = CreateInvitation P memory_service f r s"
proof -
  note ok = provider_parts [OF assms(1)]
  note fits = fits [unfolded share_fits_def]
  let ?b = "marshal_invitation P (child_invitation (shared_child P (tick s)))"
  define s1 where "s1 = write_data s (tick s + 3) ((store_data (backing s))
      (uuid_new P (tick s) \<mapsto> sealed P (tick s + 2) (marshal_mailbox P mb) (getMailKeys P (rnd P 32 (tick s + 1)))))"
  obtain r' s2 where enc: "encryptFor P (x25519_public P sk) ?b s1 = (r', s2)" by fastforce
  from encryptFor_decryptFor [OF assms(1) rkey(2) enc] obtain c
    where c: "r' = Inr c" and s2: "backing s2 = backing s1" "userdata s2 = userdata s1" "tick s2 = tick s1 + 2"
    by blast
  have len: "length c = 60 + length ?b" using length_encryptFor [OF assms(1)] enc c by simp
  from s2 have s2: "s2 = s1\<lparr>tick := tick s + 5\<rparr>"
    by (intro st.equality) (simp_all add: s1_def)
  have mb: "\<lparr>FileKey = FileKey mb, InodeUUID = InodeUUID mb\<rparr> = mb" by simp
  let ?g = "ed25519_sign P (SigningPrivateKey (userdata s)) c"
  have sg: "sign P (SigningPrivateKey (userdata s)) c = Inr ?g" and "length ?g = 64"
    using assms(5) ok(6) by (simp_all add: sign_def ed25519_PrivateKeySize_def sig_ok_def)
  then have big: "30 + length (c @ ?g) \<le> L" using fits len by simp
  have children: "Children a = Some (children_of a)"
    using assms(4) by (auto simp: children_of_def)
  have uuid: "length (uuid_new P t) = 16" "length (access_id P n h) = 16" for t n h
    using ok(7) access_id_length [OF ok(3)] by (simp_all add: uuid_ok_def)
  have pub: "length (x25519_public P sk) = 32" using ok(5) by (simp add: dh_ok_def)
  have parts: "reads_at P (store_data (backing s)) (access_id P (Username (userdata s)) f)
        (getPersonalKey P (MasterKey (userdata s)) f) (unmarshal_access P) a"
      "reads_at P (store_data (backing s)) (MymailboxUUID a) (getMailKeys P (MymailboxKey a)) (unmarshal_mailbox P) mb"
    using view by (simp_all add: file_view_def access_at_def mailbox_at_def)
  have key: "on_backing (keyStore_Get (keyStore (limited_service L)) (r @ lit ''_enc_pub'')) s1 =
      (Inr (Some (x25519_public P sk)), s1)"
    using rkey(1) pub fits by (intro limited_key_get) (simp_all add: s1_def)
  show ?thesis
    using enc [unfolded c s2 child_invitation_def shared_child_def s1_def] rkey ok sg uuid fits
      limited_open [OF within parts(1)] limited_open [OF within parts(2)] limited_set [OF _ big]
      key [unfolded s1_def]
    by (simp add: CreateInvitation_def Let_def run_bind run_wrap run_accessID view_opens [OF view]
        run_uuidNew run_randomBytes run_seal_record [OF assms(1)] limited_seal_record [OF assms(1)]
        derived_full_keys masterKeySize_def mb memory_runs children with_child_def shared_child_def
        child_invitation_def write_data_def numeral_eq_Suc)
qed

section \<open>Accepting it\<close>

definition accept_fits :: "nat \<Rightarrow> provider \<Rightarrow> gostr \<Rightarrow> User \<Rightarrow> gostr \<Rightarrow> Invitation \<Rightarrow> bool" where
  "accept_fits L P sender u f v \<longleftrightarrow>
     37 \<le> L \<and> 17 + length sender \<le> L \<and> 59 + length (marshal_access P (accepted_access v)) \<le> L \<and>
     75 + length (marshal_user P (with_file P u f)) \<le> L"

lemma limited_data_get:
  assumes "within L (store_data (backing s))" and "store_data (backing s) i = Some v"
  shows "on_backing (storage_Get (storage (limited_service L)) i) s = (Inr (Some v), s)"
  using assms by (auto simp: on_backing_def limited_service_def NewService_def limited_Get_def within_def not_less)

lemma limited_AcceptInvitation:
  assumes "provider_ok P" and within: "within L (store_data (backing s))"
    and inv: "invitation_at P (store_data (backing s)) i pk (EncryptionPrivateKey (userdata s)) v"
    and pk: "store_keys (backing s) (sender @ lit ''_sig_pub'') = Some pk" "length pk = 32"
    and files: "Files (userdata s) \<noteq> None" and salt: "length (PasswordSalt (userdata s)) = 16"
    and fits: "accept_fits L P sender (userdata s) f v"
  shows "AcceptInvitation P (limited_service L) sender i f s = AcceptInvitation P memory_service sender i f s"
proof -
  note ok = provider_parts [OF assms(1)]
  note fits = fits [unfolded accept_fits_def accepted_access_def with_file_def files_of_def]
  from inv obtain c g b where *: "store_data (backing s) i = Some (c @ g)" "length g = 64"
      "verify P pk c g = Inr ()" "decryptFor P (EncryptionPrivateKey (userdata s)) c = Inr b"
      "unmarshal_invitation P b = Inr v"
    unfolding invitation_at_def by blast
  from files obtain m where m: "Files (userdata s) = Some m" by blast
  have key: "on_backing (keyStore_Get (keyStore (limited_service L)) (sender @ lit ''_sig_pub'')) s = (Inr (Some pk), s)"
    using pk fits by (intro limited_key_get) simp_all
  have "length (access_id P n h) = 16" for n h
    using access_id_length [OF ok(3)] .
  then show ?thesis
    using * ok pk(1) salt m fits limited_data_get [OF within *(1)] key
    by (simp add: AcceptInvitation_def Let_def run_bind run_wrap memory_runs run_guard
        ed25519_SignatureSize_def run_encryptAndMAC derived_full_keys run_accessID set_file_def
        limited_set length_sealed limited_saveUser [OF assms(1)]
        run_saveUser passwordSaltSize_def write_data_def numeral_eq_Suc)
qed

end
