(* ===== verification/Machines.thy ===== *)
theory Machines
  imports Commands Limits
begin

text \<open>
  Example machines: the disks of Alice and Bob, each with a server in its table and a session, at a
  server that holds Alice's account and a file of hers, and at one that knows Bob as well.
\<close>

section \<open>Disks\<close>

definition home_hosts :: "(gostr, HostEntry) fmap" where
  "home_hosts = fmupd (lit ''default'') \<lparr>Addr = lit '':1'', TLS = False\<rparr> fmempty"

definition home_os :: "gostr \<Rightarrow> os" where
  "home_os n = \<lparr>os_env = Map.empty,
     os_files = [lit ''./g'' \<mapsto> sample, lit ''.hosts'' \<mapsto> json_indent 0 (enc_hosts home_hosts),
       lit ''.session'' \<mapsto> json_text (enc_session \<lparr>sess_Username = b64_encode n, sess_Password = b64_encode (lit ''pw'')\<rparr>)],
     os_dirs = {dot}\<rparr>"

lemma home_config:
  "config_Load plain_disk (home_os n) = (Inr \<lparr>Hosts = home_hosts, cfg_path = lit ''.hosts''\<rparr>, home_os n)"
proof -
  have path: "configPath plain_disk (home_os n) = lit ''.hosts''"
    by (simp add: home_os_def configPath_def os_Getenv_def os_UserHomeDir_def Let_def)
  have hosts_file: "os_ReadFile plain_disk (lit ''.hosts'') (home_os n) = (Inr (json_indent 0 (enc_hosts home_hosts)), home_os n)"
    by (simp add: os_ReadFile_def home_os_def) (simp add: lit_def)
  have "utf8_valid (lit ''default'')" "utf8_valid (lit '':1'')"
    by (auto intro!: utf8_valid_ascii simp: lit_def)
  then have "wf_hosts home_hosts" by (simp add: home_hosts_def wf_hosts_def)
  from hosts_roundtrip [OF this] show ?thesis
    by (simp add: config_Load_def Let_def path hosts_file)
qed

lemma home_session [simp]: "LoadSession plain_disk (home_os n) = Some (n, lit ''pw'')"
proof -
  have path: "sessionPath plain_disk (home_os n) = lit ''.session''"
    by (simp add: home_os_def sessionPath_def os_Getenv_def os_UserHomeDir_def Let_def)
  have "os_ReadFile plain_disk (lit ''.session'') (home_os n) =
      (Inr (json_text (enc_session \<lparr>sess_Username = b64_encode n, sess_Password = b64_encode (lit ''pw'')\<rparr>)), home_os n)"
    by (simp add: os_ReadFile_def home_os_def del: json_text.simps) (simp add: lit_def)
  then show ?thesis
    by (simp add: LoadSession_def path session_text_roundtrip)
qed

lemma home_file: "os_ReadFile plain_disk (lit ''./g'') (home_os n) = (Inr sample, home_os n)"
  by (simp add: os_ReadFile_def home_os_def) (simp add: lit_def)

lemma home_connected:
  assumes "within 5000 (stored_data (\<lambda>d. d) d)" and "\<And>k v. d k = Some v \<Longrightarrow> length v < 2 ^ 32"
  shows "connected_machine plain_disk (\<lambda>d. d) 5000 \<lparr>mc_os = home_os n, mc_server = d, mc_dials = i, mc_tick = t\<rparr>"
proof -
  have "chosen_server \<lparr>Hosts = home_hosts, cfg_path = lit ''.hosts''\<rparr> (home_os n) \<noteq> None"
    by (simp add: chosen_server_def config_Get_def home_hosts_def home_os_def os_Getenv_def Let_def)
  with assms show ?thesis by (simp add: connected_machine_def home_config)
qed

section \<open>Command lines\<close>

lemma parse_all_assigned:
  assumes "\<And>n v. (n, v) \<in> set vs \<Longrightarrow> map_of fs n = Some StringFlag \<and> n \<noteq> [] \<and> hd n \<noteq> minus_sign \<and> equals_sign \<notin> set n"
  shows "parse_flags fs (map (\<lambda>(n, v). minus_sign # n @ equals_sign # v) vs) acc =
    Parsed (acc @ map (\<lambda>(n, v). (n, FStr v)) vs) []"
  using assms
proof (induction vs arbitrary: acc)
  case (Cons x vs)
  obtain n v where x: "x = (n, v)" by fastforce
  have step: "parse_flags fs ((minus_sign # n @ equals_sign # v) # map (\<lambda>(n, v). minus_sign # n @ equals_sign # v) vs) acc =
      parse_flags fs (map (\<lambda>(n, v). minus_sign # n @ equals_sign # v) vs) (acc @ [(n, FStr v)])"
    by (rule parse_assigned(1)) (use Cons.prems [of n v] x in simp_all)
  have "parse_flags fs (map (\<lambda>(n, v). minus_sign # n @ equals_sign # v) vs) (acc @ [(n, FStr v)]) =
      Parsed ((acc @ [(n, FStr v)]) @ map (\<lambda>(n, v). (n, FStr v)) vs) []"
    by (rule Cons.IH) (use Cons.prems in auto)
  from trans [OF step this] show ?case
    unfolding x list.map prod.case append_assoc append.simps .
qed simp

lemma flag_values_assigned:
  assumes "args = map (\<lambda>(n, v). minus_sign # lit n @ equals_sign # v) vs"
    and "\<And>n. n \<in> fst ` set vs \<Longrightarrow> n \<in> set ns \<and> n \<noteq> [] \<and> hd (lit n) \<noteq> minus_sign \<and> equals_sign \<notin> set (lit n)"
  shows "flag_values ns args = Some (map (\<lambda>(n, v). (lit n, FStr v)) vs)"
proof -
  have flag: "map_of (string_flags ns) (lit n) = Some StringFlag" if "n \<in> set ns" for n
    using that by (induction ns) (auto simp: string_flags_def)
  have "parse_flags (string_flags ns) (map (\<lambda>(n, v). minus_sign # n @ equals_sign # v) (map (\<lambda>(n, v). (lit n, v)) vs)) [] =
      Parsed ([] @ map (\<lambda>(n, v). (n, FStr v)) (map (\<lambda>(n, v). (lit n, v)) vs)) []"
    by (rule parse_all_assigned) (use assms(2) flag in fastforce)
  moreover have "map (\<lambda>(n, v). minus_sign # n @ equals_sign # v) (map (\<lambda>(n, v). (lit n, v)) vs) = args"
    by (simp add: assms(1) case_prod_unfold)
  ultimately show ?thesis by (simp add: flag_values_def case_prod_unfold comp_def)
qed

section \<open>Alice alone\<close>

definition home_machine :: "(bytes \<rightharpoonup> bytes) machine" where
  "home_machine = \<lparr>mc_os = home_os alice, mc_server = file_db, mc_dials = 0, mc_tick = 30\<rparr>"

lemma home_machine_simps [simp]:
  "mc_os home_machine = home_os alice" "mc_server home_machine = file_db" "mc_tick home_machine = 30"
  "stored_data (\<lambda>d. d) file_db = alice_records"
  by (simp_all add: home_machine_def stored_data_def file_db_data)

lemma home_machine_connected: "connected_machine plain_disk (\<lambda>d. d) 5000 home_machine"
  unfolding home_machine_def
  by (rule home_connected) (use alice_records_within file_db_small in \<open>simp_all add: stored_data_def file_db_data\<close>)

text \<open>Command lines of \<open>-x=value\<close> flags.\<close>


lemma home_store_fits: "store_fits 5000 P0 30 alice_user (lit ''g'') sample"
proof -
  have one: "sorted_list_of_fmap (fmupd k x fmempty) = [(k, x)]" for k :: gostr and x :: uuid
    by (simp add: sorted_list_of_fmap_def sorted_list_of_fset.rep_eq)
  have "length (access_id P0 n f) = 16" for n f
    using run_accessID(2) provider_parts [OF P0_ok] by simp
  then have "length (json_text (enc_user P0 (with_file P0 alice_user (lit ''g'')))) \<le> 3000"
    by (intro order_trans [OF length_json_text])
      (simp add: enc_user_def length_b64_encode enc_map_def with_file_def files_of_def one P0_uuid_text,
        simp add: alice_user_def P0_master_key)
  then have "length (marshal_user P0 (with_file P0 alice_user (lit ''g''))) \<le> 3000"
    by (simp add: marshal_user_def del: json_text.simps)
  moreover have "59 + length (block fb) \<le> 5000" if "fb \<in> set (ByteToBlock sample)" for fb
  proof -
    have "block fb \<in> set (map block (ByteToBlock sample))" using that by simp
    then show ?thesis by (simp add: sample_blocks) (simp add: sample_def)
  qed
  ultimately show ?thesis
    using P0_marshal_sizes(1-3) [of 30] by (auto simp: store_fits_def)
qed

section \<open>Alice and Bob\<close>

definition bob_user :: User where
  "bob_user = \<lparr>Username = bob, EncryptionPrivateKey = pad 32 [8], SigningPrivateKey = pad 64 [9],
     MasterKey = deriveMasterKey P0 (lit ''pw'') (pad 16 [7]), PasswordSalt = pad 16 [7], Files = Some fmempty\<rparr>"

definition both_records :: "uuid \<rightharpoonup> bytes" where
  "both_records = alice_records(user_id P0 bob \<mapsto> user_payload P0 4 bob_user)"

definition both_keys :: "gostr \<rightharpoonup> bytes" where
  "both_keys = [alice @ lit ''_sig_pub'' \<mapsto> pad 32 [6], bob @ lit ''_enc_pub'' \<mapsto> pad 32 [8]]"

definition both_db :: "bytes \<rightharpoonup> bytes" where
  "both_db k = (if take 5 k = lit ''data:'' then both_records (drop 5 k)
     else if take 4 k = lit ''key:'' then both_keys (drop 4 k) else None)"

definition both_machine :: "gostr \<Rightarrow> (bytes \<rightharpoonup> bytes) machine" where
  "both_machine n = \<lparr>mc_os = home_os n, mc_server = both_db, mc_dials = 0, mc_tick = 30\<rparr>"

lemma both_db_names: "both_db (data_name i) = both_records i" "both_db (key_name n) = both_keys n"
  by (simp_all add: both_db_def data_name_def key_name_def) (simp add: lit_def of_char_byte_inj)

lemma both_keys_names: "both_keys (alice @ lit ''_sig_pub'') = Some (pad 32 [6])"
  "both_keys (bob @ lit ''_enc_pub'') = Some (x25519_public P0 (pad 32 [8]))"
  by (simp_all add: both_keys_def P0_def pad_id)

lemma both_machine_simps [simp]:
  "mc_os (both_machine n) = home_os n" "mc_server (both_machine n) = both_db" "mc_tick (both_machine n) = 30"
  "stored_data (\<lambda>d. d) both_db = both_records" "(both_machine n)\<lparr>mc_os := home_os n'\<rparr> = both_machine n'"
  by (simp_all add: both_machine_def stored_data_def both_db_names)

lemma bob_parts [simp]: "Username bob_user = bob" "Files bob_user = Some fmempty"
  "length (EncryptionPrivateKey bob_user) = 32" "length (SigningPrivateKey bob_user) = 64"
  "length (PasswordSalt bob_user) = 16" "EncryptionPrivateKey bob_user = pad 32 [8]"
  by (simp_all add: bob_user_def)

lemma bob_good: "good_user bob_user"
  by (simp add: good_user_def wf_user_def)

lemma bob_not_alice: "user_id P0 bob \<noteq> user_id P0 alice"
  by (rule apart_by_hd) simp

lemma both_accounts:
  "account_at P0 both_records (lit ''pw'') alice_user" "account_at P0 both_records (lit ''pw'') bob_user"
  using alice_account bob_not_alice by (auto simp: account_at_def both_records_def) (simp add: bob_user_def)

lemma both_file:
  "shared_file P0 both_records alice_user file_f (new_access P0 8) (new_mailbox P0 8) (new_inode P0 8 sample) [sample]"
proof -
  have ids: "user_id P0 bob \<notin> set (view_ids P0 alice_user file_f (new_access P0 8) (new_mailbox P0 8) (new_inode P0 8 sample))"
    using sample_apart(2) by (auto simp: view_ids_def new_access_def new_mailbox_def new_inode_def sample_blocks)
  then have "file_view P0 both_records alice_user file_f (new_access P0 8) (new_mailbox P0 8) (new_inode P0 8 sample) [sample]"
    by (intro file_view_frame [OF alice_file]) (auto simp: both_records_def)
  moreover have "distinct (user_id P0 alice # view_ids P0 alice_user file_f (new_access P0 8) (new_mailbox P0 8) (new_inode P0 8 sample))"
    by (auto simp: view_ids_def new_access_def new_mailbox_def new_inode_def sample_blocks P0_uuid_eq dest!: arg_cong [where f = hd])
  moreover have "wf_access (new_access P0 8)" "wf_mailbox (new_mailbox P0 8)" "wf_inode (new_inode P0 8 sample)"
    using new_records_wf [OF provider_parts(7) [OF P0_ok]] by (simp_all add: sample_def)
  moreover have children: "Children (new_access P0 8) = Some fmempty" by (simp add: new_access_def)
  ultimately show ?thesis
    by (simp add: shared_file_def child_infos_def children_of_def)
qed

lemma both_records_small:
  assumes "both_records i = Some v"
  shows "length i = 16 \<and> length v \<le> 2045"
proof (cases "i = user_id P0 bob")
  case True
  have none: "sorted_list_of_fmap (fmempty :: (gostr, 'a) fmap) = []"
    by (simp add: sorted_list_of_fmap_def sorted_list_of_fset.rep_eq)
  have "length (json_text (enc_user P0 bob_user)) \<le> 2000"
    by (rule order_trans [OF length_json_text])
      (simp add: enc_user_def length_b64_encode enc_map_def none, simp add: bob_user_def P0_master_key)
  then have "length (marshal_user P0 bob_user) \<le> 2000" by (simp add: marshal_user_def del: json_text.simps)
  then have "length (user_payload P0 4 bob_user) \<le> 2045"
    using P0_sealed [of 4 "marshal_user P0 bob_user" "getUserKeys P0 (MasterKey bob_user)"]
    by (simp add: user_payload_def)
  moreover have "length (user_id P0 bob) = 16" using run_userID(2) provider_parts [OF P0_ok] by simp
  ultimately show ?thesis using assms True by (simp add: both_records_def)
qed (use assms alice_records_small in \<open>simp add: both_records_def\<close>)

lemma both_connected: "connected_machine plain_disk (\<lambda>d. d) 5000 (both_machine n)"
  unfolding both_machine_def
proof (rule home_connected)
  show "within 5000 (stored_data (\<lambda>d. d) both_db)"
    using both_records_small by (fastforce simp: within_def)
  show "length v < 2 ^ 32" if "both_db k = Some v" for k v
  proof -
    have "length v \<le> 2045" if "both_keys m = Some v" for m
      using that by (auto simp: both_keys_def split: if_splits)
    with \<open>both_db k = Some v\<close> both_records_small show ?thesis
      by (fastforce simp: both_db_def split: if_splits)
  qed
qed

text \<open>The messages of sharing and accepting.\<close>

lemma marshal_small:
  "length (marshal_invitation P0 (child_invitation (shared_child P0 t))) \<le> 1000"
  "length (marshal_access P0 (with_child bob (shared_child P0 t) (new_access P0 8))) \<le> 3000"
  "length (marshal_access P0 (accepted_access (child_invitation (shared_child P0 t)))) \<le> 1000"
  "length (marshal_user P0 (with_file P0 bob_user file_g)) \<le> 3000"
proof -
  have one: "sorted_list_of_fmap (fmupd k x fmempty) = [(k, x)]" for k :: gostr and x :: 'b
    by (simp add: sorted_list_of_fmap_def sorted_list_of_fset.rep_eq)
  have none: "sorted_list_of_fmap (fmempty :: (gostr, 'a) fmap) = []"
    by (simp add: sorted_list_of_fmap_def sorted_list_of_fset.rep_eq)
  have id: "length (access_id P0 n f) = 16" for n f
    using run_accessID(2) provider_parts [OF P0_ok] by simp
  note size = length_b64_encode P0_rnd P0_uuid_text P0_uuid_new enc_map_def one none
  have "length (json_text (enc_invitation P0 (child_invitation (shared_child P0 t)))) \<le> 1000"
    by (rule order_trans [OF length_json_text]) (simp add: enc_invitation_def child_invitation_def shared_child_def size)
  moreover have "length (json_text (enc_access P0 (with_child bob (shared_child P0 t) (new_access P0 8)))) \<le> 3000"
    by (rule order_trans [OF length_json_text])
      (simp add: enc_access_def enc_child_def new_access_def with_child_def children_of_def shared_child_def size)
  moreover have "length (json_text (enc_access P0 (accepted_access (child_invitation (shared_child P0 t))))) \<le> 1000"
    by (rule order_trans [OF length_json_text])
      (simp add: enc_access_def accepted_access_def child_invitation_def shared_child_def size)
  moreover have "length (json_text (enc_user P0 (with_file P0 bob_user file_g))) \<le> 3000"
    by (rule order_trans [OF length_json_text])
      (simp add: enc_user_def with_file_def files_of_def id size, simp add: bob_user_def P0_master_key)
  ultimately show "length (marshal_invitation P0 (child_invitation (shared_child P0 t))) \<le> 1000"
    "length (marshal_access P0 (with_child bob (shared_child P0 t) (new_access P0 8))) \<le> 3000"
    "length (marshal_access P0 (accepted_access (child_invitation (shared_child P0 t)))) \<le> 1000"
    "length (marshal_user P0 (with_file P0 bob_user file_g)) \<le> 3000"
    by (simp_all add: marshal_invitation_def marshal_access_def marshal_user_def del: json_text.simps)
qed

lemma both_fits:
  "share_fits 5000 P0 t bob (new_mailbox P0 8) (new_access P0 8)"
  "accept_fits 5000 P0 alice bob_user file_g (child_invitation (shared_child P0 t))"
  using marshal_small(1-3) [of t] marshal_small(4) P0_marshal_sizes(1) [of 8] by (auto simp: share_fits_def accept_fits_def)

end
