(* ===== verification/EndToEnd.thy ===== *)
theory EndToEnd
  imports Machines
begin

text \<open>
  Commands from their arguments to their output, through every part of the program: the flags, the
  server table and the session on the disk, the client object, the services with their
  cryptography, the requests on the wire, the server's handler and the database.
\<close>

section \<open>Storing and loading\<close>

lemma load_command_runs:
  assumes "provider_ok P" and ok: "badger_ok B contents" "faultless B contents" "reliable N L" "L < 2 ^ 32"
    and machine: "connected_machine D contents L mc" "LoadSession D (mc_os mc) = Some (Username u, pw)"
      "good_user u" "account_at P (stored_data contents (mc_server mc)) pw u"
    and view: "file_view P (stored_data contents (mc_server mc)) u f a mb ino bs"
    and request: "requested P D (mc_os mc) (lit ''load'') args = Some (LoadRequest f)"
  shows "\<exists>mc'. sharelock P B N D S v (prog # lit ''load'' # args) mc = (0, concat bs, mc') \<and> mc_os mc' = mc_os mc"
proof -
  let ?m = "memory_of contents (mc_server mc) (mc_tick mc) u"
  have "within L (stored_data contents (mc_server mc))" using machine(1) by (simp add: connected_machine_def)
  then have "carry_out P (limited_service L) (LoadRequest f) ?m = (Inr (concat bs), ?m)"
    using view by (simp add: limited_LoadFile [OF assms(1)])
  from command_carries_out [OF assms(1) ok machine request this] show ?thesis by blast
qed

lemma store_command_runs:
  assumes "provider_ok P" and ok: "badger_ok B contents" "faultless B contents" "reliable N L" "L < 2 ^ 32"
    and machine: "connected_machine D contents L mc" "LoadSession D (mc_os mc) = Some (Username u, pw)"
      "good_user u" "account_at P (stored_data contents (mc_server mc)) pw u"
    and disk: "os_ReadFile D path (mc_os mc) = (Inr b, mc_os mc)" "int (length b) < 2 ^ 63" "utf8_valid (path_Base path)"
    and fits: "store_fits L P (mc_tick mc) u (path_Base path) b"
    and fresh: "fresh_uuids P (mc_tick mc) (8 + 2 * length (ByteToBlock b)) used"
    and ids: "access_id P (Username u) (path_Base path) \<in> used" "user_id P (Username u) \<in> used"
      "access_id P (Username u) (path_Base path) \<noteq> user_id P (Username u)"
    and flags: "parse_flags (string_flags [''f'']) args [] = Parsed acc rest" "string_flag acc ''f'' [] = path" "path \<noteq> []"
  obtains mc' where "sharelock P B N D S v (prog # lit ''store'' # args) mc = (0, ok_line, mc')" and "mc_os mc' = mc_os mc"
    and "connected_machine D contents L mc'"
    and "account_at P (stored_data contents (mc_server mc')) pw (with_file P u (path_Base path))"
    and "file_view P (stored_data contents (mc_server mc')) (with_file P u (path_Base path)) (path_Base path)
      (new_access P (mc_tick mc)) (new_mailbox P (mc_tick mc)) (new_inode P (mc_tick mc) b) (map block (ByteToBlock b))"
proof -
  let ?f = "path_Base path" and ?m = "memory_of contents (mc_server mc) (mc_tick mc) u"
  have request: "requested P D (mc_os mc) (lit ''store'') args = Some (StoreRequest ?f b)"
    using flags disk(1) by (simp add: requested_def flag_values_def)
  have salt: "length (PasswordSalt (userdata ?m)) = 16" using machine(3) by (simp add: good_user_def)
  obtain r m' where st: "StoreFile P memory_service ?f b ?m = (r, m')" by fastforce
  note sv = StoreFile_view [OF assms(1) salt disk(2) _ _ _ _ st, unfolded memory_of_simps, OF fresh ids]
  have "carry_out P (limited_service L) (StoreRequest ?f b) ?m = (Inr ok_line, m')"
    using limited_StoreFile [OF assms(1) salt] fits st sv(1) by (simp add: run_bind run_guard)
  from command_carries_out [OF assms(1) ok machine request this] obtain mc' where
    mc': "sharelock P B N D S v (prog # lit ''store'' # args) mc = (0, ok_line, mc')" "mc_os mc' = mc_os mc"
      "connected_machine D contents L mc'" "memory_of contents (mc_server mc') (mc_tick mc') (userdata m') = m'"
    by blast
  have data: "stored_data contents (mc_server mc') = store_data (backing m')"
    by (metis mc'(4) memory_of_simps(1))
  have acc: "account_at P (store_data (backing m')) pw (with_file P u ?f)"
    using sv(2,6) machine(4) by (auto simp: account_at_def)
  show thesis
    by (rule that [OF mc'(1-3)]) (unfold data, rule acc, use sv(2,5) in simp)
qed

text \<open>On Alice's machine: the file \<open>./g\<close> is stored under its base name.\<close>

lemma home_store:
  obtains mc' where "sharelock P0 map_badger N1 plain_disk no_streams ([], None)
      [lit ''sharelock'', lit ''store'', lit ''-f=./g''] home_machine = (0, ok_line, mc')"
    and "file_view P0 (stored_data (\<lambda>d. d) (mc_server mc')) (with_file P0 alice_user (lit ''g'')) (lit ''g'')
      (new_access P0 30) (new_mailbox P0 30) (new_inode P0 30 sample) (map block (ByteToBlock sample))"
proof -
  have base: "path_Base (lit ''./g'') = lit ''g''"
    using path_Base_plain(1) [of "lit ''g''" "lit ''.''"] by (simp add: lit_def)
  have flags: "parse_flags (string_flags [''f'']) [lit ''-f=./g''] [] = Parsed [(lit ''f'', FStr (lit ''./g''))] []"
    by (rule parse_assigned(2)) (simp_all add: string_flags_def lit_def)
  have name: "utf8_valid (lit ''g'')" by (rule utf8_valid_ascii) (simp add: lit_def)
  have size: "int (length sample) < 2 ^ 63" by (simp add: sample_def)
  have fresh: "fresh_uuids P0 (mc_tick home_machine) (8 + 2 * length (ByteToBlock sample)) {access_id P0 alice (lit ''g''), user_id P0 alice}"
    by (rule P0_fresh) (auto simp: sample_blocks)
  have ids: "access_id P0 alice (lit ''g'') \<noteq> user_id P0 alice"
    using apart_by_hd [of "access_id P0 alice (lit ''g'')" "user_id P0 alice"] by simp
  show thesis
    by (rule store_command_runs [OF P0_ok map_badger_ok map_badger_faultless N1_reliable _ home_machine_connected _
          alice_good, where path = "lit ''./g''" and b = sample and pw = "lit ''pw''" and args = "[lit ''-f=./g'']"
          and S = no_streams and v = "([], None)" and prog = "lit ''sharelock''"
          and used = "{access_id P0 alice (lit ''g''), user_id P0 alice}", unfolded base])
      (use alice_account home_file home_store_fits flags name size fresh ids that in \<open>auto simp: string_flag_def base\<close>)
qed

section \<open>Sharing\<close>

text \<open>A machine of somebody else at the same server, after the server has changed.\<close>

lemma connected_machine_move:
  assumes "connected_machine D contents L mc'" and "connected_machine D contents L (mc\<lparr>mc_os := s\<rparr>)"
  shows "connected_machine D contents L (mc'\<lparr>mc_os := s\<rparr>)"
proof -
  obtain r s' where "config_Load D s = (r, s')" by fastforce
  with assms show ?thesis by (cases r) (simp_all add: connected_machine_def)
qed

lemma memory_of_stored:
  assumes "memory_of contents (mc_server mc) (mc_tick mc) u = m"
  shows "stored_data contents (mc_server mc) = store_data (backing m)" "mc_tick mc = tick m"
    and "contents (mc_server mc) (key_name n) = store_keys (backing m) n"
  using assms by (auto simp: memory_of_def)

lemma share_command_runs:
  fixes mc :: "'d machine" and contents
  defines "m \<equiv> memory_of contents (mc_server mc) (mc_tick mc)"
  assumes "provider_ok P" and ok: "badger_ok B contents" "faultless B contents" "reliable N L" "L < 2 ^ 32"
    and machine: "connected_machine D contents L mc" "LoadSession D (mc_os mc) = Some (Username u, pw)"
      "good_user u" "account_at P (stored_data contents (mc_server mc)) pw u"
    and shared: "shared_file P (stored_data contents (mc_server mc)) u f a mb ino bs"
    and rkey: "contents (mc_server mc) (key_name (r @ lit ''_enc_pub'')) = Some (x25519_public P sk)" "length sk = 32"
    and fits: "share_fits L P (mc_tick mc) r mb a"
    and request: "requested P D (mc_os mc) (lit ''share'') args = Some (ShareRequest f r)"
  obtains i m' mc' where "CreateInvitation P memory_service f r (m u) = (Inr i, m')"
    and "sharelock P B N D S v (prog # lit ''share'' # args) mc = (0, uuid_text P i @ line_end, mc')"
    and "connected_machine D contents L mc'" and "memory_of contents (mc_server mc') (mc_tick mc') (userdata m') = m'"
proof -
  note sh = shared_file_parts [OF shared]
  have within: "within L (store_data (backing (m u)))"
    using machine(1) by (simp add: m_def connected_machine_def)
  have view: "file_view P (store_data (backing (m u))) (userdata (m u)) f a mb ino bs" and "Children a \<noteq> None"
    using sh(1,5) by (simp_all add: m_def)
  have "length (SigningPrivateKey (userdata (m u))) = 64" using machine(3) by (simp add: m_def good_user_def)
  have key: "store_keys (backing (m u)) (r @ lit ''_enc_pub'') = Some (x25519_public P sk)"
    using rkey(1) by (simp add: m_def memory_of_def)
  obtain c where "CreateInvitation P memory_service f r (m u) = (Inr (uuid_new P (tick (m u) + 5)), c)"
    using CreateInvitation_run [OF assms(2) view \<open>Children a \<noteq> None\<close> \<open>length (SigningPrivateKey _) = 64\<close> key rkey(2)]
    by metis
  moreover have "CreateInvitation P (limited_service L) f r (m u) = CreateInvitation P memory_service f r (m u)"
    using fits by (intro limited_CreateInvitation [OF assms(2) within view \<open>Children a \<noteq> None\<close>
        \<open>length (SigningPrivateKey _) = 64\<close> key rkey(2)]) (simp add: m_def)
  ultimately have "carry_out P (limited_service L) (ShareRequest f r) (m u) =
      (Inr (uuid_text P (uuid_new P (tick (m u) + 5)) @ line_end), c)"
    by (simp add: run_bind run_guard)
  from command_carries_out [OF assms(2) ok machine request this [unfolded m_def], of S v prog, folded m_def]
  obtain mc' where "sharelock P B N D S v (prog # lit ''share'' # args) mc =
        (0, uuid_text P (uuid_new P (tick (m u) + 5)) @ line_end, mc')"
      "connected_machine D contents L mc'" "memory_of contents (mc_server mc') (mc_tick mc') (userdata c) = c"
    by blast
  then show thesis
    using \<open>CreateInvitation P memory_service f r (m u) = _\<close> by (intro that)
qed

lemma accept_command_runs:
  assumes "provider_ok P" and ok: "badger_ok B contents" "faultless B contents" "reliable N L" "L < 2 ^ 32"
    and machine: "connected_machine D contents L mc" "LoadSession D (mc_os mc) = Some (Username v, pw)"
      "good_user v" "account_at P (stored_data contents (mc_server mc)) pw v"
    and shared: "shared_file P (stored_data contents (mc_server mc)) owner fo a mb ino bs" and c: "c \<in> fset (child_infos a)"
    and inv: "invitation_at P (stored_data contents (mc_server mc)) i pk (EncryptionPrivateKey v) (child_invitation c)"
    and pk: "contents (mc_server mc) (key_name (sender @ lit ''_sig_pub'')) = Some pk" "length pk = 32"
    and fits: "accept_fits L P sender v g (child_invitation c)"
    and apart: "access_id P (Username v) g \<notin> footprint P owner fo a mb ino"
      "user_id P (Username v) \<notin> footprint P owner fo a mb ino" "access_id P (Username v) g \<noteq> user_id P (Username v)"
    and request: "requested P D (mc_os mc) (lit ''accept'') args = Some (AcceptRequest sender i g)"
  obtains mc' where "sharelock P B N D S ver (prog # lit ''accept'' # args) mc = (0, ok_line, mc')"
    and "mc_os mc' = mc_os mc" and "connected_machine D contents L mc'"
    and "account_at P (stored_data contents (mc_server mc')) pw (with_file P v g)"
    and "file_view P (stored_data contents (mc_server mc')) (with_file P v g) g
      (accepted_access (child_invitation c)) mb ino bs"
proof -
  let ?m = "memory_of contents (mc_server mc) (mc_tick mc) v"
  have within: "within L (store_data (backing ?m))"
    using machine(1) by (simp add: connected_machine_def)
  have inv: "invitation_at P (store_data (backing ?m)) i pk (EncryptionPrivateKey (userdata ?m)) (child_invitation c)"
    using inv by simp
  have key: "store_keys (backing ?m) (sender @ lit ''_sig_pub'') = Some pk"
    using pk(1) by (simp add: memory_of_def)
  have v: "Files (userdata ?m) \<noteq> None" "length (PasswordSalt (userdata ?m)) = 16"
    using machine(3) by (simp_all add: good_user_def)
  obtain r m' where run: "AcceptInvitation P memory_service sender i g ?m = (r, m')" by fastforce
  note view = AcceptInvitation_view [where s = ?m, OF assms(1) _ c inv key v _ _ _ run, unfolded memory_of_simps, OF shared apart]
  have "AcceptInvitation P (limited_service L) sender i g ?m = AcceptInvitation P memory_service sender i g ?m"
    using fits by (intro limited_AcceptInvitation [OF assms(1) within inv key pk(2) v]) simp
  then have "carry_out P (limited_service L) (AcceptRequest sender i g) ?m = (Inr ok_line, m')"
    using run view(1) by (simp add: run_bind run_guard)
  from command_carries_out [OF assms(1) ok machine request this] obtain mc' where
    mc': "sharelock P B N D S ver (prog # lit ''accept'' # args) mc = (0, ok_line, mc')" "mc_os mc' = mc_os mc"
      "connected_machine D contents L mc'" "memory_of contents (mc_server mc') (mc_tick mc') (userdata m') = m'"
    by blast
  note data = memory_of_stored(1) [OF mc'(4)]
  have acc: "account_at P (store_data (backing m')) pw (with_file P v g)"
    using machine(4) AcceptInvitation_run [OF assms(1) inv key v, of g, unfolded run, simplified prod.inject]
    by (auto simp: account_at_def)
  show thesis
    by (rule that [OF mc'(1-3)]) (unfold data, rule acc, use view(2,4) in simp)
qed

lemma accepted_file_is_loaded:
  assumes "provider_ok P" and ok: "badger_ok B contents" "faultless B contents" "reliable N L" "L < 2 ^ 32"
    and machine: "connected_machine D contents L mc" "LoadSession D (mc_os mc) = Some (Username v, pw)"
      "good_user v" "account_at P (stored_data contents (mc_server mc)) pw v"
    and shared: "shared_file P (stored_data contents (mc_server mc)) owner fo a mb ino bs" and c: "c \<in> fset (child_infos a)"
    and inv: "invitation_at P (stored_data contents (mc_server mc)) i pk (EncryptionPrivateKey v) (child_invitation c)"
    and pk: "contents (mc_server mc) (key_name (sender @ lit ''_sig_pub'')) = Some pk" "length pk = 32"
    and fits: "accept_fits L P sender v g (child_invitation c)"
    and apart: "access_id P (Username v) g \<notin> footprint P owner fo a mb ino"
      "user_id P (Username v) \<notin> footprint P owner fo a mb ino" "access_id P (Username v) g \<noteq> user_id P (Username v)"
    and request: "requested P D (mc_os mc) (lit ''accept'') args = Some (AcceptRequest sender i g)"
      "requested P D (mc_os mc) (lit ''load'') args' = Some (LoadRequest g)"
    and "utf8_valid g"
  shows "\<exists>mc' mc''. sharelock P B N D S ver (prog # lit ''accept'' # args) mc = (0, ok_line, mc') \<and>
    sharelock P B N D S ver (prog # lit ''load'' # args') mc' = (0, concat bs, mc'')"
proof -
  obtain mc' where mc': "sharelock P B N D S ver (prog # lit ''accept'' # args) mc = (0, ok_line, mc')" "mc_os mc' = mc_os mc"
      "connected_machine D contents L mc'" "account_at P (stored_data contents (mc_server mc')) pw (with_file P v g)"
      "file_view P (stored_data contents (mc_server mc')) (with_file P v g) g (accepted_access (child_invitation c)) mb ino bs"
    by (rule accept_command_runs [OF assms(1) ok machine shared c inv pk fits apart request(1)])
  have "good_user (with_file P v g)"
    using provider_parts [OF assms(1)] machine(3) \<open>utf8_valid g\<close> by (intro good_user_with_file)
  moreover have "LoadSession D (mc_os mc') = Some (Username (with_file P v g), pw)"
      "requested P D (mc_os mc') (lit ''load'') args' = Some (LoadRequest g)"
    using machine(2) request(2) mc'(2) by simp_all
  ultimately show ?thesis
    using load_command_runs [OF assms(1) ok mc'(3) _ _ mc'(4,5)] mc'(1) by blast
qed

section \<open>Properties\<close>

text \<open>C5. The commands on files are their services: on a machine with a server in its table and a session of
  the account's user name and password, when database and network work, a process whose command line
  asks for a request performs it: whatever the request achieves on an in-memory storage with the content of
  the server, with a limit on the size of a message, the process prints the same, exits with 0, leaves
  the disk as it was and the server with the same data and keys.\<close>

theorem commands_perform_their_requests:
  assumes "provider_ok P" and ok: "badger_ok B contents" "faultless B contents" "reliable N L" "L < 2 ^ 32"
    and machine: "connected_machine D contents L mc" "LoadSession D (mc_os mc) = Some (Username u, pw)"
      "good_user u" "account_at P (stored_data contents (mc_server mc)) pw u"
    and request: "requested P D (mc_os mc) cmd args = Some q"
    and performs: "carry_out P (limited_service L) q (memory_of contents (mc_server mc) (mc_tick mc) u) = (Inr out, m')"
  shows "\<exists>mc'. sharelock P B N D S v (prog # cmd # args) mc = (0, out, mc') \<and> mc_os mc' = mc_os mc \<and>
    connected_machine D contents L mc' \<and> memory_of contents (mc_server mc') (mc_tick mc') (userdata m') = m'"
  by (rule command_carries_out [OF assms])

theorem commands_perform_their_requests_witness:
  "\<exists>mc'. sharelock P0 map_badger N1 plain_disk no_streams ([], None) [lit ''sharelock'', lit ''load'', lit ''-f=f''] home_machine =
    (0, sample, mc')"
proof -
  have "parse_flags (string_flags [''f'']) [lit ''-f=f''] [] = Parsed [(lit ''f'', FStr (lit ''f''))] []"
    by (rule parse_assigned(2)) (simp_all add: string_flags_def lit_def)
  then have request: "requested P0 plain_disk (home_os alice) (lit ''load'') [lit ''-f=f''] = Some (LoadRequest file_f)"
    by (simp add: requested_def flag_values_def string_flag_def)
  let ?m = "memory_of (\<lambda>d. d) file_db 30 alice_user"
  have "LoadFile P0 (limited_service 5000) file_f ?m = (Inr (concat [sample]), ?m)"
    by (rule limited_LoadFile [OF P0_ok]) (use alice_records_within alice_file in simp_all)
  then have "carry_out P0 (limited_service 5000) (LoadRequest file_f) ?m = (Inr sample, ?m)"
    by simp
  with request show ?thesis
    using commands_perform_their_requests [OF P0_ok map_badger_ok map_badger_faultless N1_reliable _ home_machine_connected _
        alice_good, of "lit ''pw''"] alice_account by fastforce
qed

text \<open>C6. Two commands in a row: when the session's user stores a file from the disk, both commands succeed
  and the second, a new process with nothing but the disk and the server, prints the bytes the
  file had on the disk.\<close>

theorem stored_file_is_printed:
  assumes "provider_ok P" and ok: "badger_ok B contents" "faultless B contents" "reliable N L" "L < 2 ^ 32"
    and machine: "connected_machine D contents L mc" "LoadSession D (mc_os mc) = Some (Username u, pw)"
      "good_user u" "account_at P (stored_data contents (mc_server mc)) pw u"
    and disk: "os_ReadFile D path (mc_os mc) = (Inr b, mc_os mc)" "int (length b) < 2 ^ 63" "utf8_valid (path_Base path)"
    and fits: "store_fits L P (mc_tick mc) u (path_Base path) b"
    and fresh: "fresh_uuids P (mc_tick mc) (8 + 2 * length (ByteToBlock b)) used"
    and ids: "access_id P (Username u) (path_Base path) \<in> used" "user_id P (Username u) \<in> used"
      "access_id P (Username u) (path_Base path) \<noteq> user_id P (Username u)"
    and store: "parse_flags (string_flags [''f'']) args [] = Parsed acc rest" "string_flag acc ''f'' [] = path" "path \<noteq> []"
    and load: "parse_flags (string_flags [''f'']) args' [] = Parsed acc' rest'" "string_flag acc' ''f'' [] = path_Base path"
  shows "\<exists>mc' mc''. sharelock P B N D S v (prog # lit ''store'' # args) mc = (0, ok_line, mc') \<and>
    sharelock P B N D S v (prog # lit ''load'' # args') mc' = (0, b, mc'')"
proof -
  obtain mc' where st: "sharelock P B N D S v (prog # lit ''store'' # args) mc = (0, ok_line, mc')" "mc_os mc' = mc_os mc"
    and c: "connected_machine D contents L mc'"
      "account_at P (stored_data contents (mc_server mc')) pw (with_file P u (path_Base path))"
      "file_view P (stored_data contents (mc_server mc')) (with_file P u (path_Base path)) (path_Base path)
        (new_access P (mc_tick mc)) (new_mailbox P (mc_tick mc)) (new_inode P (mc_tick mc) b) (map block (ByteToBlock b))"
    by (rule store_command_runs [OF assms(1) ok machine disk fits fresh ids store])
  have good: "good_user (with_file P u (path_Base path))"
    using provider_parts [OF assms(1)] machine(3) disk(3) by (intro good_user_with_file)
  have session: "LoadSession D (mc_os mc') = Some (Username (with_file P u (path_Base path)), pw)"
    using machine(2) st(2) by simp
  have "requested P D (mc_os mc') (lit ''load'') args' = Some (LoadRequest (path_Base path))"
    using load path_Base_not_Nil by (simp add: requested_def flag_values_def)
  from load_command_runs [OF assms(1) ok c(1) session good c(2,3) this, of S v prog] st(1)
  show ?thesis by auto
qed

theorem stored_file_is_printed_witness:
  "\<exists>mc' mc''. sharelock P0 map_badger N1 plain_disk no_streams ([], None) [lit ''sharelock'', lit ''store'', lit ''-f=./g''] home_machine =
      (0, ok_line, mc') \<and>
    sharelock P0 map_badger N1 plain_disk no_streams ([], None) [lit ''sharelock'', lit ''load'', lit ''-f=g''] mc' = (0, sample, mc'')"
proof -
  have flags: "parse_flags (string_flags [''f'']) [lit ''-f=./g''] [] = Parsed [(lit ''f'', FStr (lit ''./g''))] []"
      "parse_flags (string_flags [''f'']) [lit ''-f=g''] [] = Parsed [(lit ''f'', FStr (lit ''g''))] []"
    by (rule parse_assigned(2); simp add: string_flags_def lit_def)+
  have base: "path_Base (lit ''./g'') = lit ''g''"
    using path_Base_plain(1) [of "lit ''g''" "lit ''.''"] by (simp add: lit_def)
  have "fresh_uuids P0 30 (8 + 2 * length (ByteToBlock sample)) {access_id P0 alice (lit ''g''), user_id P0 alice}"
    by (rule P0_fresh) (auto simp: sample_blocks)
  moreover have "access_id P0 alice (lit ''g'') \<noteq> user_id P0 alice"
    using apart_by_hd [of "access_id P0 alice (lit ''g'')" "user_id P0 alice"] by simp
  moreover have "utf8_valid (lit ''g'')" by (rule utf8_valid_ascii) (simp add: lit_def)
  moreover have "int (length sample) < 2 ^ 63" by (simp add: sample_def)
  ultimately show ?thesis
    using stored_file_is_printed [OF P0_ok map_badger_ok map_badger_faultless N1_reliable _ home_machine_connected _
        alice_good, of "lit ''pw''" "lit ''./g''" sample] alice_account home_file home_store_fits base flags
    by (simp add: string_flag_def)
qed

text \<open>C4. Sharing, end to end: the owner of a file runs \<open>sharelock share\<close>, which prints the UUID of an invitation;
  another user with an account on the same server runs \<open>sharelock accept\<close> with that UUID and a name of
  their own, and then \<open>sharelock load\<close> with that name: when database and network work and carry the
  records, the three processes exit with 0 and the last one prints the content of the file.\<close>

theorem shared_file_is_printed:
  assumes "provider_ok P" and ok: "badger_ok B contents" "faultless B contents" "reliable N L" "L < 2 ^ 32"
    and sharer: "connected_machine D contents L mc" "LoadSession D (mc_os mc) = Some (Username u, pw)"
      "good_user u" "account_at P (stored_data contents (mc_server mc)) pw u"
    and recipient: "connected_machine D contents L (mc\<lparr>mc_os := s\<rparr>)" "LoadSession D s = Some (Username v, pw')"
      "good_user v" "account_at P (stored_data contents (mc_server mc)) pw' v"
    and shared: "shared_file P (stored_data contents (mc_server mc)) u f a mb ino bs"
    and keys: "ed25519_genkey P t0 = Some (pk, SigningPrivateKey u)"
      "contents (mc_server mc) (key_name (Username u @ lit ''_sig_pub'')) = Some pk"
      "contents (mc_server mc) (key_name (Username v @ lit ''_enc_pub'')) = Some (x25519_public P (EncryptionPrivateKey v))"
    and fresh: "fresh_uuids P (mc_tick mc) 7 used"
    and used: "insert (access_id P (Username v) g) (insert (user_id P (Username v)) (footprint P u f a mb ino)) \<subseteq> used"
    and apart: "access_id P (Username v) g \<notin> footprint P u f a mb ino"
      "user_id P (Username v) \<notin> footprint P u f a mb ino" "access_id P (Username v) g \<noteq> user_id P (Username v)"
    and fits: "share_fits L P (mc_tick mc) (Username v) mb a"
      "accept_fits L P (Username u) v g (child_invitation (shared_child P (mc_tick mc)))" and "utf8_valid g"
    and request: "requested P D (mc_os mc) (lit ''share'') args = Some (ShareRequest f (Username v))"
  shows "\<exists>mc1. sharelock P B N D S ver (prog # lit ''share'' # args) mc =
      (0, uuid_text P (uuid_new P (mc_tick mc + 5)) @ line_end, mc1) \<and>
    (\<forall>args' args''. requested P D s (lit ''accept'') args' =
        Some (AcceptRequest (Username u) (uuid_new P (mc_tick mc + 5)) g) \<longrightarrow>
      requested P D s (lit ''load'') args'' = Some (LoadRequest g) \<longrightarrow>
      (\<exists>mc2 mc3. sharelock P B N D S ver (prog # lit ''accept'' # args') (mc1\<lparr>mc_os := s\<rparr>) = (0, ok_line, mc2) \<and>
        sharelock P B N D S ver (prog # lit ''load'' # args'') mc2 = (0, concat bs, mc3)))"
proof -
  let ?m = "memory_of contents (mc_server mc) (mc_tick mc) u" and ?c = "shared_child P (mc_tick mc)"
  let ?a = "with_child (Username v) ?c a"
  have v: "length (EncryptionPrivateKey v) = 32" "utf8_valid (Username v)"
    using recipient(3) by (simp_all add: good_user_def wf_user_def)
  obtain i m1 mc1 where cr: "CreateInvitation P memory_service f (Username v) ?m = (Inr i, m1)"
    and share: "sharelock P B N D S ver (prog # lit ''share'' # args) mc = (0, uuid_text P i @ line_end, mc1)"
    and mc1: "connected_machine D contents L mc1" "memory_of contents (mc_server mc1) (mc_tick mc1) (userdata m1) = m1"
    by (rule share_command_runs [OF assms(1) ok sharer shared keys(3) v(1) fits(1) request])
  have sub: "footprint P (userdata ?m) f a mb ino \<subseteq> used" using used by simp
  have key: "store_keys (backing ?m) (Username v @ lit ''_enc_pub'') = Some (x25519_public P (EncryptionPrivateKey v))"
    using keys(3) by (simp add: memory_of_def)
  note made = CreateInvitation_shared [where s = ?m, OF assms(1) _ _ key v _ sub cr, unfolded memory_of_simps, OF shared keys(1) fresh]
  note data = memory_of_stored(1) [OF mc1(2)]
  have pk: "contents (mc_server mc1) (key_name (Username u @ lit ''_sig_pub'')) = Some pk" "length pk = 32"
  proof -
    show "contents (mc_server mc1) (key_name (Username u @ lit ''_sig_pub'')) = Some pk"
      using keys(2) made(4) memory_of_stored(3) [OF mc1(2)] by (simp add: memory_of_def)
    show "length pk = 32"
      using keys(1) provider_parts(1) [OF assms(1)] unfolding rng_ok_def by (metis option.inject prod.inject)
  qed
  have foot: "footprint P u f ?a mb ino \<subseteq> insert (uuid_new P (mc_tick mc)) (footprint P u f a mb ino)"
    using footprint_with_child [of P u f _ ?c a] by (simp add: shared_child_def)
  have "uuid_new P (mc_tick mc) \<notin> used" using fresh_uuids_D(1) [OF fresh, of "mc_tick mc"] by simp
  then have apart': "access_id P (Username v) g \<notin> footprint P u f ?a mb ino"
      "user_id P (Username v) \<notin> footprint P u f ?a mb ino"
    using foot apart(1,2) used by auto
  have "user_id P (Username v) \<noteq> access_id P (Username u) f"
    using apart(2) by (auto simp: footprint_def view_ids_def)
  then have account: "account_at P (stored_data contents (mc_server mc1)) pw' v"
    using recipient(4) made(7) [of "user_id P (Username v)"] used by (simp add: account_at_def data)
  let ?mc = "mc1\<lparr>mc_os := s\<rparr>"
  have c: "?c \<in> fset (child_infos ?a)" by (auto simp: in_child_infos)
  have inv: "invitation_at P (stored_data contents (mc_server ?mc)) i pk (EncryptionPrivateKey v) (child_invitation ?c)"
    and sh: "shared_file P (stored_data contents (mc_server ?mc)) u f ?a mb ino bs"
    using made(1,2,5,6) data by simp_all
  have "\<exists>mc2 mc3. sharelock P B N D S ver (prog # lit ''accept'' # args') ?mc = (0, ok_line, mc2) \<and>
      sharelock P B N D S ver (prog # lit ''load'' # args'') mc2 = (0, concat bs, mc3)"
    if "requested P D s (lit ''accept'') args' = Some (AcceptRequest (Username u) i g)"
      and "requested P D s (lit ''load'') args'' = Some (LoadRequest g)" for args' args''
    by (rule accepted_file_is_loaded [OF assms(1) ok connected_machine_move [OF mc1(1) recipient(1)] _ recipient(3) _ sh c inv
        _ pk(2) fits(2) apart' apart(3)]) (use recipient(2) account pk(1) that \<open>utf8_valid g\<close> in simp_all)
  with share made(1) show ?thesis by auto
qed

theorem shared_file_is_printed_witness:
  "\<exists>mc1 mc2 mc3. let run = sharelock P0 map_badger N1 plain_disk no_streams ([], None); i = uuid_text P0 (uuid_new P0 35) in
    run [lit ''sharelock'', lit ''share'', lit ''-f=f'', lit ''-r=bob''] (both_machine alice) = (0, i @ line_end, mc1) \<and>
    run [lit ''sharelock'', lit ''accept'', lit ''-s=alice'', lit ''-i='' @ i, lit ''-f=g''] (mc1\<lparr>mc_os := home_os bob\<rparr>) =
      (0, ok_line, mc2) \<and>
    run [lit ''sharelock'', lit ''load'', lit ''-f=g''] mc2 = (0, sample, mc3)"
proof -
  let ?i = "uuid_new P0 35"
  have "flag_values [''f'', ''r''] [lit ''-f=f'', lit ''-r=bob''] = Some (map (\<lambda>(n, v). (lit n, FStr v)) [(''f'', file_f), (''r'', bob)])"
    by (rule flag_values_assigned) (auto simp: lit_def)
  then have share: "requested P0 plain_disk (home_os alice) (lit ''share'') [lit ''-f=f'', lit ''-r=bob''] =
      Some (ShareRequest file_f bob)"
    by (simp add: requested_def string_flag_def)
  have "flag_values [''s'', ''i'', ''f''] [lit ''-s=alice'', lit ''-i='' @ uuid_text P0 ?i, lit ''-f=g''] =
      Some (map (\<lambda>(n, v). (lit n, FStr v)) [(''s'', alice), (''i'', uuid_text P0 ?i), (''f'', file_g)])"
    by (rule flag_values_assigned) (auto simp: lit_def)
  moreover have "uuid_parse P0 (uuid_text P0 ?i) = Some ?i" "uuid_text P0 ?i \<noteq> []"
    using provider_parts(7) [OF P0_ok] P0_uuid_text [of ?i] by (auto simp: uuid_ok_def)
  ultimately have accept: "requested P0 plain_disk (home_os bob) (lit ''accept'')
      [lit ''-s=alice'', lit ''-i='' @ uuid_text P0 ?i, lit ''-f=g''] = Some (AcceptRequest alice ?i file_g)"
    by (simp add: requested_def string_flag_def)
  have "flag_values [''f''] [lit ''-f=g''] = Some (map (\<lambda>(n, v). (lit n, FStr v)) [(''f'', file_g)])"
    by (rule flag_values_assigned) (auto simp: lit_def)
  then have load: "requested P0 plain_disk (home_os bob) (lit ''load'') [lit ''-f=g''] = Some (LoadRequest file_g)"
    by (simp add: requested_def string_flag_def)
  have keys: "ed25519_genkey P0 6 = Some (pad 32 [6], SigningPrivateKey alice_user)"
      "both_db (key_name (Username alice_user @ lit ''_sig_pub'')) = Some (pad 32 [6])"
      "both_db (key_name (Username bob_user @ lit ''_enc_pub'')) = Some (x25519_public P0 (EncryptionPrivateKey bob_user))"
    by (simp add: P0_def alice_user_def) (simp_all add: both_db_names both_keys_names)
  have fresh: "fresh_uuids P0 30 7 sample_used" by (rule sample_fresh) simp_all
  have valid: "utf8_valid file_g" by (rule utf8_valid_ascii) (simp add: lit_def)
  have used: "insert (access_id P0 bob file_g) (insert (user_id P0 bob)
      (footprint P0 alice_user file_f (new_access P0 8) (new_mailbox P0 8) (new_inode P0 8 sample))) \<subseteq> sample_used"
    by (auto simp: sample_footprint sample_used_def)
  have apart: "access_id P0 bob file_g \<notin> footprint P0 alice_user file_f (new_access P0 8) (new_mailbox P0 8) (new_inode P0 8 sample)"
      "user_id P0 bob \<notin> footprint P0 alice_user file_f (new_access P0 8) (new_mailbox P0 8) (new_inode P0 8 sample)"
    unfolding sample_footprint alice_parts by (rule sample_apart)+
  note sharing = shared_file_is_printed [OF P0_ok map_badger_ok map_badger_faultless N1_reliable _ both_connected [of alice] _
    alice_good _ _ _ bob_good _ _ keys(1), of "lit ''pw''" "home_os bob" "lit ''pw''" file_f "new_access P0 8"
    "new_mailbox P0 8" "new_inode P0 8 sample" "[sample]" sample_used file_g "[lit ''-f=f'', lit ''-r=bob'']" no_streams "([], None)" "lit ''sharelock''"]
  from sharing obtain mc1 where mc1: "sharelock P0 map_badger N1 plain_disk no_streams ([], None)
        [lit ''sharelock'', lit ''share'', lit ''-f=f'', lit ''-r=bob''] (both_machine alice) = (0, uuid_text P0 ?i @ line_end, mc1)"
    and rest: "\<And>args' args''. requested P0 plain_disk (home_os bob) (lit ''accept'') args' = Some (AcceptRequest alice ?i file_g) \<Longrightarrow>
      requested P0 plain_disk (home_os bob) (lit ''load'') args'' = Some (LoadRequest file_g) \<Longrightarrow>
      \<exists>mc2 mc3. sharelock P0 map_badger N1 plain_disk no_streams ([], None) (lit ''sharelock'' # lit ''accept'' # args')
          (mc1\<lparr>mc_os := home_os bob\<rparr>) = (0, ok_line, mc2) \<and>
        sharelock P0 map_badger N1 plain_disk no_streams ([], None) (lit ''sharelock'' # lit ''load'' # args'') mc2 = (0, sample, mc3)"
    using both_connected [of bob] both_accounts both_file keys(2,3) fresh used apart sample_apart(3) both_fits valid share
    by auto
  from rest [OF accept load] mc1 show ?thesis by (auto simp: Let_def)
qed

end
