(* ===== verification/Diagnostics.thy ===== *)
theory Diagnostics
  imports Cli
begin

text \<open>
  What the command line tells its user when it fails: a command that ends with a status other than 0
  has printed nothing on its standard output and has written to its standard error, unless it
  panicked (the Go runtime writes the trace then).
\<close>

section \<open>Programs that say why they fail\<close>

text \<open>A program that has written nothing when it ends without an error.\<close>

definition silent :: "('d process, 'a) prog \<Rightarrow> bool" where
  "silent m \<longleftrightarrow> (\<forall>p x p'. m p = (Inr x, p') \<longrightarrow> p_out p' = p_out p)"

text \<open>The standard error explains the end of a program: a message for the status 1, a complaint about a flag for 2.\<close>

definition accounts_for :: "err \<Rightarrow> diagnostic list \<Rightarrow> bool" where
  "accounts_for e ds \<longleftrightarrow> panics e \<or> e = Exit 0 \<or> e = Exit 1 \<and> ds \<noteq> [] \<or>
     e = Exit 2 \<and> (\<exists>m n. BadFlag m n \<in> set ds)"

lemma accounts_for_simps [simp]:
  "panics e \<Longrightarrow> accounts_for e ds" "accounts_for (Exit 0) ds" "accounts_for (Exit (Suc 0)) (ds @ [d])"
  "accounts_for (Exit 2) (ds @ [BadFlag m n, d])" "accounts_for (Exit (Suc 0)) (ds @ [d, d'])"
  by (auto simp: accounts_for_def)

text \<open>A program that fails with a panic, or with a message and one of Go's usual statuses.\<close>

definition explains :: "('d process, 'a) prog \<Rightarrow> bool" where
  "explains m \<longleftrightarrow> (\<forall>p e p'. m p = (Inl e, p') \<longrightarrow>
     p_out p' = p_out p \<and> accounts_for e (p_err p'))"

named_theorems explain_intros
named_theorems silent_intros

lemma silentD: "silent m \<Longrightarrow> m p = (Inr x, p') \<Longrightarrow> p_out p' = p_out p"
  by (auto simp: silent_def)

lemma explainsD:
  "explains m \<Longrightarrow> m p = (Inl e, p') \<Longrightarrow> p_out p' = p_out p \<and> accounts_for e (p_err p')"
  by (auto simp: explains_def)

lemma explains_bind [explain_intros]:
  assumes "explains m" and "silent m" and "\<And>x. explains (k x)"
  shows "explains (bindE m k)"
  unfolding explains_def
proof (intro allI impI)
  fix p e p' assume "bindE m k p = (Inl e, p')"
  then consider "m p = (Inl e, p')" | x q where "m p = (Inr x, q)" "k x q = (Inl e, p')"
    by (auto simp: run_bind split: prod.splits sum.splits)
  then show "p_out p' = p_out p \<and> accounts_for e (p_err p')"
  proof cases
    case 1
    with explainsD [OF assms(1)] show ?thesis by simp
  next
    case 2
    with explainsD [OF assms(3) 2(2)] silentD [OF assms(2) 2(1)] show ?thesis by simp
  qed
qed

text \<open>Single steps.\<close>

lemma explains_steps [explain_intros]:
  "explains (ret x)" "explains (gets f)" "explains (Print b)" "explains (Println b)" "explains (Eprint b)"
  "explains (Complain d)" "explains (die d)" "explains (throw (Panic s))" "explains (throw (Exit 0))" "explains (ignore_error m)"
  "explains hostUsage" "explains (printUsage c)" "explains (exit_on_error c (on_os m'))"
  "explains (exit_on_error c (on_client m''))" "explains (required c' t u)" "explains (parse_flags_or_exit u fs args)"
  by (auto simp: explains_def run_guard run_on run_complaints run_exit_on_error run_ignore_error run_required
      parse_flags_or_exit_def run_bind Let_def split: prod.splits sum.splits if_splits parse_result.splits)

lemma silent_steps [silent_intros]:
  "silent (ret x)" "silent (gets f)" "silent (printUsage cc)"  "silent (Eprint b)" "silent (Complain d)" "silent (die d)"
  "silent (ignore_error (on_os m'))" "silent (exit_on_error c (on_os m''))"
  "silent (exit_on_error c (on_client m3))" "silent (on_client m4)" "silent (required c' t u)"
  "silent (parse_flags_or_exit u fs args)"
  by (auto simp: silent_def run_on run_complaints run_exit_on_error run_ignore_error run_required
      parse_flags_or_exit_def run_bind split: prod.splits sum.splits if_splits parse_result.splits)

lemma explains_cases [explain_intros]:
  "(b \<Longrightarrow> explains m) \<Longrightarrow> (\<not> b \<Longrightarrow> explains n) \<Longrightarrow> explains (if b then m else n)"
  "explains n' \<Longrightarrow> (\<And>x. explains (f x)) \<Longrightarrow> explains (case o' of None \<Rightarrow> n' | Some x \<Rightarrow> f x)"
  by (auto split: option.split)

lemma silent_cases [silent_intros]:
  "silent n' \<Longrightarrow> (\<And>x. silent (f x)) \<Longrightarrow> silent (case o' of None \<Rightarrow> n' | Some x \<Rightarrow> f x)"
  by (auto split: option.split)

lemma ListFiles_succeeds: "ListFiles P s \<noteq> (Inl e, s')"
  by (auto simp: ListFiles_def run_bind run_draw split: option.split)

lemma explains_list [explain_intros]: "explains (on_client (app_ListFiles P))"
proof -
  have "app_ListFiles P c \<noteq> (Inl e, c')" for c e c'
    by (auto simp: app_ListFiles_def with_user_def in_service_def ListFiles_succeeds split: option.split prod.split)
  then show ?thesis by (auto simp: explains_def run_on split: prod.splits)
qed

lemma explains_connected:
  assumes "explains m"
  shows "explains (connected server m)"
  unfolding explains_def
proof (intro allI impI)
  fix p e p' assume run: "connected server m p = (Inl e, p')"
  obtain r q where m: "m (p\<lparr>p_client := client_for server (p_client p)\<rparr>) = (r, q)" by fastforce
  from run_connected [of m server p r q, OF m] obtain p'' where p'': "connected server m p = (r, p'')" "p_out p'' = p_out q" "p_err p'' = p_err q"
    by metis
  with run have r: "r = Inl e" "p'' = p'" by simp_all
  from explainsD [OF assms m [unfolded r]] p'' r
  show "p_out p' = p_out p \<and> accounts_for e (p_err p')" by simp
qed

section \<open>The commands\<close>

lemma explains_user_commands [explain_intros]:
  "explains (cmdInit P B N D args)" "explains (cmdLogin P B N D args)" "explains (cmdLogout D)"
  "explains (cmdStore P B N D args)" "explains (cmdLoad P B N args)" "explains (cmdAppend P B N args)"
  "explains (cmdShare P B N args)" "explains (cmdAccept P B N args)" "explains (cmdRevoke P B N args)"
  "explains (cmdList P)" "explains (cmdRead D S args)"
  unfolding cmdInit_def cmdLogin_def cmdLogout_def cmdStore_def cmdLoad_def cmdAppend_def cmdShare_def
    cmdAccept_def cmdRevoke_def cmdList_def cmdRead_def Let_def
  by (rule explain_intros silent_intros)+

lemma explains_hostCmd [explain_intros]: "explains (hostCmd D cfg args)"
proof (cases args)
  case Nil
  then show ?thesis by (simp add: hostCmd_def explain_intros)
next
  case (Cons sub rest)
  then show ?thesis unfolding hostCmd_def Let_def list.case(2)
    by (simp only: list.case) (rule explain_intros silent_intros)+
qed

lemma explains_run_command [explain_intros]: "explains (run_command P B N D S prog cmd args)"
  unfolding run_command_def runLegacy_def by (rule explain_intros silent_intros)+

lemma explains_restore_session [explain_intros]:
  "explains (restore_session P B N D cmd)" "silent (restore_session P B N D cmd)"
proof -
  show "explains (restore_session P B N D cmd)"
    unfolding restore_session_def case_prod_unfold by (rule explain_intros silent_intros)+
  show "silent (restore_session P B N D cmd)"
    by (auto simp: silent_def restore_session_def run_bind run_complaints run_exit_on_error run_on
        split: if_splits option.splits prod.splits sum.splits)
qed

lemma main_explains:
  assumes "cmd \<notin> {lit ''version'', lit ''--version''}"
  shows "explains (sharelock_main P B N D S v (prog # cmd # args))"
  unfolding sharelock_main_def list.case
  by (rule explain_intros explains_connected silent_intros | (use assms in \<open>simp; fail\<close>))+

text \<open>C28. A command that fails says so: whatever the arguments, the disk, the server and the session are, a
  process that ends with a status other than 0 has written nothing to its standard output; unless
  it panicked it ends with 1 after a message on its standard error, or with 2 after a complaint about
  one of its flags.\<close>

theorem failures_are_reported:
  assumes "sharelock_main P B N D S v argv (start_process mc) = (r, p)" and "exit_status r \<noteq> 0"
  shows "p_out p = [] \<and> (\<exists>e. r = Inl e \<and> (panics e \<or> e = Exit 1 \<and> p_err p \<noteq> [] \<or>
    e = Exit 2 \<and> (\<exists>m n. BadFlag m n \<in> set (p_err p))))"
proof -
  obtain e where r: "r = Inl e" using assms(2) by (cases r) auto
  have "p_out p = [] \<and> accounts_for e (p_err p)"
  proof (cases "\<exists>prog cmd args. argv = prog # cmd # args \<and> cmd \<notin> {lit ''version'', lit ''--version''}")
    case True
    then have "explains (sharelock_main P B N D S v argv)" using main_explains by blast
    from explainsD [OF this assms(1) [unfolded r]] show ?thesis by simp
  next
    case False
    then show ?thesis
      using assms by (cases argv rule: remdups_adj.cases)
        (auto simp: sharelock_main_def r run_bind run_complaints run_guard run_on split: if_splits)
  qed
  with assms(2) r show ?thesis by (auto simp: accounts_for_def)
qed

theorem failures_are_reported_witness:
  "\<exists>r p. sharelock_main P0 map_badger N0 plain_disk no_streams ([], None)
      [lit ''sharelock'', lit ''bogus''] (start_process empty_machine) = (r, p) \<and>
    exit_status r = 1 \<and> p_out p = [] \<and> p_err p \<noteq> []"
proof -
  let ?main = "sharelock_main P0 map_badger N0 plain_disk no_streams ([], None) [lit ''sharelock'', lit ''bogus'']"
  obtain p where run: "?main (start_process empty_machine) = (Inl (Exit 1), p)"
    using empty_machine_load(2)
    by (simp add: sharelock_main_def run_bind run_on run_exit_on_error chosen_server_def config_Get_def Let_def connected_def
        restore_session_def userCommands_def run_command_def legacyCommands_def run_complaints)
  from failures_are_reported [OF run] run show ?thesis by auto
qed

text \<open>An unknown subcommand of \<open>host\<close> is reported too, but the process ends with 0.\<close>

lemma unknown_host_command:
  assumes "config_Load D (mc_os mc) = (Inr cfg, s)"
    and "sub \<notin> set (map lit [''--help'', ''-h'', ''list'', ''ls'', ''add'', ''rm'', ''remove'', ''default'', ''use''])"
  shows "sharelock P B N D S v (a # lit ''host'' # sub # rest) mc = (0, [], mc)"
  using assms config_Load_state [OF assms(1)]
  by (simp add: sharelock_def sharelock_main_def run_bind run_on run_exit_on_error hostCmd_def run_complaints)

end
