(* ===== verification/Typing.thy ===== *)
theory Typing
  imports App
begin

text \<open>
  What the services may put into a storage: \<open>stored_value\<close> and \<open>public_key\<close> describe it, the locale
  \<open>sealing_service\<close> is about a service whose storage keeps an invariant as long as only such values
  are written, and inside it every method of \<open>service.go\<close> is shown to keep the invariant, also when
  it fails. The in-memory stores and the remote stores over any network are such services.
\<close>

section \<open>Types of decoded records\<close>

text \<open>
  Go's \<open>uuid.UUID\<close> is an array of 16 bytes; here it is a list, so that its length is an invariant:
  whatever a record says, decoding it gives UUIDs of 16 bytes.
\<close>

definition map_values :: "('a \<Rightarrow> bool) \<Rightarrow> (gostr, 'a) fmap option \<Rightarrow> bool" where
  "map_values Q m \<longleftrightarrow> (\<forall>x k v. m = Some x \<longrightarrow> fmlookup x k = Some v \<longrightarrow> Q v)"

definition typed_user :: "User \<Rightarrow> bool" where
  "typed_user u \<longleftrightarrow> map_values (\<lambda>i. length i = 16) (Files u)"

definition typed_access :: "Access \<Rightarrow> bool" where
  "typed_access a \<longleftrightarrow> length (MymailboxUUID a) = 16 \<and> map_values wf_child (Children a)"

definition typed_inode :: "Inode \<Rightarrow> bool" where
  "typed_inode i \<longleftrightarrow> (\<forall>u \<in> set (BlockUUIDs i). length u = 16)"

text \<open>What a new account has besides: a name, keys and a salt of the right sizes.\<close>

definition full_account :: "gostr \<Rightarrow> User \<Rightarrow> bool" where
  "full_account n u \<longleftrightarrow> Username u = n \<and> length (EncryptionPrivateKey u) = 32 \<and>
     length (SigningPrivateKey u) = 64 \<and> length (MasterKey u) = 32 \<and> length (PasswordSalt u) = 16"

lemma deriveMasterKey_length: "digest_ok P \<Longrightarrow> length (deriveMasterKey P pw salt) = 32"
  by (simp add: deriveMasterKey_def argon2Key_def masterKeySize_def digest_ok_def)

lemma map_values_simps [simp]:
  "map_values Q None" "map_values Q (Some fmempty)"
  "map_values Q (Some m) \<Longrightarrow> Q v \<Longrightarrow> map_values Q (Some (fmupd k v m))"
  "map_values Q x \<Longrightarrow> map_values Q (map_option (fmdrop k) x)"
  by (auto simp: map_values_def split: if_splits)

lemma typed_user_zero [simp]: "typed_user user_zero" "typed_user (u\<lparr>PasswordSalt := x\<rparr>) = typed_user u"
  by (simp_all add: typed_user_def user_zero_def)

lemma field_induct:
  assumes "field n d z fs = Some y" and "Q z" and "\<And>v x x'. Q x \<Longrightarrow> d v x = Some x' \<Longrightarrow> Q x'"
  shows "Q y"
proof -
  have "Q y" if "foldl (\<lambda>acc v. Option.bind acc (d v)) (Some x) vs = Some y" and "Q x" for vs x
    using that
  proof (induction vs arbitrary: x)
    case (Cons v vs)
    show ?case
    proof (cases "d v x")
      case None
      with Cons.prems show ?thesis by (simp add: field_none)
    next
      case (Some x')
      with Cons assms(3) [OF Cons.prems(2) Some] show ?thesis by simp
    qed
  qed simp
  with assms(1,2) show ?thesis
    unfolding field_def by blast
qed

lemma those_list_member: "those_list (map f js) = Some ys \<Longrightarrow> y \<in> set ys \<Longrightarrow> \<exists>j \<in> set js. f j = Some y"
proof (induction js arbitrary: ys)
  case (Cons j js)
  then obtain x zs where x: "f j = Some x" "those_list (map f js) = Some zs" "ys = x # zs"
    by (cases "f j") auto
  with Cons show ?case by auto
qed simp

lemma dec_uuid_length:
  assumes "uuid_ok P" and "length old = 16" and "dec_uuid P j old = Some u"
  shows "length u = 16"
  using assms by (cases j) (auto simp: uuid_ok_def)

lemma dec_list_all:
  assumes "dec_list z d j old = Some xs" and "\<forall>x \<in> set old. Q x" and "\<And>j x. d j z = Some x \<Longrightarrow> Q x"
  shows "\<forall>x \<in> set xs. Q x"
proof (cases j)
  case (JArr js)
  then have "those_list (map (\<lambda>x. d x z) js) = Some xs" using assms(1) by simp
  from those_list_member [OF this] assms(3) show ?thesis by blast
qed (use assms in simp_all)

lemma dec_map_JObj:
  assumes "dec_map z d (JObj fs) old = Some m"
  shows "\<exists>ys. those_list (map (\<lambda>(k, v). map_option (\<lambda>x. (k, x)) (d v z)) fs) = Some ys \<and>
    Some (fmadd (case old of None \<Rightarrow> fmempty | Some m \<Rightarrow> m) (fmap_of_list (rev ys))) = m"
  using assms unfolding dec_map.simps by (rule map_option_eq_Some [THEN iffD1])

lemma dec_map_values:
  assumes "dec_map z d j old = Some m" and "map_values Q old" and "\<And>j x. d j z = Some x \<Longrightarrow> Q x"
  shows "map_values Q m"
proof (cases j)
  case (JObj fs)
  obtain ys where ys: "those_list (map (\<lambda>(k, v). map_option (\<lambda>x. (k, x)) (d v z)) fs) = Some ys"
      and m: "Some (fmadd (case old of None \<Rightarrow> fmempty | Some m \<Rightarrow> m) (fmap_of_list (rev ys))) = m"
    using dec_map_JObj [OF assms(1) [unfolded JObj]] by (elim exE conjE)
  have new: "Q x" if "fmlookup (fmap_of_list (rev ys)) k = Some x" for k x
  proof -
    have "(k, x) \<in> set ys"
      using that map_of_SomeD [of "rev ys" k x] by (simp add: fmlookup_of_list)
    from those_list_member [OF ys this] assms(3) show ?thesis by auto
  qed
  show ?thesis
    unfolding map_values_def m [symmetric]
  proof (intro allI impI)
    fix x k v
    assume "Some (fmadd (case old of None \<Rightarrow> fmempty | Some m \<Rightarrow> m) (fmap_of_list (rev ys))) = Some x"
      and "fmlookup x k = Some v"
    then show "Q v"
      using assms(2) new [of k] by (cases old) (auto simp: map_values_def split: if_splits)
  qed
qed (use assms in simp_all)

lemma unmarshal_Inr:
  assumes "unmarshal d b = Inr x" obtains j where "d j = Some x"
  using assms by (auto simp: unmarshal_def split: option.splits)

lemma dec_struct_Some:
  assumes "dec_struct z f j = Some x" obtains "x = z" | fs where "f fs = Some x"
  using assms by (cases j) (simp_all add: dec_struct_def)

lemma unmarshal_typed:
  assumes "uuid_ok P"
  shows "unmarshal_mailbox P b = Inr mb \<Longrightarrow> wf_mailbox mb"
    and "unmarshal_access P b = Inr a \<Longrightarrow> typed_access a"
    and "unmarshal_inode P b = Inr ino \<Longrightarrow> typed_inode ino"
    and "unmarshal_invitation P b = Inr i \<Longrightarrow> wf_invitation i"
    and "unmarshal_user P b = Inr u \<Longrightarrow> typed_user u"
proof -
  note uuid = dec_uuid_length [OF assms]
  have field: "length u = 16" if "field n (dec_uuid P) uuid_nil fs = Some u" for n fs u
    by (rule field_induct [OF that]) (auto dest: uuid)
  have child: "wf_child c" if "dec_child P j z = Some c" for j z c
    using that unfolding dec_child_def
    by (rule dec_struct_Some) (auto simp: child_zero_def wf_child_def dest: field split: option.splits)
  show "wf_mailbox mb" if "unmarshal_mailbox P b = Inr mb"
    using that unfolding unmarshal_mailbox_def dec_mailbox_def
    by (elim unmarshal_Inr dec_struct_Some) (auto simp: wf_mailbox_def dest: field split: option.splits)
  show "wf_invitation i" if "unmarshal_invitation P b = Inr i"
    using that unfolding unmarshal_invitation_def dec_invitation_def
    by (elim unmarshal_Inr dec_struct_Some) (auto simp: wf_invitation_def dest: field split: option.splits)
  have children: "map_values wf_child m" if "field n (dec_map child_zero (dec_child P)) None fs = Some m" for n fs m
    by (rule field_induct [OF that]) (simp, rule dec_map_values, assumption+, erule child)
  show "typed_access a" if "unmarshal_access P b = Inr a"
    using that unfolding unmarshal_access_def dec_access_def
    by (elim unmarshal_Inr dec_struct_Some) (auto simp: typed_access_def dest: field children split: option.splits)
  have blocks: "\<forall>u \<in> set us. length u = 16" if "field n (dec_list uuid_nil (dec_uuid P)) [] fs = Some us" for n fs us
    by (rule field_induct [OF that]) (simp, rule dec_list_all, assumption+, erule uuid [rotated], simp)
  show "typed_inode ino" if "unmarshal_inode P b = Inr ino"
    using that unfolding unmarshal_inode_def dec_inode_def
    by (elim unmarshal_Inr dec_struct_Some) (auto simp: typed_inode_def dest: blocks split: option.splits)
  have files: "map_values (\<lambda>i. length i = 16) m" if "field n (dec_map uuid_nil (dec_uuid P)) None fs = Some m" for n fs m
    by (rule field_induct [OF that]) (simp, rule dec_map_values, assumption+, erule uuid [rotated], simp)
  show "typed_user u" if "unmarshal_user P b = Inr u"
    using that unfolding unmarshal_user_def dec_user_def
    by (elim unmarshal_Inr dec_struct_Some) (auto simp: typed_user_def user_zero_def dest: files split: option.splits)
qed

section \<open>What may be stored\<close>

text \<open>
  A payload is the output of \<open>encryptAndMAC\<close>; an account is one behind the salt of the password; an
  invitation is a signed output of \<open>encryptFor\<close>.
\<close>

definition payload_value :: "provider \<Rightarrow> bytes \<Rightarrow> bool" where
  "payload_value P v \<longleftrightarrow> (\<exists>t b keys. full_keys keys \<and> v = sealed P t b keys)"

definition account_value :: "provider \<Rightarrow> bytes \<Rightarrow> bool" where
  "account_value P v \<longleftrightarrow> 16 \<le> length v \<and> payload_value P (drop 16 v)"

definition sealed_for :: "provider \<Rightarrow> bytes \<Rightarrow> bool" where
  "sealed_for P c \<longleftrightarrow> (\<exists>k n key b. length n = 12 \<and> length key = 32 \<and>
     c = x25519_public P k @ n @ gcm_seal P key n b (x25519_public P k))"

definition invitation_value :: "provider \<Rightarrow> bytes \<Rightarrow> bool" where
  "invitation_value P v \<longleftrightarrow>
     (\<exists>c k. sealed_for P c \<and> length k = 64 \<and> v = c @ ed25519_sign P k c)"

definition stored_value :: "provider \<Rightarrow> uuid \<Rightarrow> bytes \<Rightarrow> bool" where
  "stored_value P i v \<longleftrightarrow> length i = 16 \<and>
     (payload_value P v \<or> (\<exists>n. i = user_id P n) \<and> account_value P v \<or>
      (\<exists>t. i = uuid_new P t) \<and> invitation_value P v)"

definition public_key :: "provider \<Rightarrow> bytes \<Rightarrow> bool" where
  "public_key P v \<longleftrightarrow> (\<exists>k. length k = 32 \<and> v = x25519_public P k) \<or> (\<exists>t k. ed25519_genkey P t = Some (v, k))"

lemma sealed_forI: "length n = 12 \<Longrightarrow> length key = 32 \<Longrightarrow>
    sealed_for P (x25519_public P k @ n @ gcm_seal P key n b (x25519_public P k))"
  by (auto simp: sealed_for_def)

lemma public_keyI:
  "length k = 32 \<Longrightarrow> public_key P (x25519_public P k)"
  "ed25519_genkey P t = Some (v, k) \<Longrightarrow> public_key P v"
  by (auto simp: public_key_def)

lemma payload_value_shape:
  assumes "provider_ok P" and "payload_value P v"
  shows "29 \<le> length v" and "hd v = 1"
  using assms length_sealed [OF provider_parts(1,3,4) [OF assms(1)]]
  by (auto simp: payload_value_def sealed_def)

lemma invitation_value_length:
  assumes "provider_ok P" and "invitation_value P v"
  shows "124 \<le> length v"
  using assms(2) provider_parts [OF assms(1)]
  by (auto simp: invitation_value_def sealed_for_def gcm_ok_def dh_ok_def sig_ok_def)

lemma stored_value_length:
  assumes "provider_ok P" and "stored_value P i v"
  shows "length i = 16" and "29 \<le> length v"
  using assms payload_value_shape(1) [OF assms(1)] invitation_value_length [OF assms(1)]
  by (fastforce simp: stored_value_def account_value_def)+

lemma public_key_length: "provider_ok P \<Longrightarrow> public_key P v \<Longrightarrow> length v = 32"
  using provider_parts [of P] by (auto simp: public_key_def dh_ok_def rng_ok_def) (metis option.sel prod.sel(1))

lemma stored_payload: "length i = 16 \<Longrightarrow> payload_value P v \<Longrightarrow> stored_value P i v"
  by (simp add: stored_value_def)

section \<open>Services that store such values only\<close>

text \<open>The state of a method: a storage with its invariant, and a user whose UUIDs have 16 bytes.\<close>

definition typed_state :: "('w \<Rightarrow> bool) \<Rightarrow> 'w st \<Rightarrow> bool" where
  "typed_state I s \<longleftrightarrow> I (backing s) \<and> typed_user (userdata s)"

text \<open>
  A method on a user who is logged in keeps this state, and the user's name, keys and salt are what they
  were, whatever they are (\<open>keeps_identity\<close>, \<open>App\<close>); so their sizes are, too.
\<close>

definition typed_method :: "('w \<Rightarrow> bool) \<Rightarrow> ('w st, 'a) prog \<Rightarrow> ('a \<Rightarrow> bool) \<Rightarrow> bool" where
  "typed_method I m T \<longleftrightarrow> keeps (typed_state I) m T \<and> keeps_identity m"

locale sealing_service =
  fixes P :: provider and V :: "'w Service" and I :: "'w \<Rightarrow> bool"
  assumes keeps_get: "keeps I (storage_Get (storage V) k) (\<lambda>_. True)"
    and keeps_set: "stored_value P k v \<Longrightarrow> keeps I (storage_Set (storage V) k v) (\<lambda>_. True)"
    and keeps_key_get: "keeps I (keyStore_Get (keyStore V) n) (\<lambda>_. True)"
    and keeps_key_set: "public_key P v \<Longrightarrow> keeps I (keyStore_Set (keyStore V) n v) (\<lambda>_. True)"
begin

abbreviation J :: "'w st \<Rightarrow> bool" where
  "J \<equiv> typed_state I"

lemma J_tick [simp]: "J (s\<lparr>tick := t\<rparr>) = J s"
  by (simp add: typed_state_def)

lemma J_user: "J s \<Longrightarrow> typed_user u \<Longrightarrow> J (s\<lparr>userdata := u\<rparr>)"
  by (simp add: typed_state_def)

lemma keeps_backing: "keeps I m T \<Longrightarrow> keeps J (on_backing m) T"
  by (fastforce simp: keeps_def typed_state_def on_backing_def split: prod.splits)

lemmas keeps_calls [keeps_intros] =
  keeps_backing [OF keeps_get] keeps_backing [OF keeps_set] keeps_backing [OF keeps_key_get] keeps_backing [OF keeps_key_set]

lemma keeps_userdata [keeps_intros]: "keeps J (gets userdata) typed_user"
  by (rule keeps_gets) (simp add: typed_state_def)

lemma keeps_draw [keeps_intros]: "keeps J (draw f) (\<lambda>x. \<exists>t. x = f t)"
  by (auto simp: keeps_def draw_def)

lemma keeps_uuidNew [keeps_intros]: "keeps J (uuidNew P) (\<lambda>i. \<exists>t. i = uuid_new P t)"
  unfolding uuidNew_def by (rule keeps_draw)

end

text \<open>With a provider that works, the methods write nothing else.\<close>

locale sealing_client = sealing_service +
  assumes provider: "provider_ok P"
begin

lemmas ok = provider_parts [OF provider]

lemma keeps_randomBytes [keeps_intros]: "keeps J (randomBytes P n) (\<lambda>b. \<exists>t. b = rnd P n t)"
  by (auto simp: keeps_def run_randomBytes [OF ok(1)])

lemma keeps_encryptAndMAC [keeps_intros]: "keeps J (encryptAndMAC P b keys) (payload_value P)"
proof (cases "full_keys keys")
  case True
  then show ?thesis
    unfolding keeps_def payload_value_def run_encryptAndMAC [OF ok(1,3) True] by (metis J_tick Pair_inject sum.inject(2))
next
  case False
  then show ?thesis
    by (auto simp: keeps_def encryptAndMAC_def run_bind run_guard full_keys_def split: prod.splits)
qed

lemma keeps_wrapO [keeps_intros]: "keeps J m T \<Longrightarrow> keeps J (wrapO c m) T"
  by (cases c) (simp_all add: wrapO_def keeps_wrap)

lemma keeps_encryptFor [keeps_intros]: "keeps J (encryptFor P pk m) (sealed_for P)"
proof -
  have "length k = 32" if "Some k = x25519_genkey P t" for t k
    using ok(1) that unfolding rng_ok_def by (metis option.sel)
  moreover have "length (rnd P gcm_nonce_size t) = 12" for t
    by (simp add: rnd_length [OF ok(1)] gcm_nonce_size_def)
  moreover have "length (invitation_key P s e) = 32" for s e
    by (simp add: invitation_key_def deriveKey_length [OF ok(3)])
  ultimately show ?thesis
    unfolding encryptFor_def Let_def
    by - (rule keeps_intros | (auto simp: aes_NewCipher_def intro!: sealed_forI split: if_splits; fail))+
qed

lemma keeps_keypairs [keeps_intros]:
  "keeps J (generateEncryptionKeyPair P) (\<lambda>p. public_key P (fst p) \<and> length (snd p) = 32)"
  "keeps J (generateSigningKeyPair P) (\<lambda>p. public_key P (fst p) \<and> length (snd p) = 64)"
proof -
  have "length k = 32" if "Some k = x25519_genkey P t" for t k
    using ok(1) that unfolding rng_ok_def by (metis option.sel)
  then show "keeps J (generateEncryptionKeyPair P) (\<lambda>p. public_key P (fst p) \<and> length (snd p) = 32)"
    unfolding generateEncryptionKeyPair_def
    by - (rule keeps_intros | (auto intro: public_keyI(1); fail))+
  have signing: "public_key P (fst p) \<and> length (snd p) = 64" if "Some p = ed25519_genkey P t" for p t
    using ok(1) that public_keyI(2) [of P t "fst p" "snd p"] unfolding rng_ok_def
    by (metis option.inject prod.collapse snd_conv)
  show "keeps J (generateSigningKeyPair P) (\<lambda>p. public_key P (fst p) \<and> length (snd p) = 64)"
    unfolding generateSigningKeyPair_def
  proof (rule keeps_bind [OF keeps_draw])
    fix r
    assume "\<exists>t. r = ed25519_genkey P t"
    then show "keeps J (wrapE ''generate Ed25519 key pair'' (someE rand_error r)) (\<lambda>p. public_key P (fst p) \<and> length (snd p) = 64)"
      by (intro keeps_wrap keeps_weaken [OF keeps_some]) (metis signing)
  qed
qed

lemma ids: "userID P n = Inr i \<Longrightarrow> length i = 16 \<and> (\<exists>n. i = user_id P n)" "accessID P n f = Inr j \<Longrightarrow> length j = 16"
  using run_userID [OF ok(3,7)] run_accessID [OF ok(3,7)] by auto

lemma new_uuid_length: "length (uuid_new P t) = 16"
  using ok(7) by (simp add: uuid_ok_def)

lemma keeps_saveUser [keeps_intros]: "keeps J (saveUser P (storage V) u) (\<lambda>_. True)"
  unfolding saveUser_def Let_def
  by (rule keeps_intros | (auto simp: stored_value_def account_value_def passwordSaltSize_def dest: ids; fail))+

section \<open>The steps of the methods\<close>

lemma keeps_open_record [keeps_intros]:
  "keeps J (open_record P (storage V) c1 e c2 c3 i keys unm) (\<lambda>x. \<exists>b. unm b = Inr x)"
  unfolding open_record_def
  by (rule keeps_intros keeps_weaken [OF keeps_lift] | (blast; fail))+

lemma keeps_seal_record [keeps_intros]:
  "length i = 16 \<Longrightarrow> keeps J (seal_record P (storage V) c1 c2 i keys b) (\<lambda>_. True)"
  unfolding seal_record_def
  by (rule keeps_intros stored_payload | assumption)+

lemma keeps_store_blocks [keeps_intros]:
  "keeps J (store_blocks P (storage V) c1 c2 keys fbs) (\<lambda>us. \<forall>u \<in> set us. length u = 16)"
proof (induction fbs)
  case (Cons fb fbs)
  show ?case
    unfolding store_blocks.simps by (rule keeps_intros Cons | (auto simp: new_uuid_length; fail))+
qed (unfold store_blocks.simps, rule keeps_ret, simp)

lemma keeps_load_blocks [keeps_intros]: "keeps J (load_blocks P (storage V) f keys us) (\<lambda>_. True)"
proof (induction us)
  case (Cons u us)
  show ?case
    unfolding load_blocks.simps by (rule keeps_intros Cons | (simp; fail))+
qed (unfold load_blocks.simps, rule keeps_ret, simp)

lemma keeps_set_file [keeps_intros]: "length i = 16 \<Longrightarrow> keeps J (set_file f i) (\<lambda>_. True)"
  by (auto simp: keeps_def set_file_def typed_state_def typed_user_def split: option.splits)

lemma keeps_make_files [keeps_intros]: "keeps J make_files (\<lambda>_. True)"
  unfolding make_files_def
  by (rule keeps_modify) (auto simp: typed_state_def typed_user_def split: option.splits)

lemma keeps_rekey_blocks [keeps_intros]:
  "\<forall>u \<in> set us. length u = 16 \<Longrightarrow> keeps J (rekey_blocks P (storage V) f old new us) (\<lambda>_. True)"
proof (induction us)
  case (Cons u us)
  then show ?case
    unfolding rekey_blocks.simps by - (rule keeps_intros Cons | (simp; fail))+
qed (unfold rekey_blocks.simps, rule keeps_ret, simp)

lemma keeps_rekey_children [keeps_intros]:
  "\<forall>(n, c) \<in> set cs. wf_child c \<Longrightarrow> keeps J (rekey_children P (storage V) r k cs) (\<lambda>_. True)"
proof (induction cs)
  case (Cons nc cs)
  obtain n c where nc: "nc = (n, c)" by fastforce
  with Cons have "length (ci_MailboxUUID c) = 16" "keeps J (rekey_children P (storage V) r k cs) (\<lambda>_. True)"
    by (simp_all add: wf_child_def)
  then show ?case
    unfolding nc rekey_children.simps Let_def by - (rule keeps_intros | assumption)+
qed (unfold rekey_children.simps, rule keeps_ret, simp)

lemmas typed = unmarshal_typed [OF ok(7)]

section \<open>The methods\<close>

lemma keeps_new_account: "keeps J (InitUser P V n pw) (\<lambda>u. typed_user u \<and> full_account n u)"
  unfolding InitUser_def Let_def
  by (rule keeps_intros | (auto simp: typed_user_def full_account_def rnd_length [OF ok(1)] passwordSaltSize_def
      deriveMasterKey_length [OF ok(3)]; fail))+

lemma keeps_login: "keeps J (GetUser P V n pw) (\<lambda>u. typed_user u \<and> Username u = n \<and> length (PasswordSalt u) = 16)"
  unfolding GetUser_def Let_def
  by (rule keeps_intros | (auto simp: passwordSaltSize_def dest: typed; fail))+

lemma keeps_InitUser [keeps_intros]: "keeps J (InitUser P V n pw) typed_user"
  by (rule keeps_weaken [OF keeps_new_account]) simp

lemma keeps_GetUser [keeps_intros]: "keeps J (GetUser P V n pw) typed_user"
  by (rule keeps_weaken [OF keeps_login]) simp

lemma keeps_StoreFile [keeps_intros]: "keeps J (StoreFile P V f b) (\<lambda>_. True)"
  unfolding StoreFile_def Let_def
  by (rule keeps_intros stored_payload | (auto simp: new_uuid_length dest: ids; fail))+

lemma keeps_LoadFile [keeps_intros]: "keeps J (LoadFile P V f) (\<lambda>_. True)"
  unfolding LoadFile_def by (rule keeps_intros)+

lemma keeps_AppendToFile [keeps_intros]: "keeps J (AppendToFile P V f b) (\<lambda>_. True)"
  unfolding AppendToFile_def Let_def
  by (rule keeps_intros | (auto simp: wf_mailbox_def dest: typed; fail))+

lemma keeps_ListFiles [keeps_intros]: "keeps J (ListFiles P) (\<lambda>_. True)"
  unfolding ListFiles_def by (rule keeps_intros keeps_any [OF keeps_draw] | simp)+

lemma keeps_CreateInvitation [keeps_intros]: "keeps J (CreateInvitation P V f n) (\<lambda>i. length i = 16)"
  unfolding CreateInvitation_def Let_def
  by (rule keeps_intros | (auto simp: new_uuid_length stored_value_def invitation_value_def sign_def
      ed25519_PrivateKeySize_def dest: ids split: if_splits; fail))+

lemma keeps_AcceptInvitation [keeps_intros]: "keeps J (AcceptInvitation P V n i f) (\<lambda>_. True)"
  unfolding AcceptInvitation_def Let_def
  by (rule keeps_intros stored_payload | (auto dest: ids; fail))+

lemma child_entries_typed:
  assumes "typed_access a" and "set ks = fset (fmdom (children_of a))"
  shows "\<forall>(n, c) \<in> set (child_entries (children_of a) ks). wf_child c"
  using assms by (fastforce simp: child_entries_def typed_access_def map_values_def children_of_def fmlookup_dom_iff split: option.splits)

lemma keeps_RevokeAccess [keeps_intros]: "keeps J (RevokeAccess P V f n) (\<lambda>_. True)"
proof -
  have order: "set (map_order P t (sorted_list_of_fset X)) = fset X" for t X
    using ok(2) by (simp add: order_ok_def sorted_list_of_fset.rep_eq)
  have entries: "\<forall>(n, c) \<in> set (child_entries (children_of a) ks). wf_child c"
    if "\<exists>b. unmarshal_access P b = Inr a" "\<exists>t. ks = map_order P t (sorted_list_of_fset (fmdom (children_of a)))" for a ks
    using that order by (intro child_entries_typed) (auto dest: typed)
  show ?thesis
    unfolding RevokeAccess_def commit_revocation_def Let_def
    by (rule keeps_intros entries | assumption | (auto simp: new_uuid_length wf_mailbox_def typed_inode_def dest: ids typed; fail))+
qed

end


section \<open>The storages of the program\<close>

definition sealed_memory :: "provider \<Rightarrow> mworld \<Rightarrow> bool" where
  "sealed_memory P w \<longleftrightarrow> (\<forall>i v. store_data w i = Some v \<longrightarrow> stored_value P i v) \<and>
     (\<forall>n v. store_keys w n = Some v \<longrightarrow> public_key P v)"

interpretation mem_sealing: sealing_service P memory_service "sealed_memory P" for P
  by unfold_locales (auto simp: keeps_def memory_defs sealed_memory_def)

lemma memory_sealing: "provider_ok P \<Longrightarrow> sealing_client P memory_service (sealed_memory P)"
  by unfold_locales

text \<open>A table with names, on the server or in the process: data under data names, keys under key names.\<close>

definition sealed_table :: "provider \<Rightarrow> (bytes \<rightharpoonup> bytes) \<Rightarrow> bool" where
  "sealed_table P m \<longleftrightarrow> (\<forall>k v. m k = Some v \<longrightarrow>
     (\<exists>i. k = data_name i \<and> stored_value P i v) \<or> (\<exists>n. k = key_name n \<and> public_key P v))"

definition sealed_world :: "provider \<Rightarrow> ('d \<Rightarrow> bytes \<rightharpoonup> bytes) \<Rightarrow> 'd rworld \<Rightarrow> bool" where
  "sealed_world P contents w \<longleftrightarrow> sealed_table P (contents (server_db w)) \<and> sealed_table P (local_map w)"

lemma sealed_table_simps [simp]:
  "sealed_table P Map.empty"
  "sealed_table P m \<Longrightarrow> stored_value P i v \<Longrightarrow> sealed_table P (m(data_name i \<mapsto> v))"
  "sealed_table P m \<Longrightarrow> public_key P v \<Longrightarrow> sealed_table P (m(key_name n \<mapsto> v))"
  by (auto simp: sealed_table_def split: if_splits)

text \<open>Offline the local table changes, online the server's; a call that fails may have changed it.\<close>

lemma sealed_Get:
  assumes "badger_ok B contents"
  shows "keeps (sealed_world P contents) (remote_Get B N k) (\<lambda>_. True)"
proof (rule keepsI)
  fix w r w'
  assume w: "sealed_world P contents w" and run: "remote_Get B N k w = (r, w')"
  show "sealed_world P contents w' \<and> (\<forall>x. r = Inr x \<longrightarrow> True)"
  proof (cases "address w = []")
    case True
    with run w show ?thesis by (auto simp: run_local)
  next
    case False
    have "snd (execute B (RGet k) (server_db w)) = server_db w" by (simp split: sum.split)
    with over_network_once [OF run [unfolded remote_over_network] False]
      over_network_local [OF run [unfolded remote_over_network] False] w
    show ?thesis by (auto simp: sealed_world_def)
  qed
qed

lemma sealed_Set:
  assumes "badger_ok B contents" and "\<And>m. sealed_table P m \<Longrightarrow> sealed_table P (m(k \<mapsto> v))"
  shows "keeps (sealed_world P contents) (remote_Set B N k v) (\<lambda>_. True)"
proof (rule keepsI)
  fix w r w'
  assume w: "sealed_world P contents w" and run: "remote_Set B N k v w = (r, w')"
  show "sealed_world P contents w' \<and> (\<forall>x. r = Inr x \<longrightarrow> True)"
  proof (cases "address w = []")
    case True
    with run w assms(2) show ?thesis by (auto simp: run_local sealed_world_def)
  next
    case False
    have "contents (server_db w') = contents (server_db w) \<or>
        contents (server_db w') = (contents (server_db w))(k \<mapsto> v)"
      using over_network_once [OF run [unfolded remote_over_network] False]
        execute_set_contents [OF assms(1), of k v "server_db w"] by auto
    with over_network_local [OF run [unfolded remote_over_network] False] w assms(2) show ?thesis
      by (auto simp: sealed_world_def)
  qed
qed

lemma remote_sealing:
  assumes "provider_ok P" and "badger_ok B contents"
  shows "sealing_client P (remote_service B N) (sealed_world P contents)"
  by unfold_locales
    (simp_all add: remote_service_def RemoteStorage_def RemoteKeyStore_def assms(1)
      sealed_Get [OF assms(2)] sealed_Set [OF assms(2)])

section \<open>Properties\<close>

text \<open>C20. The services keep the types of what they work on, whether a call succeeds or fails, offline and over
  every network. A new account has the name asked for, keys of 32, 64 and 32 bytes and a salt of 16; an
  account that is opened has the name asked for, a salt of 16 bytes, and UUIDs of 16 bytes in its file
  table. Every other method leaves the user's name, keys and salt alone and the UUIDs in the file table
  at 16 bytes; all of them store nothing but sealed values under UUIDs of 16 bytes and register
  nothing but public keys. The identifier of an invitation has 16 bytes.\<close>

theorem services_keep_types:
  assumes "provider_ok P" and "badger_ok B contents"
  shows "keeps (typed_state (sealed_world P contents)) (InitUser P (remote_service B N) n pw)
      (\<lambda>u. typed_user u \<and> full_account n u) \<and>
    keeps (typed_state (sealed_world P contents)) (GetUser P (remote_service B N) n pw)
      (\<lambda>u. typed_user u \<and> Username u = n \<and> length (PasswordSalt u) = 16) \<and>
    typed_method (sealed_world P contents) (StoreFile P (remote_service B N) f b) (\<lambda>_. True) \<and>
    typed_method (sealed_world P contents) (LoadFile P (remote_service B N) f) (\<lambda>_. True) \<and>
    typed_method (sealed_world P contents) (AppendToFile P (remote_service B N) f x) (\<lambda>_. True) \<and>
    typed_method (sealed_world P contents) (ListFiles P) (\<lambda>_. True) \<and>
    typed_method (sealed_world P contents) (CreateInvitation P (remote_service B N) f n) (\<lambda>i. length i = 16) \<and>
    typed_method (sealed_world P contents) (AcceptInvitation P (remote_service B N) n i f) (\<lambda>_. True) \<and>
    typed_method (sealed_world P contents) (RevokeAccess P (remote_service B N) f n) (\<lambda>_. True)"
proof -
  note service = remote_sealing [OF assms]
  show ?thesis
    unfolding typed_method_def
    by (intro conjI identity_methods sealing_client.keeps_new_account [OF service] sealing_client.keeps_login [OF service]
        sealing_client.keeps_StoreFile [OF service] sealing_client.keeps_LoadFile [OF service]
        sealing_client.keeps_AppendToFile [OF service] sealing_client.keeps_ListFiles [OF service]
        sealing_client.keeps_CreateInvitation [OF service]
        sealing_client.keeps_AcceptInvitation [OF service] sealing_client.keeps_RevokeAccess [OF service])
qed

text \<open>Alice makes an account and stores a file, in a process without a server.\<close>

theorem services_keep_types_witness:
  "\<exists>u s1 s2. InitUser P0 (remote_service map_badger N0) alice (lit ''pw'')
      \<lparr>backing = idle_world, tick = 0, userdata = user_zero\<rparr> = (Inr u, s1) \<and>
    StoreFile P0 (remote_service map_badger N0) file_f sample (s1\<lparr>userdata := u\<rparr>) = (Inr (), s2) \<and>
    length (EncryptionPrivateKey (userdata s2)) = 32 \<and> typed_user (userdata s2) \<and>
    sealed_table P0 (local_map (backing s2))"
proof -
  let ?V = "remote_service map_badger N0" and ?W = "sealed_world P0 (\<lambda>d. d)"
  let ?s = "\<lparr>backing = idle_world, tick = 0, userdata = user_zero\<rparr>"
  let ?m = "\<lparr>backing = new_memory, tick = 0, userdata = user_zero\<rparr>"
  have fresh: "fresh_uuids P0 (tick ?m + 4) (8 + 2 * length (ByteToBlock sample)) {access_id P0 alice file_f, user_id P0 alice}"
    by (rule P0_fresh) (auto simp: sample_blocks)
  have len: "int (length sample) < 2 ^ 63" by (simp add: sample_def)
  have ids: "access_id P0 alice file_f \<noteq> user_id P0 alice"
    using apart_by_hd [of "access_id P0 alice file_f" "user_id P0 alice"] by simp
  obtain u m1 m2 where m: "InitUser P0 memory_service alice (lit ''pw'') ?m = (Inr u, m1)"
      "StoreFile P0 memory_service file_f sample (m1\<lparr>userdata := u\<rparr>) = (Inr (), m2)"
    by (rule store_then_login [OF P0_ok _ _ _ len fresh _ _ ids, where pw = "lit ''pw''"]) (auto simp: new_memory_def)
  note offline = offline_methods [folded same_offline_def remote_service_def]
  have same: "same_offline ?s ?m"
    by (simp add: same_offline_def as_memory_def idle_world_def new_memory_def)
  obtain s1 where s1: "InitUser P0 ?V alice (lit ''pw'') ?s = (Inr u, s1)" "same_offline s1 m1"
    using refinesD [OF offline(1) same m(1)] by blast
  have same1: "same_offline (s1\<lparr>userdata := u\<rparr>) (m1\<lparr>userdata := u\<rparr>)"
    using s1(2) by (simp add: same_offline_def as_memory_def)
  obtain s2 where s2: "StoreFile P0 ?V file_f sample (s1\<lparr>userdata := u\<rparr>) = (Inr (), s2)"
    using refinesD [OF offline(3) same1 m(2)] by blast
  have start: "typed_state ?W ?s"
    by (simp add: typed_state_def sealed_world_def idle_world_def)
  note keep = services_keep_types [OF P0_ok map_badger_ok]
  have u: "typed_state ?W s1" "typed_user u" "full_account alice u"
    using keepsD [OF conjunct1 [OF keep] start s1(1)] by simp_all
  have "typed_method ?W (StoreFile P0 ?V file_f sample) (\<lambda>_. True)" using keep by blast
  then have store: "keeps (typed_state ?W) (StoreFile P0 ?V file_f sample) (\<lambda>_. True)"
      "keeps_identity (StoreFile P0 ?V file_f sample)"
    by (simp_all add: typed_method_def)
  have "typed_state ?W (s1\<lparr>userdata := u\<rparr>)" using u(1,2) by (simp add: typed_state_def)
  from keepsD [OF store(1) this s2] have "typed_state ?W s2" by simp
  moreover from keeps_identityD [OF store(2) s2] have "identity_of (userdata s2) = identity_of u" by simp
  then have "EncryptionPrivateKey (userdata s2) = EncryptionPrivateKey u"
    unfolding identity_of_def by (cases "userdata s2"; cases u) simp
  ultimately show ?thesis
    using s1(1) s2 u(3) by (auto simp: typed_state_def sealed_world_def full_account_def)
qed

end
