(* ===== verification/Opaque.thy ===== *)
theory Opaque
  imports EndToEnd Typing
begin

text \<open>
  What the server of \<open>sharelock\<close> commands gets to see: the invariant of \<open>Typing\<close> carried through the
  client object and through every command of \<open>cmd/sharelock\<close>.
\<close>

section \<open>The client object\<close>

definition client_sealed :: "provider \<Rightarrow> ('d \<Rightarrow> bytes \<rightharpoonup> bytes) \<Rightarrow> 'd client \<Rightarrow> bool" where
  "client_sealed P contents c \<longleftrightarrow>
     sealed_world P contents (cl_world c) \<and> (\<forall>u. cl_user c = Some u \<longrightarrow> typed_user u)"

lemma in_service_sealed:
  assumes "keeps (typed_state (sealed_world P contents)) m T" and "in_service u m c = (r, u', c')"
    and "client_sealed P contents c" and "typed_user u"
  shows "client_sealed P contents c' \<and> typed_user u' \<and> (\<forall>x. r = Inr x \<longrightarrow> T x)"
proof -
  let ?s = "\<lparr>backing = cl_world c, tick = cl_tick c, userdata = u\<rparr>"
  obtain q s' where m: "m ?s = (q, s')" by fastforce
  have "typed_state (sealed_world P contents) ?s"
    using assms(3,4) by (simp add: typed_state_def client_sealed_def)
  from keepsD [OF assms(1) this m] m assms(2,3) show ?thesis
    by (auto simp: in_service_def typed_state_def client_sealed_def)
qed

lemma with_user_sealed:
  assumes "keeps (typed_state (sealed_world P contents)) m T"
  shows "keeps (client_sealed P contents) (with_user m) T"
proof (rule keepsI)
  fix c r c'
  assume c: "client_sealed P contents c" and run: "with_user m c = (r, c')"
  show "client_sealed P contents c' \<and> (\<forall>x. r = Inr x \<longrightarrow> T x)"
  proof (cases "cl_user c")
    case None
    with c run show ?thesis by (auto simp: with_user_def)
  next
    case (Some u)
    obtain q u' c1 where i: "in_service u m c = (q, u', c1)" by (metis prod_cases3)
    with Some run have "r = q" "c' = c1\<lparr>cl_user := Some u'\<rparr>" by (auto simp: with_user_def)
    with in_service_sealed [OF assms i c] c Some show ?thesis
      by (auto simp: client_sealed_def)
  qed
qed

lemma login_sealed:
  assumes "keeps (typed_state (sealed_world P contents)) m typed_user"
  shows "keeps (client_sealed P contents) (bindE ensureServices (\<lambda>_ c. case in_service user_zero m c of
     (Inl e, _, c') \<Rightarrow> (Inl e, c') | (Inr user, _, c') \<Rightarrow> (Inr (), c'\<lparr>cl_user := Some user\<rparr>))) (\<lambda>_. True)"
proof (rule keepsI)
  fix c r c'
  assume c: "client_sealed P contents c" and run: "bindE ensureServices (\<lambda>_ c. case in_service user_zero m c of
     (Inl e, _, c') \<Rightarrow> (Inl e, c') | (Inr user, _, c') \<Rightarrow> (Inr (), c'\<lparr>cl_user := Some user\<rparr>)) c = (r, c')"
  obtain q u' c1 where i: "in_service user_zero m (c\<lparr>cl_ready := True\<rparr>) = (q, u', c1)" by (metis prod_cases3)
  have "client_sealed P contents (c\<lparr>cl_ready := True\<rparr>)" using c by (simp add: client_sealed_def)
  note this = in_service_sealed [OF assms i this]
  with run i show "client_sealed P contents c' \<and> (\<forall>x. r = Inr x \<longrightarrow> True)"
    by (auto simp: run_bind ensureServices_def client_sealed_def split: sum.splits)
qed

text \<open>The methods of the client, with a working provider and database and any network.\<close>

locale sealing_commands =
  fixes P :: provider and B :: "'d badger" and N :: network and contents :: "'d \<Rightarrow> bytes \<rightharpoonup> bytes"
  assumes provider: "provider_ok P" and database: "badger_ok B contents"
begin

abbreviation C :: "'d client \<Rightarrow> bool" where
  "C \<equiv> client_sealed P contents"

lemma service: "sealing_client P (remote_service B N) (sealed_world P contents)"
  by (rule remote_sealing [OF provider database])

lemma keeps_login [keeps_intros]:
  "keeps C (app_InitUser P B N n pw) (\<lambda>_. True)" "keeps C (app_GetUser P B N n pw) (\<lambda>_. True)"
  unfolding app_InitUser_def app_GetUser_def
  by (rule login_sealed, rule sealing_client.keeps_InitUser [OF service])
    (rule login_sealed, rule sealing_client.keeps_GetUser [OF service])

lemma keeps_file_calls [keeps_intros]:
  "keeps C (app_StoreFile P B N f b) (\<lambda>_. True)" "keeps C (app_LoadFile P B N f) (\<lambda>_. True)"
  "keeps C (app_CreateInvitation P B N f n) (\<lambda>i. length i = 16)" "keeps C (app_RevokeAccess P B N f n) (\<lambda>_. True)"
  unfolding app_StoreFile_def app_LoadFile_def app_CreateInvitation_def app_RevokeAccess_def
  by (rule with_user_sealed, rule sealing_client.keeps_StoreFile [OF service])
    (rule with_user_sealed, rule sealing_client.keeps_LoadFile [OF service],
     rule with_user_sealed, rule sealing_client.keeps_CreateInvitation [OF service],
     rule with_user_sealed, rule sealing_client.keeps_RevokeAccess [OF service])

lemma keeps_append_call [keeps_intros]: "keeps C (app_AppendToFile P B N f b) (\<lambda>_. True)"
  unfolding app_AppendToFile_def
  by (rule keeps_intros with_user_sealed sealing_client.keeps_AppendToFile [OF service])+

lemma keeps_list_call [keeps_intros]: "keeps C (app_ListFiles P) (\<lambda>_. True)"
proof (rule keepsI)
  fix c r c'
  assume c: "C c" and run: "app_ListFiles P c = (r, c')"
  note list = with_user_sealed [OF sealing_client.keeps_ListFiles [OF service]]
  from c run keepsD [OF list c] show "C c' \<and> (\<forall>x. r = Inr x \<longrightarrow> True)"
    by (auto simp: app_ListFiles_def split: option.splits)
qed

lemma keeps_check: "keeps (typed_state (sealed_world P contents)) (check_invitation P (remote_service B N) n i) (\<lambda>_. True)"
  unfolding check_invitation_def Let_def
  by (rule keeps_bind keeps_wrap keeps_some keeps_guard keeps_ret TrueI
      sealing_service.keeps_calls [OF sealing_client.axioms(1) [OF service]])+

lemma keeps_accept_call [keeps_intros]: "keeps C (app_AcceptInvitation P B N n i f) (\<lambda>_. True)"
proof (rule keepsI)
  fix c r c'
  assume c: "C c" and run: "app_AcceptInvitation P B N n i f c = (r, c')"
  note accept = with_user_sealed [OF sealing_client.keeps_AcceptInvitation [OF service]]
  show "C c' \<and> (\<forall>x. r = Inr x \<longrightarrow> True)"
  proof (cases "cl_user c")
    case (Some u)
    with keepsD [OF accept c] run show ?thesis by (simp add: app_AcceptInvitation_def)
  next
    case None
    obtain q u' c1 where s: "in_service user_zero (check_invitation P (remote_service B N) n i) c = (q, u', c1)"
      by (metis prod_cases3)
    from in_service_sealed [OF keeps_check s c] have "C c1" by simp
    with None run s c show ?thesis by (auto simp: app_AcceptInvitation_def split: if_splits sum.splits)
  qed
qed

lemma keeps_connection [keeps_intros]:
  "keeps C (app_Connect addr tls) (\<lambda>_. True)" "keeps C app_Disconnect (\<lambda>_. True)"
  by (auto simp: keeps_def app_Connect_def app_Disconnect_def Connect_def Disconnect_def client_sealed_def sealed_world_def)

section \<open>The commands\<close>

text \<open>The process a command runs in; the rest of it does not touch the client.\<close>

definition K :: "'d process \<Rightarrow> bool" where
  "K p \<longleftrightarrow> C (p_client p)"

lemma keeps_on_client [keeps_intros]: "keeps C m T \<Longrightarrow> keeps K (on_client m) T"
  by (fastforce simp: keeps_def K_def on_client_def split: prod.splits)

lemma keeps_on_os [keeps_intros]: "keeps K (on_os m) (\<lambda>_. True)"
  by (auto simp: keeps_def K_def on_os_def split: prod.splits)

lemma keeps_output [keeps_intros]: "keeps K (Print b) (\<lambda>_. True)" "keeps K (Println b) (\<lambda>_. True)"
  by (auto simp: keeps_def K_def run_on)

lemma keeps_complaints [keeps_intros]:
  "keeps K (Complain d) (\<lambda>_. True)" "keeps K (Eprint b) (\<lambda>_. True)" "keeps K (die d') T"
  "keeps K hostUsage (\<lambda>_. True)" "keeps K (printUsage c) (\<lambda>_. True)" "keeps K (required q msg u) (\<lambda>_. True)"
  by (auto simp: keeps_def K_def run_complaints run_required split: if_splits)

lemma keeps_flags [keeps_intros]: "keeps K (parse_flags_or_exit u fs args) (\<lambda>_. True)"
  unfolding parse_flags_or_exit_def
  by (auto simp: keeps_def K_def run_bind run_complaints run_guard split: parse_result.splits)

lemma keeps_exit_on_error [keeps_intros]:
  assumes "keeps K m T"
  shows "keeps K (exit_on_error c m) T"
proof (rule keepsI)
  fix p r p'
  assume p: "K p" and run: "exit_on_error c m p = (r, p')"
  obtain q p1 where m: "m p = (q, p1)" by fastforce
  from keepsD [OF assms p m] m run show "K p' \<and> (\<forall>x. r = Inr x \<longrightarrow> T x)"
    by (auto simp: run_exit_on_error K_def split: sum.splits if_splits)
qed

lemma keeps_ignore_error [keeps_intros]: "keeps K n U \<Longrightarrow> keeps K (ignore_error n) (\<lambda>_. True)"
  by (rule keepsI, auto simp: ignore_error_def dest: keeps_state)

lemma keeps_defer [keeps_intros]:
  assumes "keeps K d U" and "keeps K m T"
  shows "keeps K (defer_call d m) T"
proof (rule keepsI)
  fix p r p'
  assume p: "K p" and run: "defer_call d m p = (r, p')"
  obtain q p1 where m: "m p = (q, p1)" by fastforce
  from keepsD [OF assms(2) p m] keeps_state [OF assms(1), of p1] m run
  show "K p' \<and> (\<forall>x. r = Inr x \<longrightarrow> T x)"
    by (auto simp: defer_call_def split: sum.splits err.splits)
qed

lemma keeps_connected [keeps_intros]: "keeps K m T \<Longrightarrow> keeps K (connected server m) T"
  unfolding connected_def by (rule keeps_intros | assumption)+

lemma keeps_uuid [keeps_intros]: "keeps K (case i of None \<Rightarrow> die d | Some x \<Rightarrow> ret x) (\<lambda>_. True)"
  by (auto simp: keeps_def K_def run_complaints run_guard split: option.splits)

lemma keeps_file_commands [keeps_intros]:
  "keeps K (cmdStore P B N D args) (\<lambda>_. True)" "keeps K (cmdLoad P B N args) (\<lambda>_. True)"
  "keeps K (cmdAppend P B N args) (\<lambda>_. True)" "keeps K (cmdShare P B N args) (\<lambda>_. True)"
  "keeps K (cmdAccept P B N args) (\<lambda>_. True)" "keeps K (cmdRevoke P B N args) (\<lambda>_. True)"
  unfolding cmdStore_def cmdLoad_def cmdAppend_def cmdShare_def cmdAccept_def cmdRevoke_def Let_def
  by (rule TrueI keeps_intros)+

lemma keeps_account_commands [keeps_intros]:
  "keeps K (cmdInit P B N D args) (\<lambda>_. True)" "keeps K (cmdLogin P B N D args) (\<lambda>_. True)"
  "keeps K (cmdLogout D) (\<lambda>_. True)" "keeps K (cmdList P) (\<lambda>_. True)" "keeps K (cmdRead D S args) (\<lambda>_. True)"
  unfolding cmdInit_def cmdLogin_def cmdLogout_def cmdList_def cmdRead_def Let_def
  by (rule TrueI keeps_intros)+

lemma keeps_legacy [keeps_intros]: "keeps K (runLegacy P B N D cmd args) (\<lambda>_. True)"
  unfolding runLegacy_def by (rule TrueI keeps_intros)+

lemma keeps_host [keeps_intros]: "keeps K (hostCmd D cfg args) (\<lambda>_. True)"
  unfolding hostCmd_def Let_def by (rule TrueI keeps_intros)+

lemma keeps_run_command [keeps_intros]: "keeps K (run_command P B N D S prog cmd args) (\<lambda>_. True)"
  unfolding run_command_def by (rule TrueI keeps_intros)+

lemma keeps_restore [keeps_intros]: "keeps K (restore_session P B N D cmd) (\<lambda>_. True)"
  unfolding restore_session_def by (rule TrueI keeps_intros keeps_read)+

lemma keeps_main: "keeps K (sharelock_main P B N D S v argv) (\<lambda>_. True)"
  unfolding sharelock_main_def by (rule TrueI keeps_intros keeps_read)+

end

interpretation example_commands: sealing_commands P0 map_badger N0 "\<lambda>d. d"
  by unfold_locales (rule P0_ok map_badger_ok)+

section \<open>Machines\<close>

text \<open>
  Commands that use one server one after the other, each from a machine of its own: the disk and the
  environment of every command are given, the server is the one the command before has left.
\<close>

fun use_server ::
  "provider \<Rightarrow> 'd badger \<Rightarrow> network \<Rightarrow> disk \<Rightarrow> dialer \<Rightarrow> gostr \<times> gostr option \<Rightarrow>
   (os \<times> gostr list) list \<Rightarrow> 'd machine \<Rightarrow> 'd machine"
where
  "use_server P B N D S v [] mc = mc"
| "use_server P B N D S v ((s, argv) # uses) mc =
     use_server P B N D S v uses (snd (snd (sharelock P B N D S v argv (mc\<lparr>mc_os := s\<rparr>))))"

lemma sharelock_sealed:
  assumes "provider_ok P" and "badger_ok B contents" and "sealed_table P (contents (mc_server mc))"
  shows "sealed_table P (contents (mc_server (snd (snd (sharelock P B N D S v argv mc)))))"
proof -
  have commands: "sealing_commands P B contents"
    using assms(1,2) by unfold_locales
  obtain r p where run: "sharelock_main P B N D S v argv (start_process mc) = (r, p)" by fastforce
  have "sealing_commands.K P contents (start_process mc)"
    using assms(3) by (simp add: sealing_commands.K_def [OF commands] client_sealed_def sealed_world_def
        start_process_def start_client_def new_client_def)
  from keepsD [OF sealing_commands.keeps_main [OF commands] this run]
  have "sealing_commands.K P contents p" by simp
  with run show ?thesis
    by (simp add: sealing_commands.K_def [OF commands] client_sealed_def sealed_world_def sharelock_def end_process_def)
qed

lemma use_server_sealed:
  assumes "provider_ok P" and "badger_ok B contents" and "sealed_table P (contents (mc_server mc))"
  shows "sealed_table P (contents (mc_server (use_server P B N D S v uses mc)))"
  using assms(3)
proof (induction uses arbitrary: mc)
  case (Cons use uses)
  obtain s argv where use: "use = (s, argv)" by fastforce
  have "sealed_table P (contents (mc_server (mc\<lparr>mc_os := s\<rparr>)))" using Cons.prems by simp
  from Cons.IH [OF sharelock_sealed [OF assms(1,2) this]] show ?case
    unfolding use use_server.simps .
qed simp

section \<open>A server that is in use\<close>

lemma sealed_payload: "full_keys keys \<Longrightarrow> payload_value P (sealed P t b keys)"
  unfolding payload_value_def by blast

lemma account_payload:
  assumes "digest_ok P" and "length (PasswordSalt u) = 16"
  shows "account_value P (user_payload P t u)"
  using assms derived_full_keys by (simp add: account_value_def user_payload_def sealed_payload)

text \<open>The records of Alice's account and file are sealed.\<close>

lemma home_sealed: "sealed_table P0 file_db"
proof -
  have stored: "stored_value P0 i v" if "alice_records i = Some v" for i v
  proof -
    have "payload_value P0 v \<or> i = user_id P0 alice \<and> account_value P0 v"
      using that derived_full_keys [OF provider_parts(3) [OF P0_ok]] account_payload [OF provider_parts(3) [OF P0_ok]]
      by (auto simp: alice_records_def stored_file_def Let_def sample_blocks split: if_splits intro!: sealed_payload)
    then show ?thesis
      using alice_records_small [OF that] by (auto simp: stored_value_def)
  qed
  have name: "k = data_name (drop 5 k)" if "take 5 k = lit ''data:''" for k :: bytes
    using that append_take_drop_id [of 5 k] by (simp add: data_name_def)
  have "\<exists>i. k = data_name i \<and> stored_value P0 i v" if "file_db k = Some v" for k v
    using that name [of k] stored [of "drop 5 k" v] unfolding file_db_def by (auto split: if_splits)
  then show ?thesis
    unfolding sealed_table_def by blast
qed

section \<open>Properties\<close>

text \<open>C7. Whatever commands are run by whatever users against a server whose database is empty or was only
  used like this, and whatever the network and the disks do: under a UUID of 16 bytes the database holds nothing but outputs of the authenticated encryption,
  at least 29 bytes long, behind a salt in the record of a user, or a signed sealed invitation; under
  a name it holds nothing but generated public keys of 32 bytes.\<close>

theorem server_holds_only_sealed_values:
  assumes "provider_ok P" and "badger_ok B contents" and "sealed_table P (contents (mc_server mc))"
  shows "Map.graph (contents (mc_server (use_server P B N D S v uses mc))) \<subseteq>
    {(data_name i, b) | i b. length i = 16 \<and> 29 \<le> length b \<and>
       (payload_value P b \<or> (\<exists>n. i = user_id P n) \<and> account_value P b \<or>
        (\<exists>t. i = uuid_new P t) \<and> invitation_value P b)} \<union>
    {(key_name n, b) | n b. length b = 32 \<and> public_key P b}"
proof (rule subrelI)
  fix k b
  assume "(k, b) \<in> Map.graph (contents (mc_server (use_server P B N D S v uses mc)))"
  then have "contents (mc_server (use_server P B N D S v uses mc)) k = Some b"
    by (simp add: in_graphD)
  moreover have "sealed_table P (contents (mc_server (use_server P B N D S v uses mc)))"
    by (rule use_server_sealed [OF assms])
  ultimately consider i where "k = data_name i" "stored_value P i b" | n where "k = key_name n" "public_key P b"
    unfolding sealed_table_def by blast
  then show "(k, b) \<in> {(data_name i, b) | i b. length i = 16 \<and> 29 \<le> length b \<and>
       (payload_value P b \<or> (\<exists>n. i = user_id P n) \<and> account_value P b \<or>
        (\<exists>t. i = uuid_new P t) \<and> invitation_value P b)} \<union>
    {(key_name n, b) | n b. length b = 32 \<and> public_key P b}"
    using stored_value_length [OF assms(1)] public_key_length [OF assms(1)]
    by cases (auto simp: stored_value_def)
qed

text \<open>Alice, who has stored a file before, stores another one.\<close>

theorem server_holds_only_sealed_values_witness:
  "\<exists>mc'. sharelock P0 map_badger N1 plain_disk no_streams ([], None) [lit ''sharelock'', lit ''store'', lit ''-f=./g''] home_machine =
      (0, ok_line, mc') \<and>
    mc_server mc' (data_name (access_id P0 alice (lit ''g''))) \<noteq> None \<and> snd ` Map.graph (mc_server mc') \<subseteq> {b. 29 \<le> length b}"
proof -
  let ?argv = "[lit ''sharelock'', lit ''store'', lit ''-f=./g'']"
  obtain mc' where run: "sharelock P0 map_badger N1 plain_disk no_streams ([], None) ?argv home_machine = (0, ok_line, mc')"
    and view: "file_view P0 (stored_data (\<lambda>d. d) (mc_server mc')) (with_file P0 alice_user (lit ''g'')) (lit ''g'')
      (new_access P0 30) (new_mailbox P0 30) (new_inode P0 30 sample) (map block (ByteToBlock sample))"
    by (rule home_store)
  have "stored_data (\<lambda>d. d) (mc_server mc') (access_id P0 alice (lit ''g'')) \<noteq> None"
    using view by (auto simp: file_view_def access_at_def with_file_def dest: reads_at_dom)
  moreover have "mc_server mc' = mc_server (use_server P0 map_badger N1 plain_disk no_streams ([], None)
      [(mc_os home_machine, ?argv)] home_machine)"
    using run by (simp add: home_machine_def)
  ultimately show ?thesis
    using run server_holds_only_sealed_values [OF P0_ok map_badger_ok, of home_machine N1 plain_disk no_streams "([], None)"
        "[(mc_os home_machine, ?argv)]"] home_sealed
    by (intro exI [of _ mc']) (auto simp: stored_data_def)
qed

end
