(* ===== verification/UnitTests.thy ===== *)
theory UnitTests
  imports Examples
begin

text \<open>
  \<open>encryption_unittest.go\<close>: the three specifications of the user service that the package carries
  with it, as programs that fail when an expectation does, and the proof that they pass.
\<close>

section \<open>The specifications\<close>

text \<open>\<open>Expect(b).To(BeTrue())\<close>, and \<open>Expect(err).ToNot(BeNil())\<close> for the error of a call.\<close>

definition expectation_failed :: err where
  "expectation_failed = Msg ''expectation failed'' []"

definition expect :: "bool \<Rightarrow> ('s, unit) prog" where
  "expect b = guardE b expectation_failed"

definition expect_error :: "('s, 'a) prog \<Rightarrow> ('s, unit) prog" where
  "expect_error m s = (case m s of (Inl e, s') \<Rightarrow> (Inr (), s') | (Inr x, s') \<Rightarrow> (Inl expectation_failed, s'))"

text \<open>\<open>NewUserService(NewMemoryStorage(), NewMemoryKeyStore())\<close>, at some position of the random source.\<close>

definition new_test :: "nat \<Rightarrow> mworld st" where
  "new_test t = \<lparr>backing = new_memory, tick = t, userdata = user_zero\<rparr>"

definition InitUser_sets_Username :: "provider \<Rightarrow> (mworld st, unit) prog" where
  "InitUser_sets_Username P =
     bindE (InitUser P memory_service (lit ''alice'') (lit ''password'')) (\<lambda>alice.
     expect (Username alice = lit ''alice''))"

definition GetUser_retrieves_user :: "provider \<Rightarrow> (mworld st, unit) prog" where
  "GetUser_retrieves_user P =
     bindE (InitUser P memory_service (lit ''alice'') (lit ''password'')) (\<lambda>_.
     bindE (GetUser P memory_service (lit ''alice'') (lit ''password'')) (\<lambda>user.
     expect (Username user = lit ''alice'')))"

definition GetUser_rejects_wrong_password :: "provider \<Rightarrow> (mworld st, unit) prog" where
  "GetUser_rejects_wrong_password P =
     bindE (InitUser P memory_service (lit ''alice'') (lit ''password'')) (\<lambda>_.
     expect_error (GetUser P memory_service (lit ''alice'') (lit ''wrongpassword'')))"

definition passes :: "(mworld st, unit) prog \<Rightarrow> bool" where
  "passes spec \<longleftrightarrow> (\<forall>t. fst (spec (new_test t)) = Inr ())"

section \<open>Wrong passwords\<close>

text \<open>
  Authenticated encryption again: what is sealed under the keys of one password does not open under
  those of another, with the same salt.
\<close>

definition foreign_password_rejected :: "provider \<Rightarrow> gostr \<Rightarrow> gostr \<Rightarrow> bool" where
  "foreign_password_rejected P pw pw' \<longleftrightarrow>
     (\<forall>salt t b. length salt = 16 \<longrightarrow>
       (\<exists>e. decryptAndVerify P (sealed P t b (getUserKeys P (deriveMasterKey P pw salt)))
         (getUserKeys P (deriveMasterKey P pw' salt)) = Inl e))"

lemma GetUser_wrong_password:
  assumes "provider_ok P" and "good_user u" and "account_at P (store_data (backing s)) pw u"
    and "foreign_password_rejected P pw pw'"
  shows "\<exists>e. GetUser P memory_service (Username u) pw' s = (Inl (Wrap ''failed to decrypt user data'' e), s)"
proof -
  note ok = provider_parts [OF assms(1)]
  have salt: "length (PasswordSalt u) = 16" using assms(2) by (simp add: good_user_def)
  from assms(3) obtain t
    where mk: "MasterKey u = deriveMasterKey P pw (PasswordSalt u)"
      and m: "store_data (backing s) (user_id P (Username u)) = Some (user_payload P t u)"
    by (auto simp: account_at_def)
  obtain e where "decryptAndVerify P (sealed P t (marshal_user P u) (getUserKeys P (MasterKey u)))
      (getUserKeys P (deriveMasterKey P pw' (PasswordSalt u))) = Inl e"
    using assms(4) salt unfolding foreign_password_rejected_def mk by blast
  then show ?thesis
    using m salt ok
    by (simp add: GetUser_def run_bind run_wrap run_userID memory_runs run_guard Let_def
        user_payload_def passwordSaltSize_def)
qed

text \<open>Every specification starts with the same account.\<close>

lemma new_test_account:
  assumes "provider_ok P"
  obtains u s where "InitUser P memory_service (lit ''alice'') (lit ''password'') (new_test t) = (Inr u, s)"
    and "good_user u" "Username u = lit ''alice''" "account_at P (store_data (backing s)) (lit ''password'') u"
proof -
  have "utf8_valid (lit ''alice'')" by (rule utf8_valid_ascii) (auto simp: lit_def)
  moreover have "store_data (backing (new_test t)) (user_id P (lit ''alice'')) = None"
    by (simp add: new_test_def new_memory_def)
  ultimately show thesis
    using InitUser_run [OF assms] that by metis
qed

section \<open>Properties\<close>

text \<open>The specifications of \<open>encryption_unittest.go\<close> pass, wherever the random source stands: a new user
  has the requested name, can log in again, and cannot log in with a wrong password.\<close>

theorem user_specs_pass:
  assumes "provider_ok P" and "foreign_password_rejected P (lit ''password'') (lit ''wrongpassword'')"
  shows "passes (InitUser_sets_Username P) \<and> passes (GetUser_retrieves_user P) \<and>
    passes (GetUser_rejects_wrong_password P)"
proof -
  have "fst (InitUser_sets_Username P (new_test t)) = Inr () \<and> fst (GetUser_retrieves_user P (new_test t)) = Inr () \<and>
      fst (GetUser_rejects_wrong_password P (new_test t)) = Inr ()" for t
  proof -
    obtain u s where init: "InitUser P memory_service (lit ''alice'') (lit ''password'') (new_test t) = (Inr u, s)"
      and u: "good_user u" "Username u = lit ''alice''" "account_at P (store_data (backing s)) (lit ''password'') u"
      by (rule new_test_account [OF assms(1)])
    from GetUser_run [OF assms(1) u(1,3)] GetUser_wrong_password [OF assms(1) u(1,3) assms(2)] u(2)
    show ?thesis
      by (auto simp: InitUser_sets_Username_def GetUser_retrieves_user_def GetUser_rejects_wrong_password_def
          run_bind init expect_def expect_error_def run_guard)
  qed
  then show ?thesis by (simp add: passes_def)
qed

lemma P0_password_rejected:
  assumes "hd pw \<noteq> hd pw'" and "pw \<noteq> []" "pw' \<noteq> []"
  shows "foreign_password_rejected P0 pw pw'"
  unfolding foreign_password_rejected_def
proof (intro allI impI)
  fix salt :: bytes and t b assume "length salt = 16"
  let ?k = "\<lambda>p. deriveMasterKey P0 p salt"
  have len: "length (?k p) = 32" for p
    by (simp add: deriveMasterKey_def argon2Key_def masterKeySize_def P0_def)
  have keys: "getUserKeys P0 (?k p) = (?k p, ?k p)" for p
    using len [of p] by (simp add: getUserKeys_def deriveKey_def P0_def pad_def)
  have "hd (?k p) = hd p" if "p \<noteq> []" for p
    using that by (cases p) (simp_all add: deriveMasterKey_def argon2Key_def masterKeySize_def P0_def pad_def)
  then have "hd (?k pw) \<noteq> hd (?k pw')" using assms by simp
  then have tag: "take 16 (?k pw) \<noteq> take 16 (?k pw')"
    by (metis hd_take zero_less_numeral)
  show "\<exists>e. decryptAndVerify P0 (sealed P0 t b (getUserKeys P0 (?k pw))) (getUserKeys P0 (?k pw')) = Inl e"
    unfolding keys by (rule P0_other_key [OF len len tag])
qed

theorem user_specs_pass_witness:
  "passes (GetUser_rejects_wrong_password P0) \<and> passes (GetUser_retrieves_user P0)"
proof -
  have "foreign_password_rejected P0 (lit ''password'') (lit ''wrongpassword'')"
    by (rule P0_password_rejected) (simp_all add: lit_def)
  from user_specs_pass [OF P0_ok this] show ?thesis by simp
qed

end
