(* ===== verification/Spec2Isabelle.thy ===== *)
theory Spec2Isabelle
  imports Examples Config ServerConfig Interleaving EndToEnd Diagnostics Opaque UnitTests
begin

text \<open>
  ShareLock keeps encrypted files on a server that sees only opaque blobs. A client has accounts,
  files and invitations; the server is a key-value store behind a binary protocol; two programs,
  \<open>sharelock\<close> and \<open>sharelock-server\<close>, are built on them.

  \<^bold>\<open>Parts of the program and where they are modelled.\<close>

  \<^item> \<open>internal/client/encryption\<close>: the structs (\<open>Types\<close>) and their JSON form (\<open>Codec\<close>, over
    \<open>Base64\<close> and \<open>Json\<close>); \<open>File.go\<close> (\<open>FileBlocks\<close>); \<open>memory.go\<close> (\<open>Storage\<close> for the interfaces and
    the in-memory stores, \<open>Remote\<close> for the remote ones); \<open>utils.go\<close> (\<open>Crypto\<close>); \<open>service.go\<close>
    (\<open>UserService\<close>, \<open>FileService\<close>, \<open>InvitationService\<close> for the methods, \<open>Revocation\<close> for what
    revoking does to a shared file, \<open>Typing\<close> for the types all of them keep);
    \<open>encryption_unittest.go\<close> (\<open>UnitTests\<close>).
  \<^item> \<open>internal/server\<close>: the byte streams and length fields of the protocol (\<open>Wire\<close>); \<open>store.go\<close>,
    \<open>handler.go\<close> and \<open>handleConn\<close> of \<open>server.go\<close> (\<open>Server\<close>); its \<open>New\<close> and the start of \<open>Run\<close> with
    the constructors and \<open>Close\<close> of the store (\<open>ServerConfig\<close>); the accept loop with all its
    connections, each call of \<open>Handle\<close> in one step (\<open>Concurrency\<close>) and in three (\<open>Interleaving\<close>).
  \<^item> \<open>internal/client/remote\<close>: the client's end of the protocol (\<open>Remote\<close>).
  \<^item> \<open>internal/client/netstream\<close> (\<open>Netstream\<close>), \<open>internal/client/app\<close> (\<open>App\<close>),
    \<open>internal/client/config\<close> (\<open>Config\<close>).
  \<^item> \<open>cmd/sharelock\<close>: the process with its output and the usage texts (\<open>Console\<close>); \<open>main\<close>, the sessions
    and every command (\<open>Cli\<close>). \<open>cmd/sharelock-server\<close>
    (\<open>ServerConfig\<close>): the configuration and \<open>main\<close>.

  \<open>Os\<close> and \<open>Flags\<close> hold what the programs use of Go's \<open>os\<close>, \<open>path\<close> and \<open>flag\<close>. \<open>Examples\<close> has a
  concrete provider, a database and a network, and the scenarios the witnesses run in: Alice
  stores a file, shares it with Bob, Bob accepts.

  \<^bold>\<open>How code becomes definitions.\<close> A method is a \<open>prog\<close> (\<open>Prelude\<close>): a function from the state to
  an error or a value and the state afterwards, so that the writes of a failing call stay. Every
  early return is a branch with the error of the code; a nil-map write or a nil pointer is a
  \<open>Panic\<close>, \<open>os.Exit\<close> an \<open>Exit\<close>. The state \<open>st\<close> of the services holds the world behind the storage
  interfaces, the number of random draws so far, and the \<open>User\<close> a method's pointer argument refers
  to; a \<open>client\<close> (\<open>App\<close>) wraps it with the nil-able user and services, a \<open>process\<close> (\<open>Console\<close>) adds
  the disk, the environment, the standard output and the standard error, and \<open>sharelock\<close> maps the \<open>machine\<close> one process
  finds to the one it leaves, with its exit status. Strings are byte lists and need not be UTF-8;
  lengths on the wire are 32-bit words; \<open>Inode.Size\<close> wraps at 64 bits.

  \<^bold>\<open>Code outside the repository.\<close> \<open>provider\<close> (\<open>Types\<close>) has the cryptographic primitives, the random
  source, \<open>google/uuid\<close>, argon2 and the iteration order of maps; \<open>badger\<close> (\<open>Server\<close>) is the
  database, \<open>network\<close> (\<open>Remote\<close>) the connections, \<open>godotenv\<close> and \<open>server_env\<close> (\<open>ServerConfig\<close>) the
  \<open>.env\<close> reader and what the server opens when it starts, \<open>disk\<close> (\<open>Os\<close>) which file a path names
  and which operations fail, \<open>dialer\<close> (\<open>App\<close>) the streams \<open>read\<close> gets. \<open>provider_ok\<close>, \<open>badger_ok\<close>
  and \<open>godotenv_ok\<close> state their documented behaviour: sizes of keys and digests, opening what was
  sealed, verifying what was signed, agreement of the two Diffie-Hellman computations, text forms
  of UUIDs, a database that is a map, variables that are set staying set. They say nothing about
  secrecy; where a theorem needs that a wrong key is noticed, it says so with
  \<open>foreign_key_rejected\<close> or \<open>foreign_password_rejected\<close>, for the two keys or passwords concerned. Freshness of UUIDs is a hypothesis
  (\<open>fresh_uuids\<close>) on the draws of the call; \<open>settled\<close> (\<open>Config\<close>) says that writing a configuration
  file does not change where the file is looked for.

  \<^bold>\<open>What the lemmas show.\<close> \<open>Storage\<close> states the contract of the storage interfaces as the locales
  \<open>storage_service\<close>, \<open>key_store_service\<close> and \<open>backend\<close>. The locale \<open>related_services\<close> is about two
  services whose storage calls are related; inside it every service method is shown to refine
  itself. A \<open>backend\<close> gives an instance of it towards memory, a \<open>total_backend\<close>, one that never
  fails, also one back from memory; the in-memory stores and the remote stores without a server
  are total backends, the remote stores with a server are a backend. \<open>FileService\<close> describes
  the records of a file as a \<open>file_view\<close> and shows what each method does to views;
  \<open>InvitationService\<close> and \<open>Revocation\<close> do the same for a \<open>shared_file\<close> with its children.
  \<open>Server\<close> shows that \<open>Handle\<close> executes a complete request once and an incomplete one never, and
  \<open>Remote\<close> that a call of the client does so at most once (\<open>logged\<close> is a database that counts);
  \<open>Concurrency\<close> lifts this to all interleavings by rule induction over \<open>server_step\<close>, and
  \<open>Interleaving\<close> shows by a simulation in both directions that nothing is lost by taking a call as
  one step. \<open>App\<close> follows
  a client through its calls, \<open>Config\<close> the two files through writing and reading, and \<open>Cli\<close> one
  process after another. \<open>Reliable\<close> is about a network and a database that work: the remote storage
  then does what an in-memory storage with a limit on message sizes does (\<open>limited_service\<close>, related
  by \<open>related_services\<close> again), so that loading and storing within the limit succeed, and (\<open>Limits\<close>) sharing too. \<open>Commands\<close> is an
  abstract specification of the file commands, \<open>carry_out\<close> of the \<open>file_request\<close> a command line makes, with the lemmas that reduce a process to it; \<open>EndToEnd\<close> shows that the commands refine
  it and follows a stored and a shared file from the arguments to the output, on the machines of
  \<open>Machines\<close>. \<open>Typing\<close> proves with the rules for
  \<open>keeps\<close> (\<open>Prelude\<close>) that every method keeps what it can of its data's types (sizes of a new account's
  keys, of salts and of UUIDs; a record that is decrypted may hold keys of any size) and stores nothing but sealed
  values: the locale \<open>sealing_service\<close> is what it asks of a storage, its instances are the memory
  and the remote stores; \<open>Opaque\<close> carries this through the client and every command to the database
  of the server. \<open>Diagnostics\<close> goes through the commands for what they write when they fail. The properties that are
  about one of these theories are stated there; the theorems below combine several.

  \<^bold>\<open>Recursion.\<close> \<open>handleConn\<close> ends because \<open>Handle\<close> consumes input, \<open>writeFull\<close> because each write
  takes at least a byte, the accept loop is a step relation. The JSON parser has fuel \<open>2 * n + 2\<close>
  for a text of \<open>n\<close> bytes: \<open>parse_value_text\<close> shows that \<open>2 * n\<close> is enough for every text the
  printer makes, and \<open>json_parse_indent\<close> the same for indented texts.

  \<^bold>\<open>Not modelled.\<close> TLS handshakes and sockets (a connection is made or refused by the network
  parameter); partial reads of a message as steps of their own; badger's files; what the
  server writes to its log; the text \<open>%v\<close> makes of an error (an error on the standard error is a
  value of \<open>err\<close> behind its prefix); file modes; removing a directory that stands where the session
  file should be; the test runner of \<open>encryption_unittest.go\<close>; field names in JSON that differ in non-ASCII case; a JSON
  array of numbers where a byte string is expected, which \<open>encoding/json\<close> accepts and \<open>dec_bytes\<close> does not; the
  difference between a nil and an empty byte slice, which are \<open>null\<close> and an empty text in JSON; the error of
  \<open>cipher.NewGCM\<close>, which AES blocks do not cause.
\<close>

section \<open>Sharing files\<close>

text \<open>C1. Sharing works: after the owner of a file creates an invitation for a registered user and
  that user accepts it under any name of theirs, both load the owner's content.\<close>

theorem share_gives_access:
  assumes "provider_ok P"
    and shared: "shared_file P (store_data (backing s)) (userdata s) f a mb ino bs"
    and signing: "ed25519_genkey P t0 = Some (pk, SigningPrivateKey (userdata s))"
      "store_keys (backing s) (Username (userdata s) @ lit ''_sig_pub'') = Some pk"
    and recipient: "good_user v"
      "store_keys (backing s) (Username v @ lit ''_enc_pub'') = Some (x25519_public P (EncryptionPrivateKey v))"
    and fresh: "fresh_uuids P (tick s) 7 used"
    and used: "insert (access_id P (Username v) g) (insert (user_id P (Username v)) (footprint P (userdata s) f a mb ino)) \<subseteq> used"
    and apart: "access_id P (Username v) g \<notin> footprint P (userdata s) f a mb ino"
      "user_id P (Username v) \<notin> footprint P (userdata s) f a mb ino"
      "access_id P (Username v) g \<noteq> user_id P (Username v)"
    and run: "CreateInvitation P memory_service f (Username v) s = (Inr i, s1)"
      "AcceptInvitation P memory_service (Username (userdata s)) i g (s1\<lparr>userdata := v\<rparr>) = (res, s2)"
  shows "res = Inr () \<and> LoadFile P memory_service g s2 = (Inr (concat bs), s2) \<and>
    LoadFile P memory_service f (s2\<lparr>userdata := userdata s\<rparr>) = (Inr (concat bs), s2\<lparr>userdata := userdata s\<rparr>)"
proof -
  note acc = share_and_accept [OF assms]
  from acc(1) LoadFile_view [OF assms(1) acc(2)]
    LoadFile_view [OF assms(1), of "s2\<lparr>userdata := userdata s\<rparr>"] shared_file_parts(1) [OF acc(3)]
  show ?thesis by simp
qed

theorem share_gives_access_witness:
  "\<exists>s s1 s2 v i. CreateInvitation P0 memory_service file_f bob s = (Inr i, s1) \<and>
    AcceptInvitation P0 memory_service alice i file_g (s1\<lparr>userdata := v\<rparr>) = (Inr (), s2) \<and>
    LoadFile P0 memory_service file_g s2 = (Inr sample, s2)"
proof -
  obtain s s1 s2 :: "mworld st" and ub pa i where s: "sample_shared s" "good_user ub" "Username ub = bob"
      "ed25519_genkey P0 2 = Some (pa, SigningPrivateKey (userdata s))"
      "store_keys (backing s) (alice @ lit ''_sig_pub'') = Some pa"
      "store_keys (backing s) (bob @ lit ''_enc_pub'') = Some (x25519_public P0 (EncryptionPrivateKey ub))"
      "CreateInvitation P0 memory_service file_f bob s = (Inr i, s1)"
      "AcceptInvitation P0 memory_service alice i file_g (s1\<lparr>userdata := ub\<rparr>) = (Inr (), s2)"
    by (rule shared_sample)
  have sh: "shared_file P0 (store_data (backing s)) (userdata s) file_f (new_access P0 8) (new_mailbox P0 8)
      (new_inode P0 8 sample) [sample]" and name: "Username (userdata s) = alice"
    using s(1) by (simp_all add: sample_shared_def)
  from share_gives_access [OF P0_ok sh s(4) _ s(2) _ sample_sharing [OF s(1-3)], unfolded name s(3), OF s(5-8)]
  have "LoadFile P0 memory_service file_g s2 = (Inr sample, s2)" by simp
  with s(7,8) show ?thesis by blast
qed

text \<open>C2. Revoking one user's access leaves the file readable, with the same content, for the user
  who revokes and for the holder of every other mailbox given away by that user.\<close>

theorem revoke_keeps_remaining_readers:
  assumes "provider_ok P" and "shared_file P (store_data (backing s)) (userdata s) f a mb ino bs"
    and "good_user (userdata s)"
    and new: "uuid_new P (tick s + length (BlockUUIDs ino) + 3) \<notin> footprint P (userdata s) f a mb ino"
    and child: "fmlookup (children_of a) n = Some c" "n \<noteq> r"
    and reader: "access_at P (store_data (backing s)) v g b"
      "MymailboxUUID b = ci_MailboxUUID c" "MymailboxKey b = ci_MailboxKey c"
      "access_id P (Username v) g \<notin> footprint P (userdata s) f a mb ino"
      "access_id P (Username v) g \<noteq> uuid_new P (tick s + length (BlockUUIDs ino) + 3)"
    and run: "RevokeAccess P memory_service f r s = (res, s')"
  shows "res = Inr () \<and> LoadFile P memory_service f s' = (Inr (concat bs), s') \<and>
    LoadFile P memory_service g (s'\<lparr>userdata := v\<rparr>) = (Inr (concat bs), s'\<lparr>userdata := v\<rparr>)"
proof -
  have u: "Files (userdata s) \<noteq> None" "length (PasswordSalt (userdata s)) = 16"
    using assms(3) by (simp_all add: good_user_def)
  note rv = RevokeAccess_shared [OF assms(1,2) u refl new run]
  have "access_at P (store_data (backing s')) v g b"
    using reader(1) rv(7) [OF reader(4,5)] by (simp add: access_at_def reads_at_def)
  moreover have "c \<in> fset (child_infos (revoked_access P (tick s) (length (BlockUUIDs ino)) r a))"
    using child by (auto simp: child_infos_revoked)
  ultimately have "file_view P (store_data (backing s')) v g b (revoked_mailbox P (tick s) mb) ino bs"
    using child_view [OF rv(4)] reader(2,3) by blast
  then show ?thesis
    using rv(1) shared_file_parts(1) [OF rv(4)] LoadFile_view [OF assms(1)] by simp
qed

theorem revoke_keeps_remaining_readers_witness:
  "\<exists>s s' v. RevokeAccess P0 memory_service file_f (lit ''carol'') s = (Inr (), s') \<and>
    LoadFile P0 memory_service file_f s' = (Inr sample, s') \<and>
    LoadFile P0 memory_service file_g (s'\<lparr>userdata := v\<rparr>) = (Inr sample, s'\<lparr>userdata := v\<rparr>)"
proof -
  obtain s :: "mworld st" and v a where s:
    "shared_file P0 (store_data (backing s)) (userdata s) file_f a (new_mailbox P0 8) (new_inode P0 8 sample) [sample]"
    "fmlookup (children_of a) bob = Some (shared_child P0 18)"
    "footprint P0 (userdata s) file_f a (new_mailbox P0 8) (new_inode P0 8 sample) \<subseteq> insert (uuid_new P0 18) sample_used"
    "access_id P0 bob file_g \<notin> footprint P0 (userdata s) file_f a (new_mailbox P0 8) (new_inode P0 8 sample)"
    "uuid_new P0 31 \<notin> footprint P0 (userdata s) file_f a (new_mailbox P0 8) (new_inode P0 8 sample)"
    "good_user (userdata s)" "Username (userdata s) = alice" "tick s = 27"
    "file_view P0 (store_data (backing s)) v file_g
      (accepted_access (child_invitation (shared_child P0 18))) (new_mailbox P0 8) (new_inode P0 8 sample) [sample]"
    "Username v = bob" "good_user v"
    by (rule shared_sample_alice)
  obtain res s' where run: "RevokeAccess P0 memory_service file_f (lit ''carol'') s = (res, s')" by fastforce
  have new: "uuid_new P0 (tick s + length (BlockUUIDs (new_inode P0 8 sample)) + 3) = uuid_new P0 31"
    by (simp add: s(8) new_inode_def sample_blocks)
  have neq: "access_id P0 bob file_g \<noteq> uuid_new P0 31" "bob \<noteq> lit ''carol''"
    by (auto dest!: arg_cong [where f = hd] simp del: lit_inj) (simp add: lit_def of_char_byte_inj)
  from revoke_keeps_remaining_readers [OF P0_ok s(1,6), unfolded new, OF s(5,2) neq(2), of v file_g
      "accepted_access (child_invitation (shared_child P0 18))", unfolded s(10), OF _ _ _ s(4) neq(1) run] s(9)
  have "res = Inr () \<and> LoadFile P0 memory_service file_f s' = (Inr sample, s') \<and>
      LoadFile P0 memory_service file_g (s'\<lparr>userdata := v\<rparr>) = (Inr sample, s'\<lparr>userdata := v\<rparr>)"
    by (simp add: file_view_def accepted_access_def child_invitation_def)
  with run show ?thesis by blast
qed

text \<open>C3. Revoking takes the access away: the holder of the revoked mailbox could load the file
  before and cannot afterwards, provided that the cipher rejects payloads sealed under the new
  file key when they are opened with the old one.\<close>

theorem revoke_stops_revoked_reader:
  assumes "provider_ok P" and "shared_file P (store_data (backing s)) (userdata s) f a mb ino bs"
    and "good_user (userdata s)"
    and new: "uuid_new P (tick s + length (BlockUUIDs ino) + 3) \<notin> footprint P (userdata s) f a mb ino"
    and child: "fmlookup (children_of a) r = Some c"
    and reader: "access_at P (store_data (backing s)) v g b"
      "MymailboxUUID b = ci_MailboxUUID c" "MymailboxKey b = ci_MailboxKey c"
      "access_id P (Username v) g \<notin> footprint P (userdata s) f a mb ino"
      "access_id P (Username v) g \<noteq> uuid_new P (tick s + length (BlockUUIDs ino) + 3)"
    and rejected: "foreign_key_rejected P (rnd P 32 (tick s)) (FileKey mb)"
    and run: "RevokeAccess P memory_service f r s = (res, s')"
  shows "LoadFile P memory_service g (s\<lparr>userdata := v\<rparr>) = (Inr (concat bs), s\<lparr>userdata := v\<rparr>) \<and>
    (\<exists>e. LoadFile P memory_service g (s'\<lparr>userdata := v\<rparr>) =
      (Inl (Wrap ''failed to decrypt inode'' e), s'\<lparr>userdata := v\<rparr>))"
proof -
  have u: "Files (userdata s) \<noteq> None" "length (PasswordSalt (userdata s)) = 16"
    using assms(3) by (simp_all add: good_user_def)
  note rv = RevokeAccess_shared [OF assms(1,2) u refl new run]
  have ci: "c \<in> fset (child_infos a)" using child by (auto simp: in_child_infos)
  have "access_at P (store_data (backing s')) v g b"
    using reader(1) rv(7) [OF reader(4,5)] by (simp add: access_at_def reads_at_def)
  moreover have "mailbox_at P (store_data (backing s')) (MymailboxUUID b) (MymailboxKey b) mb"
    using shared_file_parts(10) [OF assms(2) ci] rv(6) [OF child] reader(2,3)
    by (simp add: mailbox_at_def reads_at_def)
  moreover obtain t x where "store_data (backing s') (InodeUUID mb) = Some (sealed P t x (getFileKeys P (rnd P 32 (tick s))))"
    using rv(5) [of "InodeUUID mb"] by auto
  ultimately have "\<exists>e. LoadFile P memory_service g (s'\<lparr>userdata := v\<rparr>) =
      (Inl (Wrap ''failed to decrypt inode'' e), s'\<lparr>userdata := v\<rparr>)"
    using old_key_rejected [OF assms(1), of "s'\<lparr>userdata := v\<rparr>" g b mb] rejected by simp
  moreover have "LoadFile P memory_service g (s\<lparr>userdata := v\<rparr>) = (Inr (concat bs), s\<lparr>userdata := v\<rparr>)"
    using LoadFile_view [OF assms(1), of "s\<lparr>userdata := v\<rparr>"] child_view [OF assms(2) ci reader(1-3)] by simp
  ultimately show ?thesis by simp
qed

theorem revoke_stops_revoked_reader_witness:
  "\<exists>s s' v e. LoadFile P0 memory_service file_g (s\<lparr>userdata := v\<rparr>) = (Inr sample, s\<lparr>userdata := v\<rparr>) \<and>
    RevokeAccess P0 memory_service file_f bob s = (Inr (), s') \<and>
    LoadFile P0 memory_service file_g (s'\<lparr>userdata := v\<rparr>) =
      (Inl (Wrap ''failed to decrypt inode'' e), s'\<lparr>userdata := v\<rparr>)"
proof -
  obtain s :: "mworld st" and v a where s:
    "shared_file P0 (store_data (backing s)) (userdata s) file_f a (new_mailbox P0 8) (new_inode P0 8 sample) [sample]"
    "fmlookup (children_of a) bob = Some (shared_child P0 18)"
    "footprint P0 (userdata s) file_f a (new_mailbox P0 8) (new_inode P0 8 sample) \<subseteq> insert (uuid_new P0 18) sample_used"
    "access_id P0 bob file_g \<notin> footprint P0 (userdata s) file_f a (new_mailbox P0 8) (new_inode P0 8 sample)"
    "uuid_new P0 31 \<notin> footprint P0 (userdata s) file_f a (new_mailbox P0 8) (new_inode P0 8 sample)"
    "good_user (userdata s)" "Username (userdata s) = alice" "tick s = 27"
    "file_view P0 (store_data (backing s)) v file_g
      (accepted_access (child_invitation (shared_child P0 18))) (new_mailbox P0 8) (new_inode P0 8 sample) [sample]"
    "Username v = bob" "good_user v"
    by (rule shared_sample_alice)
  obtain res s' where run: "RevokeAccess P0 memory_service file_f bob s = (res, s')" by fastforce
  have new: "uuid_new P0 (tick s + length (BlockUUIDs (new_inode P0 8 sample)) + 3) = uuid_new P0 31"
    by (simp add: s(8) new_inode_def sample_blocks)
  have neq: "access_id P0 bob file_g \<noteq> uuid_new P0 31"
    by (auto dest!: arg_cong [where f = hd])
  have u: "Files (userdata s) \<noteq> None" "length (PasswordSalt (userdata s)) = 16"
    using s(6) by (simp_all add: good_user_def)
  have ok: "res = Inr ()"
    using RevokeAccess_shared(1) [OF P0_ok s(1) u refl _ run] s(5) new by simp
  have rej: "foreign_key_rejected P0 (rnd P0 32 (tick s)) (FileKey (new_mailbox P0 8))"
    using P0_foreign_key [of 27 8] by (simp add: s(8) new_mailbox_def)
  from revoke_stops_revoked_reader [OF P0_ok s(1,6), unfolded new, OF s(5,2), of v file_g
      "accepted_access (child_invitation (shared_child P0 18))", unfolded s(10), OF _ _ _ s(4) neq rej run] s(9)
  have "LoadFile P0 memory_service file_g (s\<lparr>userdata := v\<rparr>) = (Inr sample, s\<lparr>userdata := v\<rparr>) \<and>
    (\<exists>e. LoadFile P0 memory_service file_g (s'\<lparr>userdata := v\<rparr>) =
      (Inl (Wrap ''failed to decrypt inode'' e), s'\<lparr>userdata := v\<rparr>))"
    by (simp add: file_view_def accepted_access_def child_invitation_def)
  with run ok show ?thesis by blast
qed

text \<open>C8. Appending is seen by everybody: if two users (or the same one twice) see a file through
  mailboxes with the same content, then after one of them appends, both load the old content
  followed by what was appended.\<close>

theorem append_seen_by_all_readers:
  assumes "provider_ok P" and "wf_inode ino"
    and view: "file_view P (store_data (backing s)) (userdata s) f a mb ino bs"
      "file_view P (store_data (backing s)) v g b mb ino bs"
    and fresh: "fresh_uuids P (tick s) (1 + 2 * length (ByteToBlock c)) used"
    and used: "set (view_ids P (userdata s) f a mb ino) \<subseteq> used" "set (view_ids P v g b mb ino) \<subseteq> used"
    and own: "distinct (view_ids P (userdata s) f a mb ino)" "distinct (view_ids P v g b mb ino)"
    and run: "AppendToFile P memory_service f (Some c) s = (res, s')"
  shows "res = Inr () \<and> LoadFile P memory_service f s' = (Inr (concat bs @ c), s') \<and>
    LoadFile P memory_service g (s'\<lparr>userdata := v\<rparr>) = (Inr (concat bs @ c), s'\<lparr>userdata := v\<rparr>)"
proof -
  note ap = AppendToFile_run [OF assms(1) view(1), of c, unfolded run, simplified prod.inject]
  have own': "InodeUUID mb \<notin> insert (access_id P (Username (userdata s)) f) (insert (MymailboxUUID a) (set (BlockUUIDs ino)))"
      "InodeUUID mb \<notin> insert (access_id P (Username v) g) (insert (MymailboxUUID b) (set (BlockUUIDs ino)))"
    using own by (auto simp: view_ids_def)
  from LoadFile_view [OF assms(1), of s' f]
    appended_view [OF assms(1) view(1) assms(2) fresh used(1) own'(1)]
    LoadFile_view [OF assms(1), of "s'\<lparr>userdata := v\<rparr>" g]
    appended_view [OF assms(1) view(2) assms(2) fresh used(2) own'(2)] ap
  show ?thesis by simp
qed

theorem append_seen_by_all_readers_witness:
  "\<exists>s s' v. AppendToFile P0 memory_service file_f (Some sample) s = (Inr (), s') \<and>
    LoadFile P0 memory_service file_f s' = (Inr (sample @ sample), s') \<and>
    LoadFile P0 memory_service file_g (s'\<lparr>userdata := v\<rparr>) = (Inr (sample @ sample), s'\<lparr>userdata := v\<rparr>)"
proof -
  obtain s :: "mworld st" and v a where s:
    "shared_file P0 (store_data (backing s)) (userdata s) file_f a (new_mailbox P0 8) (new_inode P0 8 sample) [sample]"
    "footprint P0 (userdata s) file_f a (new_mailbox P0 8) (new_inode P0 8 sample) \<subseteq> insert (uuid_new P0 18) sample_used"
    "tick s = 27"
    "file_view P0 (store_data (backing s)) v file_g
      (accepted_access (child_invitation (shared_child P0 18))) (new_mailbox P0 8) (new_inode P0 8 sample) [sample]"
    "Username v = bob"
    by (rule shared_sample_alice)
  let ?b = "accepted_access (child_invitation (shared_child P0 18))"
  obtain res s' where run: "AppendToFile P0 memory_service file_f (Some sample) s = (res, s')" by fastforce
  have ids: "view_ids P0 v file_g ?b (new_mailbox P0 8) (new_inode P0 8 sample) =
      [access_id P0 bob file_g, uuid_new P0 18, uuid_new P0 9, uuid_new P0 14]"
    by (simp add: view_ids_def s(5) accepted_access_def child_invitation_def shared_child_def
        new_mailbox_def new_inode_def sample_blocks)
  have dist: "distinct (view_ids P0 v file_g ?b (new_mailbox P0 8) (new_inode P0 8 sample))"
    unfolding ids by (simp add: P0_uuid_eq) (auto dest!: arg_cong [where f = hd])
  have used: "set (view_ids P0 v file_g ?b (new_mailbox P0 8) (new_inode P0 8 sample)) \<subseteq> insert (uuid_new P0 18) sample_used"
    unfolding ids by (auto simp: sample_used_def)
  note sh = shared_file_parts [OF s(1)]
  have fresh: "fresh_uuids P0 (tick s) (1 + 2 * length (ByteToBlock sample)) (insert (uuid_new P0 18) sample_used)"
    by (rule sample_fresh') (simp_all add: s(3) sample_blocks)
  from append_seen_by_all_readers [OF P0_ok sh(4,1) s(4) fresh _ used _ dist run] s(2) sh(6)
  have "res = Inr () \<and> LoadFile P0 memory_service file_f s' = (Inr (sample @ sample), s') \<and>
      LoadFile P0 memory_service file_g (s'\<lparr>userdata := v\<rparr>) = (Inr (sample @ sample), s'\<lparr>userdata := v\<rparr>)"
    by (simp add: footprint_def)
  with run show ?thesis by blast
qed

section \<open>Files\<close>

text \<open>C9. What is stored is loaded: \<open>StoreFile\<close> succeeds, \<open>LoadFile\<close> then returns the content, and the
  records of other users' files are untouched.\<close>

theorem store_then_load:
  assumes "provider_ok P" and "length (PasswordSalt (userdata s)) = 16" and "int (length c) < 2 ^ 63"
    and fresh: "fresh_uuids P (tick s) (8 + 2 * length (ByteToBlock c)) used"
    and ids: "access_id P (Username (userdata s)) f \<in> used" "user_id P (Username (userdata s)) \<in> used"
      "access_id P (Username (userdata s)) f \<noteq> user_id P (Username (userdata s))"
    and other: "file_view P (store_data (backing s)) v g b mb ino bs" "set (view_ids P v g b mb ino) \<subseteq> used"
      "access_id P (Username (userdata s)) f \<notin> set (view_ids P v g b mb ino)"
      "user_id P (Username (userdata s)) \<notin> set (view_ids P v g b mb ino)"
    and run: "StoreFile P memory_service f c s = (res, s')"
  shows "res = Inr () \<and> LoadFile P memory_service f s' = (Inr c, s') \<and>
    LoadFile P memory_service g (s'\<lparr>userdata := v\<rparr>) = (Inr (concat bs), s'\<lparr>userdata := v\<rparr>)"
proof -
  note st = StoreFile_view [OF assms(1-3) fresh ids run]
  have "file_view P (store_data (backing s')) v g b mb ino bs"
    by (rule file_view_frame [OF other(1)]) (use other st(7) in auto)
  then show ?thesis
    using st(1) LoadFile_view [OF assms(1) st(5)] LoadFile_view [OF assms(1), of "s'\<lparr>userdata := v\<rparr>" g] by simp
qed

theorem store_then_load_witness:
  "\<exists>s s' v. StoreFile P0 memory_service file_g [7] s = (Inr (), s') \<and>
    LoadFile P0 memory_service file_g s' = (Inr [7], s') \<and>
    LoadFile P0 memory_service file_f (s'\<lparr>userdata := v\<rparr>) = (Inr sample, s'\<lparr>userdata := v\<rparr>)"
proof -
  obtain s :: "mworld st" and ub where s: "sample_shared s" "good_user ub" "Username ub = bob"
    by (rule stored_sample)
  let ?s = "s\<lparr>userdata := ub\<rparr>"
  have sh: "file_view P0 (store_data (backing ?s)) (userdata s) file_f (new_access P0 8) (new_mailbox P0 8)
      (new_inode P0 8 sample) [sample]" and t: "tick ?s = 18"
    using s(1) shared_file_parts(1) by (auto simp: sample_shared_def)
  obtain res s' where run: "StoreFile P0 memory_service file_g [7] ?s = (res, s')" by fastforce
  have one: "length (ByteToBlock [7]) = 1" by (simp add: ByteToBlock_def BlockSize_def)
  have fresh: "fresh_uuids P0 (tick ?s) (8 + 2 * length (ByteToBlock [7])) sample_used"
    by (rule sample_fresh) (simp_all only: t one)
  have salt: "length (PasswordSalt (userdata ?s)) = 16" using s(2) by (simp add: good_user_def)
  have foot: "set (view_ids P0 (userdata s) file_f (new_access P0 8) (new_mailbox P0 8) (new_inode P0 8 sample)) \<subseteq>
      {user_id P0 alice, access_id P0 alice file_f, uuid_new P0 9, uuid_new P0 10, uuid_new P0 14}"
    using sample_footprint' [OF s(1)] by (auto simp: footprint_def)
  have apart: "access_id P0 bob file_g \<notin> set (view_ids P0 (userdata s) file_f (new_access P0 8) (new_mailbox P0 8) (new_inode P0 8 sample))"
      "user_id P0 bob \<notin> set (view_ids P0 (userdata s) file_f (new_access P0 8) (new_mailbox P0 8) (new_inode P0 8 sample))"
    using foot sample_apart(1,2) [of 9 10 14] by blast+
  have used: "set (view_ids P0 (userdata s) file_f (new_access P0 8) (new_mailbox P0 8) (new_inode P0 8 sample)) \<subseteq> sample_used"
    using foot by (auto simp: sample_used_def)
  from store_then_load [OF P0_ok salt _ fresh _ _ _ sh used _ _ run] s(3) apart sample_apart(3)
  have "res = Inr () \<and> LoadFile P0 memory_service file_g s' = (Inr [7], s') \<and>
      LoadFile P0 memory_service file_f (s'\<lparr>userdata := userdata s\<rparr>) = (Inr sample, s'\<lparr>userdata := userdata s\<rparr>)"
    by (simp add: sample_used_def)
  with run show ?thesis by blast
qed

text \<open>C10. A file is loaded exactly when every record on the way to it is there, opens under the
  keys the previous one gives, and unmarshals; the content is then the concatenation of the
  blocks the inode lists, and nothing is changed.\<close>

theorem load_exactly_authentic_files:
  assumes "provider_ok P"
  shows "LoadFile P memory_service f s = (Inr c, s') \<longleftrightarrow> s' = s \<and>
    (\<exists>a mb ino bs. access_at P (store_data (backing s)) (userdata s) f a \<and>
      mailbox_at P (store_data (backing s)) (MymailboxUUID a) (MymailboxKey a) mb \<and>
      inode_at P (store_data (backing s)) mb ino \<and>
      blocks_at P (store_data (backing s)) (FileKey mb) (BlockUUIDs ino) bs \<and> c = concat bs)"
  using LoadFile_Inr [OF assms] by (simp add: file_view_def)

theorem load_exactly_authentic_files_witness:
  "\<exists>s. LoadFile P0 memory_service file_f s = (Inr sample, s)"
proof -
  obtain s :: "mworld st" and ub pa where "sample_shared s"
    by (rule stored_sample)
  then have "file_view P0 (store_data (backing s)) (userdata s) file_f (new_access P0 8) (new_mailbox P0 8)
      (new_inode P0 8 sample) [sample]"
    by (auto simp: sample_shared_def dest: shared_file_parts(1))
  then have "\<exists>a mb ino bs. access_at P0 (store_data (backing s)) (userdata s) file_f a \<and>
      mailbox_at P0 (store_data (backing s)) (MymailboxUUID a) (MymailboxKey a) mb \<and>
      inode_at P0 (store_data (backing s)) mb ino \<and>
      blocks_at P0 (store_data (backing s)) (FileKey mb) (BlockUUIDs ino) bs \<and> sample = concat bs"
    unfolding file_view_def by (metis append_Nil2 concat.simps)
  with load_exactly_authentic_files [OF P0_ok, of file_f s sample s] show ?thesis by blast
qed

text \<open>C11. Any holder of a file may revoke, and only the mailboxes of the direct children who stay get
  the new file key: whoever reads the file through any other mailbox - the owner, when it is a
  recipient who revokes, or somebody a kept child has passed the file on to - is cut off.\<close>

theorem revoke_cuts_off_everyone_else:
  assumes "provider_ok P" and "shared_file P (store_data (backing s)) (userdata s) f a mb ino bs"
    and "good_user (userdata s)"
    and new: "uuid_new P (tick s + length (BlockUUIDs ino) + 3) \<notin> footprint P (userdata s) f a mb ino"
    and reader: "file_view P (store_data (backing s)) v g b mb ino bs"
      "{access_id P (Username v) g, MymailboxUUID b} \<inter>
         insert (uuid_new P (tick s + length (BlockUUIDs ino) + 3)) (footprint P (userdata s) f a mb ino) = {}"
    and rejected: "foreign_key_rejected P (rnd P 32 (tick s)) (FileKey mb)"
    and run: "RevokeAccess P memory_service f r s = (res, s')"
  shows "res = Inr () \<and>
    LoadFile P memory_service g (s\<lparr>userdata := v\<rparr>) = (Inr (concat bs), s\<lparr>userdata := v\<rparr>) \<and>
    (\<exists>e. LoadFile P memory_service g (s'\<lparr>userdata := v\<rparr>) =
      (Inl (Wrap ''failed to decrypt inode'' e), s'\<lparr>userdata := v\<rparr>))"
proof -
  have u: "Files (userdata s) \<noteq> None" "length (PasswordSalt (userdata s)) = 16"
    using assms(3) by (simp_all add: good_user_def)
  note rv = RevokeAccess_shared [OF assms(1,2) u refl new run]
  have "access_at P (store_data (backing s')) v g b"
      "mailbox_at P (store_data (backing s')) (MymailboxUUID b) (MymailboxKey b) mb"
    using reader rv(7) [of "access_id P (Username v) g"] rv(7) [of "MymailboxUUID b"]
    by (auto simp: file_view_def access_at_def mailbox_at_def reads_at_def)
  moreover obtain t x where "store_data (backing s') (InodeUUID mb) = Some (sealed P t x (getFileKeys P (rnd P 32 (tick s))))"
    using rv(5) [of "InodeUUID mb"] by auto
  ultimately have "\<exists>e. LoadFile P memory_service g (s'\<lparr>userdata := v\<rparr>) =
      (Inl (Wrap ''failed to decrypt inode'' e), s'\<lparr>userdata := v\<rparr>)"
    using old_key_rejected [OF assms(1), of "s'\<lparr>userdata := v\<rparr>" g b mb] rejected by simp
  then show ?thesis
    using rv(1) LoadFile_view [OF assms(1), of "s\<lparr>userdata := v\<rparr>" g] reader(1) by simp
qed

theorem revoke_cuts_off_everyone_else_witness:
  "\<exists>s s' v e. Username (userdata s) = bob \<and> Username v = alice \<and>
    RevokeAccess P0 memory_service file_g (lit ''nobody'') s = (Inr (), s') \<and>
    LoadFile P0 memory_service file_f (s\<lparr>userdata := v\<rparr>) = (Inr sample, s\<lparr>userdata := v\<rparr>) \<and>
    LoadFile P0 memory_service file_f (s'\<lparr>userdata := v\<rparr>) =
      (Inl (Wrap ''failed to decrypt inode'' e), s'\<lparr>userdata := v\<rparr>)"
proof -
  obtain s :: "mworld st" and v a where s:
    "shared_file P0 (store_data (backing s)) (userdata s) file_f a (new_mailbox P0 8) (new_inode P0 8 sample) [sample]"
    "Username (userdata s) = alice" "tick s = 27"
    "file_view P0 (store_data (backing s)) v file_g
      (accepted_access (child_invitation (shared_child P0 18))) (new_mailbox P0 8) (new_inode P0 8 sample) [sample]"
    "Username v = bob" "good_user v" "MymailboxUUID a = uuid_new P0 10"
    by (rule shared_sample_alice)
  let ?s = "s\<lparr>userdata := v\<rparr>"
  obtain res s' where run: "RevokeAccess P0 memory_service file_g (lit ''nobody'') ?s = (res, s')" by fastforce
  have new: "uuid_new P0 (tick ?s + length (BlockUUIDs (new_inode P0 8 sample)) + 3) = uuid_new P0 31"
    by (simp add: s(3) new_inode_def sample_blocks)
  note sb = sample_of_bob [OF s(4,5)]
  have sh: "shared_file P0 (store_data (backing ?s)) (userdata ?s) file_g
      (accepted_access (child_invitation (shared_child P0 18))) (new_mailbox P0 8) (new_inode P0 8 sample) [sample]"
    using sb(1) by simp
  have apart: "uuid_new P0 31 \<notin> {user_id P0 bob, access_id P0 bob file_g, uuid_new P0 18, uuid_new P0 9, uuid_new P0 14}"
      "{access_id P0 alice file_f, uuid_new P0 10} \<inter> insert (uuid_new P0 31)
        {user_id P0 bob, access_id P0 bob file_g, uuid_new P0 18, uuid_new P0 9, uuid_new P0 14} = {}"
    by (simp_all add: P0_uuid_eq) (auto dest!: arg_cong [where f = hd])
  have rej: "foreign_key_rejected P0 (rnd P0 32 (tick ?s)) (FileKey (new_mailbox P0 8))"
    using P0_foreign_key [of 27 8] by (simp add: s(3) new_mailbox_def)
  from revoke_cuts_off_everyone_else [OF P0_ok sh, unfolded new, of "userdata s" file_f a, OF _ _ _ _ rej run]
    shared_file_parts(1) [OF s(1)] apart s(2,5-7) sb(2)
  have "res = Inr () \<and> LoadFile P0 memory_service file_f (?s\<lparr>userdata := userdata s\<rparr>) =
      (Inr sample, ?s\<lparr>userdata := userdata s\<rparr>) \<and>
      (\<exists>e. LoadFile P0 memory_service file_f (s'\<lparr>userdata := userdata s\<rparr>) =
        (Inl (Wrap ''failed to decrypt inode'' e), s'\<lparr>userdata := userdata s\<rparr>))"
    by simp
  with run s(2,5) show ?thesis
    by (intro exI [of _ ?s] exI [of _ s'] exI [of _ "userdata s"]) auto
qed

section \<open>Accounts\<close>

text \<open>C12. For a name that is valid UTF-8, logging in gives back the account that was created: same name, keys, salt and files. A
  second \<open>InitUser\<close> with the name is refused and changes nothing.\<close>

theorem init_then_login:
  assumes "provider_ok P" and "store_data (backing s) (user_id P n) = None" and "utf8_valid n"
    and run: "InitUser P memory_service n pw s = (r, s')"
  shows "\<exists>u. r = Inr u \<and> GetUser P memory_service n pw s' = (Inr u, s') \<and> Username u = n \<and>
    InitUser P memory_service n pw' s' = (Inl (Msg ''user %s already exists'' [n]), s')"
proof -
  obtain u s2 where u: "InitUser P memory_service n pw s = (Inr u, s2)" "good_user u" "Username u = n"
      "account_at P (store_data (backing s2)) pw u"
    by (rule InitUser_run [OF assms(1-3)])
  then obtain x where "store_data (backing s2) (user_id P n) = Some x"
    by (auto simp: account_at_def)
  with u run GetUser_run [OF assms(1) u(2,4)] InitUser_exists provider_parts [OF assms(1)]
  show ?thesis by simp
qed

theorem init_then_login_witness:
  "\<exists>u s'. GetUser P0 memory_service alice [112, 119] s' = (Inr u, s') \<and> Username u = alice \<and>
    InitUser P0 memory_service alice [] s' = (Inl (Msg ''user %s already exists'' [alice]), s')"
proof -
  obtain r s' where run: "InitUser P0 memory_service alice [112, 119] start = (r, s')" by fastforce
  have "store_data (backing start) (user_id P0 alice) = None" by (simp add: start_def new_memory_def)
  from init_then_login [OF P0_ok this _ run, of "[]"] show ?thesis by auto
qed

text \<open>Storing a file also saves the account: a later login with the same password gives the user
  with the file listed.\<close>

theorem stored_file_is_listed_after_login:
  assumes "provider_ok P" and "good_user (userdata s)" and "int (length c) < 2 ^ 63" and "utf8_valid f"
    and password: "MasterKey (userdata s) = deriveMasterKey P pw (PasswordSalt (userdata s))"
    and fresh: "fresh_uuids P (tick s) (8 + 2 * length (ByteToBlock c)) used"
    and ids: "access_id P (Username (userdata s)) f \<in> used" "user_id P (Username (userdata s)) \<in> used"
      "access_id P (Username (userdata s)) f \<noteq> user_id P (Username (userdata s))"
    and run: "StoreFile P memory_service f c s = (res, s')"
  shows "\<exists>u. GetUser P memory_service (Username (userdata s)) pw s' = (Inr u, s') \<and>
    fmlookup (files_of u) f = Some (access_id P (Username u) f) \<and>
    (\<forall>f'. f' \<noteq> f \<longrightarrow> fmlookup (files_of u) f' = fmlookup (files_of (userdata s)) f')"
proof -
  let ?u = "with_file P (userdata s) f"
  have salt: "length (PasswordSalt (userdata s)) = 16" using assms(2) by (simp add: good_user_def)
  note st = StoreFile_view [OF assms(1) salt assms(3) fresh ids run]
  have "account_at P (store_data (backing s')) pw ?u"
    using st(2,6) password by (auto simp: account_at_def)
  moreover have "good_user ?u"
    using provider_parts [OF assms(1)] assms(2,4) by (intro good_user_with_file)
  ultimately have "GetUser P memory_service (Username (userdata s)) pw s' = (Inr ?u, s')"
    using GetUser_run [OF assms(1), of ?u s' pw] by simp
  then show ?thesis
    by (intro exI [of _ ?u]) (simp add: with_file_def files_of_def)
qed

theorem stored_file_is_listed_after_login_witness:
  "\<exists>s s' u. StoreFile P0 memory_service file_f sample s = (Inr (), s') \<and>
    GetUser P0 memory_service alice (lit ''pw'') s' = (Inr u, s') \<and>
    fmlookup (files_of u) file_f = Some (access_id P0 (Username u) file_f)"
proof -
  obtain s :: "mworld st" and ua where u: "good_user ua" "Username ua = alice"
      "account_at P0 (store_data (backing s)) (lit ''pw'') ua" "tick s = 8"
    by (rule two_users)
  let ?s = "s\<lparr>userdata := ua\<rparr>" and ?used = "{access_id P0 alice file_f, user_id P0 alice}"
  obtain r s' where run: "StoreFile P0 memory_service file_f sample ?s = (r, s')" by fastforce
  have good: "good_user (userdata ?s)" "length (PasswordSalt (userdata ?s)) = 16"
      and pw: "MasterKey (userdata ?s) = deriveMasterKey P0 (lit ''pw'') (PasswordSalt (userdata ?s))"
    using u by (simp_all add: good_user_def account_at_def)
  have len: "int (length sample) < 2 ^ 63" by (simp add: sample_def)
  have fresh: "fresh_uuids P0 (tick ?s) (8 + 2 * length (ByteToBlock sample)) ?used"
    by (rule P0_fresh) (auto simp: u(4) sample_blocks)
  have ids: "access_id P0 (Username (userdata ?s)) file_f \<in> ?used" "user_id P0 (Username (userdata ?s)) \<in> ?used"
      "access_id P0 (Username (userdata ?s)) file_f \<noteq> user_id P0 (Username (userdata ?s))"
    using u(2) apart_by_hd [of "access_id P0 alice file_f" "user_id P0 alice"] by simp_all
  have "utf8_valid file_f" by simp
  from stored_file_is_listed_after_login [OF P0_ok good(1) len this pw fresh ids run]
    StoreFile_view(1) [OF P0_ok good(2) len fresh ids run] run u(2)
  show ?thesis by auto
qed

section \<open>Invitations\<close>

text \<open>C13. An invitation is accepted only if the payload at the given place ends in a signature of the
  rest that verifies under the key registered for the named sender, and the rest decrypts with
  the user's own private key to an invitation.\<close>

theorem accept_only_verified:
  assumes "AcceptInvitation P memory_service sender i f s = (Inr (), s')"
  shows "\<exists>c g pk b v. store_data (backing s) i = Some (c @ g) \<and> length g = ed25519_SignatureSize \<and>
    store_keys (backing s) (sender @ lit ''_sig_pub'') = Some pk \<and> verify P pk c g = Inr () \<and>
    decryptFor P (EncryptionPrivateKey (userdata s)) c = Inr b \<and> unmarshal_invitation P b = Inr v"
  using AcceptInvitation_Inr_verified [OF assms] unfolding ed25519_SignatureSize_def by metis

theorem accept_only_verified_witness:
  "\<exists>s s' i c g pk. AcceptInvitation P0 memory_service alice i file_g s = (Inr (), s') \<and>
    store_data (backing s) i = Some (c @ g) \<and> verify P0 pk c g = Inr ()"
proof -
  obtain s s1 s2 :: "mworld st" and ub pa i where
    "AcceptInvitation P0 memory_service alice i file_g (s1\<lparr>userdata := ub\<rparr>) = (Inr (), s2)"
    by (rule shared_sample)
  with accept_only_verified [OF this] show ?thesis by blast
qed

text \<open>A forged invitation is refused: if the signature does not verify under the registered key,
  the call fails with the error the code gives and nothing has been written.\<close>

theorem forged_invitation_is_refused:
  assumes "store_data (backing s) i = Some (c @ g)" and "length g = ed25519_SignatureSize"
    and "store_keys (backing s) (sender @ lit ''_sig_pub'') = Some pk"
    and "verify P pk c g \<noteq> Inr ()"
  shows "AcceptInvitation P memory_service sender i f s =
    (Inl (Msg ''invitation signature verification failed for sender %s'' [sender]), s)"
  using assms unfolding ed25519_SignatureSize_def by (rule AcceptInvitation_rejects)

theorem forged_invitation_is_refused_witness:
  "\<exists>s. AcceptInvitation P0 memory_service alice (replicate 16 9) file_g s =
    (Inl (Msg ''invitation signature verification failed for sender %s'' [alice]), s)"
proof -
  let ?s = "\<lparr>backing = \<lparr>store_data = [replicate 16 9 \<mapsto> [] @ replicate 64 0],
      store_keys = [alice @ lit ''_sig_pub'' \<mapsto> replicate 32 1]\<rparr>, tick = 0, userdata = nobody\<rparr>"
  have "verify P0 (replicate 32 1) [] (replicate 64 0) \<noteq> Inr ()"
    by (auto simp: verify_def P0_def pad_def ed25519_PublicKeySize_def hd_append dest: arg_cong [where f = hd])
  from forged_invitation_is_refused [OF _ _ _ this, of ?s "replicate 16 9" alice file_g]
  show ?thesis by (auto simp: ed25519_SignatureSize_def)
qed

text \<open>C14. Inviting somebody who has no account fails after the recipient's mailbox has been stored:
  a mailbox that nobody knows is left behind, the rest of the storage is as before, and the
  owner's file is still loaded.\<close>

theorem inviting_nobody_leaves_an_orphan:
  assumes "provider_ok P" and view: "file_view P (store_data (backing s)) (userdata s) f a mb ino bs"
    and nobody: "store_keys (backing s) (r @ lit ''_enc_pub'') = None"
    and fresh: "uuid_new P (tick s) \<notin> set (view_ids P (userdata s) f a mb ino)"
    and run: "CreateInvitation P memory_service f r s = (res, s')"
  shows "res = Inl (Msg ''recipient user %s does not exist'' [r]) \<and>
    (\<exists>p. store_data (backing s') = (store_data (backing s))(uuid_new P (tick s) \<mapsto> p)) \<and>
    LoadFile P memory_service f s' = (Inr (concat bs), s')"
proof -
  note cr = CreateInvitation_unknown [OF assms(1) view nobody, unfolded run, simplified prod.inject]
  have "file_view P (store_data (backing s')) (userdata s') f a mb ino bs"
    using cr fresh by (auto intro: file_view_frame [OF view])
  then show ?thesis
    using cr LoadFile_view [OF assms(1)] by auto
qed

theorem inviting_nobody_leaves_an_orphan_witness:
  "\<exists>s s'. CreateInvitation P0 memory_service file_f (lit ''eve'') s =
      (Inl (Msg ''recipient user %s does not exist'' [lit ''eve'']), s') \<and>
    LoadFile P0 memory_service file_f s' = (Inr sample, s')"
proof -
  obtain s :: "mworld st" and ub pa where s: "sample_shared s"
    by (rule stored_sample)
  let ?s = "s\<lparr>backing := (backing s)\<lparr>store_keys := Map.empty\<rparr>\<rparr>"
  obtain res s' where run: "CreateInvitation P0 memory_service file_f (lit ''eve'') ?s = (res, s')" by fastforce
  have view: "file_view P0 (store_data (backing ?s)) (userdata ?s) file_f (new_access P0 8) (new_mailbox P0 8)
      (new_inode P0 8 sample) [sample]" and t: "tick ?s = 18"
    using s shared_file_parts(1) by (auto simp: sample_shared_def)
  have "uuid_new P0 (tick ?s) \<notin> set (view_ids P0 (userdata ?s) file_f (new_access P0 8) (new_mailbox P0 8) (new_inode P0 8 sample))"
    using fresh_uuids_D(1) [OF sample_fresh, of 18 1 18] sample_footprint' [OF s]
    by (auto simp: t footprint_def sample_used_def)
  from inviting_nobody_leaves_an_orphan [OF P0_ok view _ this run] run show ?thesis by auto
qed

section \<open>Storage over the network\<close>

text \<open>C15. Without a server address the remote storage and key store behave like the in-memory ones: a
  service method over them returns a value exactly when it does over memory with the same two
  maps, the same value, and leaves the same two maps.\<close>

theorem offline_services_refine_memory:
  "equivalent same_offline (InitUser P (remote_service B N) n pw) (InitUser P memory_service n pw) \<and>
    equivalent same_offline (GetUser P (remote_service B N) n pw) (GetUser P memory_service n pw) \<and>
    equivalent same_offline (StoreFile P (remote_service B N) f c) (StoreFile P memory_service f c) \<and>
    equivalent same_offline (LoadFile P (remote_service B N) f) (LoadFile P memory_service f) \<and>
    equivalent same_offline (AppendToFile P (remote_service B N) f x) (AppendToFile P memory_service f x) \<and>
    equivalent same_offline (CreateInvitation P (remote_service B N) f n) (CreateInvitation P memory_service f n) \<and>
    equivalent same_offline (AcceptInvitation P (remote_service B N) n i f) (AcceptInvitation P memory_service n i f) \<and>
    equivalent same_offline (RevokeAccess P (remote_service B N) f n) (RevokeAccess P memory_service f n)"
  unfolding same_offline_def remote_service_def equivalent_def
  by (intro conjI
    offline.memory.refines_InitUser offline.from_memory.refines_InitUser
    offline.memory.refines_GetUser offline.from_memory.refines_GetUser
    offline.memory.refines_StoreFile offline.from_memory.refines_StoreFile
    offline.memory.refines_LoadFile offline.from_memory.refines_LoadFile
    offline.memory.refines_AppendToFile offline.from_memory.refines_AppendToFile
    offline.memory.refines_CreateInvitation offline.from_memory.refines_CreateInvitation
    offline.memory.refines_AcceptInvitation offline.from_memory.refines_AcceptInvitation
    offline.memory.refines_RevokeAccess offline.from_memory.refines_RevokeAccess)

text \<open>C16. Over a server the same holds, whatever the network does: a service method that returns a
  value has read and written the server's database, under the prefixes of data and keys, exactly
  as it would have read and written the two maps; it can only fail more often.\<close>

theorem services_refine_memory_over_the_network:
  assumes "badger_ok B contents"
  shows "refines (same_online contents) (InitUser P (remote_service B N) n pw) (InitUser P memory_service n pw) \<and>
    refines (same_online contents) (GetUser P (remote_service B N) n pw) (GetUser P memory_service n pw) \<and>
    refines (same_online contents) (StoreFile P (remote_service B N) f c) (StoreFile P memory_service f c) \<and>
    refines (same_online contents) (LoadFile P (remote_service B N) f) (LoadFile P memory_service f) \<and>
    refines (same_online contents) (AppendToFile P (remote_service B N) f x) (AppendToFile P memory_service f x) \<and>
    refines (same_online contents) (CreateInvitation P (remote_service B N) f n) (CreateInvitation P memory_service f n) \<and>
    refines (same_online contents) (AcceptInvitation P (remote_service B N) n i f) (AcceptInvitation P memory_service n i f) \<and>
    refines (same_online contents) (RevokeAccess P (remote_service B N) f n) (RevokeAccess P memory_service f n)"
proof -
  note b = backend.related_to_memory [OF online_backend [OF assms(1), of N]]
  show ?thesis
    unfolding same_online_def remote_service_def
    by (intro conjI related_services.refines_InitUser [OF b] related_services.refines_GetUser [OF b]
        related_services.refines_StoreFile [OF b] related_services.refines_LoadFile [OF b]
        related_services.refines_AppendToFile [OF b] related_services.refines_CreateInvitation [OF b]
        related_services.refines_AcceptInvitation [OF b] related_services.refines_RevokeAccess [OF b])
qed

text \<open>Alice's file on a server over a network that works, and the same records in memory.\<close>

theorem services_refine_memory_over_the_network_witness:
  "\<exists>s'. LoadFile P0 (remote_service map_badger N1) file_f file_server = (Inr sample, s') \<and>
    LoadFile P0 memory_service file_f file_memory = (Inr sample, file_memory) \<and> same_online (\<lambda>d. d) s' file_memory"
proof -
  obtain s' where run: "LoadFile P0 (remote_service map_badger N1) file_f file_server = (Inr sample, s')"
    using file_on_server_is_loaded_witness by blast
  from services_refine_memory_over_the_network [OF map_badger_ok, of P0 N1 alice "[]" file_f]
  have "refines (same_online (\<lambda>d. d)) (LoadFile P0 (remote_service map_badger N1) file_f) (LoadFile P0 memory_service file_f)"
    by blast
  from refinesD [OF this file_server_same run] LoadFile_view [OF P0_ok file_memory_parts(2)] run show ?thesis
    by auto
qed

text \<open>C23. A write over the network is executed at most once, also when the client gets an error, and exactly
  once, with success, when it gets none: of a database that records the transactions it is asked for,
  the record has grown by this one write or not at all. The database, the network and the length of
  key and value are arbitrary.\<close>

theorem remote_set_at_most_once:
  assumes "address w \<noteq> []" and "server_db w = (d, log)" and "remote_Set (logged B) N k v w = (r, w')"
  shows "server_db w' = (d, log) \<and> r \<noteq> Inr () \<or>
    (\<exists>q d'. txn_Set B k v d = (q, d') \<and> server_db w' = (d', log @ [RSet k v]) \<and> (r = Inr () \<longrightarrow> q = Inr ()))"
proof -
  obtain q d' where q: "txn_Set B k v d = (q, d')" by fastforce
  then have execute: "snd (execute (logged B) (RSet k v) (server_db w)) = (d', log @ [RSet k v])"
    unfolding assms(2) execute_logged by (auto split: sum.split)
  have executed: "q = Inr () \<and> server_db w' = (d', log @ [RSet k v])" if "r = Inr ()"
    using remote_Set_executed [of "logged B" N k v w "()" w'] assms q that by (simp add: logged_def)
  from over_network_once [OF assms(3) [unfolded remote_over_network] assms(1)]
  show ?thesis
    using q execute executed assms(2) by (cases "r = Inr ()") auto
qed

text \<open>The connection breaks before the response is back: the client gets an error, the write is done.\<close>

definition logging_world :: "((bytes \<rightharpoonup> bytes) \<times> request list) rworld" where
  "logging_world = \<lparr>address = lit '':1'', useTLS = True, local_map = Map.empty, server_db = (Map.empty, []), dials = 0\<rparr>"

theorem remote_set_at_most_once_witness:
  "\<exists>e w'. remote_Set (logged map_badger) (N0\<lparr>net_down := \<lambda>n. 0\<rparr>) [1] [2] logging_world = (Inl e, w') \<and>
    server_db w' = ([[1] \<mapsto> [2]], [RSet [1] [2]])"
proof -
  let ?w = "logging_world\<lparr>dials := 1\<rparr>" and ?B = "logged map_badger" and ?N = "N0\<lparr>net_down := \<lambda>n. 0\<rparr>"
  have ex: "execute ?B (RSet [1] [2]) (server_db ?w) = (Done, [[1] \<mapsto> [2]], [RSet [1] [2]])"
    by (simp add: logging_world_def logged_def map_badger_def)
  obtain c where c: "incoming c = take (net_down ?N (dials ?w)) (response_bytes Done)"
      "call ?B ?N (fresh_conn 100000) (request_op (RSet [1] [2])) done_reader ?w =
        (fst (done_reader c), ?w\<lparr>server_db := ([[1] \<mapsto> [2]], [RSet [1] [2]])\<rparr>)"
    by (rule call_delivered [where n = 100000 and N = ?N and reader = done_reader, OF _ _ ex]) (simp_all add: lv_def)
  obtain r w' where run: "remote_Set ?B ?N [1] [2] logging_world = (r, w')" by fastforce
  then have *: "r = fst (done_reader c)" "server_db w' = ([[1] \<mapsto> [2]], [RSet [1] [2]])"
    using c(2) unfolding remote_over_network
    by (auto simp: over_network_def run_bind dial_def logging_world_def N0_def fresh_conn_def)
  have "r \<noteq> Inr ()"
    using c(1) *(1) by (auto simp: done_reader_def run_bind readStatus_def ReadFull_def)
  then show ?thesis
    using remote_set_at_most_once [OF _ _ run] run *(2) by (cases r) (auto simp: logging_world_def)
qed

section \<open>The server\<close>

text \<open>C24. A connection is a conversation: the loop executes the complete requests it receives one
  after the other, sends one response for each in that order, and stops at the end of the input
  or in the middle of a request, which it does not execute.\<close>

theorem server_answers_in_order:
  assumes "incoming s = concat (map request_bytes qs) @ p" and "\<forall>q \<in> set qs. request_fits q"
    and "p = [] \<or> (\<exists>q z. request_fits q \<and> request_bytes q = p @ z \<and> z \<noteq> [])"
    and "serve B qs (db s) = (rs, d)"
    and "length (concat (map response_bytes rs)) \<le> room s"
  shows "\<exists>e s'. handleConn B s = (e, s') \<and> db s' = d \<and>
    outgoing s' = outgoing s @ concat (map response_bytes rs)"
  using handleConn_serves [OF assms] by fastforce

theorem server_answers_in_order_witness:
  "\<exists>e s'. handleConn map_badger \<lparr>incoming = request_bytes (RSet [1] [2]) @ request_bytes (RGet [1]) @ [2, 0],
      room = 100, outgoing = [], db = Map.empty\<rparr> = (e, s') \<and> db s' = [[1] \<mapsto> [2]] \<and>
    outgoing s' = response_bytes Done @ response_bytes (Value [2])"
proof -
  let ?s = "\<lparr>incoming = request_bytes (RSet [1] [2]) @ request_bytes (RGet [1]) @ [2, 0],
      room = 100, outgoing = [], db = Map.empty\<rparr>"
  have "request_bytes (RSet [] []) = [2, 0] @ drop 2 (request_bytes (RSet [] []))"
      "drop 2 (request_bytes (RSet [] [])) \<noteq> []"
    by (simp_all add: OpSet_def lv_def put_uint32_def)
  then have cut: "\<exists>q z. request_fits q \<and> request_bytes q = [2, 0] @ z \<and> z \<noteq> []"
    by (intro exI [of _ "RSet [] []"] exI [of _ "drop 2 (request_bytes (RSet [] []))"]) simp
  have "serve map_badger [RSet [1] [2], RGet [1]] Map.empty = ([Done, Value [2]], [[1] \<mapsto> [2]])"
    by (simp add: map_badger_def)
  with server_answers_in_order [of ?s "[RSet [1] [2], RGet [1]]" "[2, 0]" map_badger "[Done, Value [2]]" "[[1] \<mapsto> [2]]"]
    cut show ?thesis by simp
qed

text \<open>C25. A request that the connection cuts off anywhere before its last byte has no effect: nothing is
  sent and the database is as it was.\<close>

theorem incomplete_request_has_no_effect:
  assumes "request_bytes q = incoming s @ z" and "z \<noteq> []" and "request_fits q"
  shows "\<exists>e. handleConn B s = (e, s\<lparr>incoming := []\<rparr>)"
  using assms by (rule handleConn_cut)

theorem incomplete_request_has_no_effect_witness:
  "\<exists>e. handleConn map_badger \<lparr>incoming = butlast (request_bytes (RDelete [1])), room = 100, outgoing = [], db = [[1] \<mapsto> [2]]\<rparr> =
    (e, \<lparr>incoming = [], room = 100, outgoing = [], db = [[1] \<mapsto> [2]]\<rparr>)"
proof -
  have "request_bytes (RDelete [1]) = butlast (request_bytes (RDelete [1])) @ [1]" "request_fits (RDelete [1])"
    by (simp_all add: lv_def put_uint32_def)
  from incomplete_request_has_no_effect [of "RDelete [1]" "\<lparr>incoming = butlast (request_bytes (RDelete [1])), room = 100,
      outgoing = [], db = [[1] \<mapsto> [2]]\<rparr>" "[1]" map_badger] this
  show ?thesis by simp
qed

text \<open>C26. Every request that \<open>Handle\<close> completes without an error has taken at least its five header
  bytes off the connection, so a connection that delivers \<open>n\<close> bytes has at most \<open>n / 5\<close> of them
  and the loop ends.\<close>

theorem handled_requests_are_consumed:
  assumes "Handle B s = (Inr (), s')"
  shows "length (incoming s') + 5 \<le> length (incoming s) \<and> handleConn B s = handleConn B s'"
  using Handle_consumes [OF assms] handleConn.simps [of B s] assms by simp

theorem handled_requests_are_consumed_witness:
  "\<exists>s s'. Handle map_badger s = (Inr (), s') \<and> incoming s = request_bytes (RGet [5]) \<and>
    length (incoming s') + 5 \<le> length (incoming s)"
proof -
  let ?s = "\<lparr>incoming = request_bytes (RGet [5]), room = 100, outgoing = [], db = Map.empty\<rparr>"
  have "Handle map_badger ?s = send (response_bytes Missing) (?s\<lparr>incoming := []\<rparr>)"
    by (subst Handle_request [of _ "RGet [5]" "[]"]) (simp_all add: map_badger_def)
  then obtain s' where run: "Handle map_badger ?s = (Inr (), s')"
    by (simp add: run_send)
  from handled_requests_are_consumed [OF this] run show ?thesis
    by (intro exI [of _ ?s] exI [of _ s']) simp
qed

text \<open>C27. What the client writes for each operation is the request the server reads, for keys and values of
  up to \<open>2 ^ 32 - 1\<close> bytes, or the beginning of it that the connection takes before it breaks, and then
  the write fails; a longer key or value is refused, for every operation, before anything is written.\<close>

theorem client_writes_requests:
  "(case q of RGet key \<Rightarrow> writeOperation opGet key []
      | RSet key val \<Rightarrow> writeOperation opSet key val
      | RDelete key \<Rightarrow> writeOperation opDelete key []) (c :: conn) =
    (if 2 ^ 32 \<le> (case q of RGet key \<Rightarrow> length key | RSet key val \<Rightarrow> max (length key) (length val) | RDelete key \<Rightarrow> length key)
     then (Inl protocol_limit, c)
     else if length (request_bytes q) \<le> room c
     then (Inr (), c\<lparr>room := room c - length (request_bytes q), outgoing := outgoing c @ request_bytes q\<rparr>)
     else (Inl write_broken, c\<lparr>room := 0, outgoing := outgoing c @ take (room c) (request_bytes q)\<rparr>))"
proof -
  have long: "2 ^ 32 \<le> (case q of RGet key \<Rightarrow> length key | RSet key val \<Rightarrow> max (length key) (length val)
      | RDelete key \<Rightarrow> length key) \<longleftrightarrow> \<not> request_fits q"
    by (cases q) (auto simp: le_max_iff_disj)
  show ?thesis
    using request_op_writes [of q] request_op_refused [of q c] unfolding long request_op_def writes_def by auto
qed

theorem client_writes_requests_witness:
  "writeOperation opSet [1] [2, 3] \<lparr>incoming = [], room = 100, outgoing = []\<rparr> =
    (Inr (), \<lparr>incoming = [], room = 88, outgoing = [2, 0, 0, 0, 1, 1, 0, 0, 0, 2, 2, 3]\<rparr>)"
proof -
  from client_writes_requests [of "RSet [1] [2, 3]" "\<lparr>incoming = [], room = 100, outgoing = []\<rparr>"]
  show ?thesis by (simp add: OpSet_def lv_def put_uint32_def)
qed

section \<open>Records and payloads\<close>

text \<open>C36. The five records survive the way into storage and back, when their names are valid UTF-8 and their
  UUIDs have 16 bytes: \<open>json.Unmarshal\<close> after \<open>json.Marshal\<close>
  is the identity, except that a user's password salt is not part of the JSON text and comes
  back empty.\<close>

theorem records_roundtrip:
  assumes "uuid_ok P" and "wf_user u" "wf_inode ino" "wf_mailbox mb" "wf_access a" "wf_invitation v"
  shows "unmarshal_user P (marshal_user P u) = Inr (u\<lparr>PasswordSalt := []\<rparr>) \<and>
    unmarshal_inode P (marshal_inode P ino) = Inr ino \<and>
    unmarshal_mailbox P (marshal_mailbox P mb) = Inr mb \<and>
    unmarshal_access P (marshal_access P a) = Inr a \<and>
    unmarshal_invitation P (marshal_invitation P v) = Inr v"
  using assms by simp

theorem records_roundtrip_witness:
  "unmarshal_mailbox P0 (marshal_mailbox P0 \<lparr>FileKey = [1, 2, 255], InodeUUID = replicate 16 171\<rparr>) =
      Inr \<lparr>FileKey = [1, 2, 255], InodeUUID = replicate 16 171\<rparr> \<and>
    unmarshal_access P0 (marshal_access P0 \<lparr>MymailboxUUID = uuid_nil, MymailboxKey = [],
        Children = Some (fmupd bob \<lparr>ci_MailboxUUID = uuid_nil, ci_MailboxKey = [7]\<rparr> fmempty)\<rparr>) =
      Inr \<lparr>MymailboxUUID = uuid_nil, MymailboxKey = [],
        Children = Some (fmupd bob \<lparr>ci_MailboxUUID = uuid_nil, ci_MailboxKey = [7]\<rparr> fmempty)\<rparr>"
  using records_roundtrip [of P0 nobody "\<lparr>Size = 0, BlockUUIDs = []\<rparr>"
      "\<lparr>FileKey = [1, 2, 255], InodeUUID = replicate 16 171\<rparr>"
      "\<lparr>MymailboxUUID = uuid_nil, MymailboxKey = [],
        Children = Some (fmupd bob \<lparr>ci_MailboxUUID = uuid_nil, ci_MailboxKey = [7]\<rparr> fmempty)\<rparr>"
      "\<lparr>inv_MailboxUUID = uuid_nil, inv_MailboxKey = []\<rparr>"] provider_parts [OF P0_ok]
  by (simp add: wf_user_def nobody_def wf_inode_def wf_mailbox_def wf_access_def wf_invitation_def
      wf_child_def uuid_nil_def)

text \<open>What \<open>encryptAndMAC\<close> seals, \<open>decryptAndVerify\<close> opens under the same pair of keys; the payload is
  the version byte, the nonce, and the ciphertext with its tag.\<close>

theorem sealed_payload_opens:
  assumes "provider_ok P" and "encryptAndMAC P d keys s = (Inr p, s')"
  shows "decryptAndVerify P p keys = Inr d \<and> length p = 29 + length d \<and> hd p = 1"
proof -
  note ok = provider_parts [OF assms(1)]
  have full: "full_keys keys"
    using assms(2) by (cases keys) (auto simp: encryptAndMAC_def run_bind run_guard full_keys_def split: if_splits)
  then have p: "p = sealed P (tick s) d keys"
    using assms(2) run_encryptAndMAC [OF ok(1,3) full, of d s] by simp
  with length_sealed [OF ok(1,3,4) full] decrypt_sealed [OF ok(1,3,4) full] show ?thesis
    by (simp add: sealed_def)
qed

theorem sealed_payload_opens_witness:
  "\<exists>p s'. encryptAndMAC P0 [1, 2] ([3], [4]) start = (Inr p, s') \<and> decryptAndVerify P0 p ([3], [4]) = Inr [1, 2]"
proof -
  obtain p s' where run: "encryptAndMAC P0 [1, 2] ([3], [4]) start = (Inr p, s')"
    using run_encryptAndMAC [of P0 "([3], [4])" "[1, 2]" start] provider_parts [OF P0_ok]
    by (simp add: full_keys_def)
  from sealed_payload_opens [OF P0_ok this] run show ?thesis by blast
qed

text \<open>An invitation encrypted for a public key is decrypted with the private key it belongs to, and
  only its ephemeral key, nonce and tag are added to the text.\<close>

theorem invitation_decrypts:
  assumes "provider_ok P" and "length sk = 32" and "encryptFor P (x25519_public P sk) m s = (r, s')"
  shows "\<exists>c. r = Inr c \<and> decryptFor P sk c = Inr m \<and> 60 \<le> length c \<and> backing s' = backing s \<and> userdata s' = userdata s"
  using encryptFor_decryptFor [OF assms] by metis

theorem invitation_decrypts_witness:
  "\<exists>c s'. encryptFor P0 (x25519_public P0 (replicate 32 5)) [1, 2, 3] start = (Inr c, s') \<and>
    decryptFor P0 (replicate 32 5) c = Inr [1, 2, 3]"
proof -
  obtain r s' where run: "encryptFor P0 (x25519_public P0 (replicate 32 5)) [1, 2, 3] start = (r, s')" by fastforce
  from invitation_decrypts [OF P0_ok _ this] run show ?thesis by auto
qed

text \<open>A message signed with a generated key verifies under the public key generated with it.\<close>

theorem signature_verifies:
  assumes "provider_ok P" and "generateSigningKeyPair P s = (Inr (pk, sk), s')"
  shows "\<exists>g. sign P sk m = Inr g \<and> length g = ed25519_SignatureSize \<and> verify P pk m g = Inr ()"
proof -
  note ok = provider_parts [OF assms(1)]
  obtain p k where "ed25519_genkey P (tick s) = Some (p, k)"
      and "generateSigningKeyPair P s = (Inr (p, k), s\<lparr>tick := Suc (tick s)\<rparr>)"
    by (rule run_generateSigningKeyPair [OF ok(1)])
  with assms(2) verify_sign [OF ok(1,6)] show ?thesis
    by (simp add: ed25519_SignatureSize_def)
qed

theorem signature_verifies_witness:
  "\<exists>pk sk s' g. generateSigningKeyPair P0 start = (Inr (pk, sk), s') \<and> sign P0 sk [1, 2, 3] = Inr g \<and>
    verify P0 pk [1, 2, 3] g = Inr ()"
proof -
  have "rng_ok P0" using provider_parts [OF P0_ok] by simp
  then obtain p k s' where run: "generateSigningKeyPair P0 start = (Inr (p, k), s')"
    by (rule run_generateSigningKeyPair)
  from signature_verifies [OF P0_ok this, of "[1, 2, 3]"] run show ?thesis by blast
qed

section \<open>Blocks, names and lists\<close>

text \<open>C38. Cutting a file into blocks loses nothing: there are \<open>n / 512\<close> blocks, rounded up, all but the last of 512
  bytes and none empty, and \<open>BlockYToByte\<close> with the right size gives the file back.\<close>

theorem blocks_roundtrip:
  "concat (map block (ByteToBlock d)) = d \<and>
   BlockYToByte (Some (ByteToBlock d)) (int (length d)) = d \<and>
   length (ByteToBlock d) = (length d + 511) div 512 \<and>
   (\<forall>b \<in> set (ByteToBlock d). 0 < length (block b) \<and> length (block b) \<le> 512) \<and>
   (\<forall>i. Suc i < length (ByteToBlock d) \<longrightarrow> length (block (ByteToBlock d ! i)) = 512)"
  using ByteToBlock_sizes [of _ d] ByteToBlock_full [of _ d]
  by (simp add: BlockYToByte_inverse length_ByteToBlock BlockSize_def)

theorem blocks_roundtrip_witness:
  "map (length \<circ> block) (ByteToBlock (replicate 513 7)) = [512, 1] \<and>
    BlockYToByte (Some (ByteToBlock (replicate 513 7))) 513 = replicate 513 7"
proof -
  note b = blocks_roundtrip [of "replicate 513 7"]
  have n: "length (ByteToBlock (replicate 513 7)) = 2"
    using b by (simp only: length_replicate)
  then obtain x y where xy: "ByteToBlock (replicate 513 7) = [x, y]"
    by (auto simp: length_Suc_conv numeral_2_eq_2)
  have "Suc 0 < length (ByteToBlock (replicate 513 7))"
    using n by (simp only:)
  then have "length (block (ByteToBlock (replicate 513 7) ! 0)) = 512"
    using b by blast
  moreover have "length (concat (map block (ByteToBlock (replicate 513 7)))) = length (replicate 513 (7 :: byte))"
    using b by metis
  ultimately have "map (length \<circ> block) (ByteToBlock (replicate 513 7)) = [512, 1]"
    by (simp add: xy)
  moreover have "BlockYToByte (Some (ByteToBlock (replicate 513 7))) (int (length (replicate 513 (7 :: byte)))) = replicate 513 7"
    using b by blast
  ultimately show ?thesis by simp
qed

text \<open>The text hashed for an access record determines user and file as long as no user name contains
  a zero byte, and is never the text hashed for a user record. With zero bytes it does not: the
  user \<open>n\<close> with file \<open>f 0 g\<close> and the user \<open>n 0 f\<close> with file \<open>g\<close> share their access record.\<close>

theorem access_ids_separate:
  assumes "0 \<notin> set n" and "0 \<notin> set n'"
  shows "(access_input n f = access_input n' f' \<longleftrightarrow> n = n' \<and> f = f') \<and>
    access_input n f \<noteq> lit ''sharelock/user-id/'' @ m \<and>
    access_id P n (f @ 0 # g) = access_id P (n @ 0 # f) g"
  using access_input_inj [OF assms] access_input_not_user access_input_collision
  by (auto simp: access_id_def)

theorem access_ids_separate_witness:
  "access_input alice file_f \<noteq> access_input bob file_f \<and>
    access_id P0 alice (file_f @ 0 # file_g) = access_id P0 (alice @ 0 # file_f) file_g"
  using access_ids_separate [of alice bob file_f file_f "[]" P0 file_g]
  by (simp add: lit_def)

text \<open>\<open>ListFiles\<close> lists every file of the user exactly once, in whatever order the map is iterated;
  the list is empty for a nil map.\<close>

theorem list_files_complete:
  assumes "order_ok P"
  shows "\<exists>fs s'. ListFiles P s = (Inr fs, s') \<and> distinct fs \<and>
    set fs = fset (fmdom (files_of (userdata s))) \<and> backing s' = backing s \<and> userdata s' = userdata s"
proof -
  obtain fs where "ListFiles P s = (Inr fs, if Files (userdata s) = None then s else s\<lparr>tick := Suc (tick s)\<rparr>)"
      "distinct fs" "set fs = fset (fmdom (files_of (userdata s)))"
    by (rule ListFiles_run [OF assms])
  then show ?thesis by auto
qed

theorem list_files_complete_witness:
  "\<exists>fs s'. ListFiles P0 (start\<lparr>userdata := nobody\<lparr>Files := Some (fmupd file_f uuid_nil fmempty)\<rparr>\<rparr>) = (Inr fs, s') \<and>
    set fs = {file_f}"
  using list_files_complete [of P0 "start\<lparr>userdata := nobody\<lparr>Files := Some (fmupd file_f uuid_nil fmempty)\<rparr>\<rparr>"]
    provider_parts [OF P0_ok] by (auto simp: files_of_def)

end
